(* ===== verification/Prelude.thy ===== *)
theory Prelude
  imports "HOL-Library.Word" "HOL-Library.AList" "HOL-Library.Sublist"
begin

text \<open>
  What every component shares: the error type of \<^verbatim>\<open>src/src/error.rs\<close>, the result and the
  storage-effect types with their sequencing, bytes and little-endian words, slices cut into
  chunks, and the collections of rules the component proofs use.
\<close>

named_theorems codec_simps \<open>unfolding rules for byte codecs\<close>
named_theorems effect_simps \<open>unfolding rules for results and storage effects\<close>

section \<open>Errors and results\<close>

text \<open>
  The variants of \<^verbatim>\<open>MoonclipError\<close>. The text of a message is kept where code branches on it
  (the S3 client) and shortened to its fixed part elsewhere: callers only match on the variant.
\<close>

datatype moonclip_error =
    IoErr string
  | SerializationErr string
  | CompressionErr string
  | NotFound string
  | IntegrityErr string string
  | DeltaErr string
  | StorageErr string
  | ConfigErr string

type_synonym 'a result = "moonclip_error + 'a"

text \<open>The \<^verbatim>\<open>?\<close> operator.\<close>

fun bind_res :: "'a result \<Rightarrow> ('a \<Rightarrow> 'b result) \<Rightarrow> 'b result" where
  "bind_res (Inl e) f = Inl e"
| "bind_res (Inr x) f = f x"

definition ok_or :: "'a option \<Rightarrow> moonclip_error \<Rightarrow> 'a result" where
  "ok_or x e = (case x of None \<Rightarrow> Inl e | Some v \<Rightarrow> Inr v)"

text \<open>\<^verbatim>\<open>iter().map(f).collect::<Result<Vec<_>>>()\<close>: the first error wins.\<close>

fun map_res :: "('a \<Rightarrow> 'b result) \<Rightarrow> 'a list \<Rightarrow> 'b list result" where
  "map_res f [] = Inr []"
| "map_res f (x # xs) = bind_res (f x) (\<lambda>y. bind_res (map_res f xs) (\<lambda>ys. Inr (y # ys)))"

definition is_ok :: "'a result \<Rightarrow> bool" where
  "is_ok r = (case r of Inl _ \<Rightarrow> False | Inr _ \<Rightarrow> True)"

lemma is_ok_simps [simp]: "\<not> is_ok (Inl e)" "is_ok (Inr x)"
  by (simp_all add: is_ok_def)

lemma bind_res_Inr_iff [effect_simps]:
  "bind_res r f = Inr y \<longleftrightarrow> (\<exists>x. r = Inr x \<and> f x = Inr y)"
  by (cases r) auto

lemma bind_res_cong [fundef_cong]:
  "r = r' \<Longrightarrow> (\<And>x. r' = Inr x \<Longrightarrow> f x = g x) \<Longrightarrow> bind_res r f = bind_res r' g"
  by (cases r') auto

lemma ok_or_Inr_iff [effect_simps]: "ok_or x e = Inr y \<longleftrightarrow> x = Some y"
  by (simp add: ok_or_def split: option.splits)

lemma ok_or_simps [simp]: "ok_or (Some y) e = Inr y" "ok_or None e = Inl e"
  by (simp_all add: ok_or_def)

lemma map_res_length: "map_res f xs = Inr ys \<Longrightarrow> length ys = length xs"
  by (induction xs arbitrary: ys) (auto simp: effect_simps)

lemma map_res_nth: "map_res f xs = Inr ys \<Longrightarrow> i < length xs \<Longrightarrow> f (xs ! i) = Inr (ys ! i)"
proof (induction xs arbitrary: ys i)
  case (Cons x xs)
  then show ?case by (cases i) (auto simp: effect_simps)
qed simp

lemma map_res_Inr_map: "(\<And>x. x \<in> set xs \<Longrightarrow> f x = Inr (g x)) \<Longrightarrow> map_res f xs = Inr (map g xs)"
  by (induction xs) auto

lemma map_res_ex_error: "map_res f xs = Inl e \<Longrightarrow> \<exists>x \<in> set xs. f x = Inl e"
proof (induction xs)
  case (Cons x xs)
  then show ?case by (cases "f x"; cases "map_res f xs") auto
qed simp

section \<open>Storage effects\<close>

text \<open>
  An operation on a store: it reads and may change the store's state, and the state it leaves
  behind is there whether or not it fails (a failed loop keeps what it wrote before).
\<close>

type_synonym ('s, 'a) io = "'s \<Rightarrow> 'a result \<times> 's"

definition ret_io :: "'a \<Rightarrow> ('s, 'a) io" where
  "ret_io x s = (Inr x, s)"

definition fail_io :: "moonclip_error \<Rightarrow> ('s, 'a) io" where
  "fail_io e s = (Inl e, s)"

definition bind_io :: "('s, 'a) io \<Rightarrow> ('a \<Rightarrow> ('s, 'b) io) \<Rightarrow> ('s, 'b) io" where
  "bind_io m f s = (case m s of (Inl e, s') \<Rightarrow> (Inl e, s') | (Inr x, s') \<Rightarrow> f x s')"

text \<open>\<^verbatim>\<open>let _ = op;\<close>: run for the effect, discard the outcome.\<close>

definition ignore_io :: "('s, 'a) io \<Rightarrow> ('s, unit) io" where
  "ignore_io m s = (Inr (), snd (m s))"

definition lift_io :: "'a result \<Rightarrow> ('s, 'a) io" where
  "lift_io r s = (r, s)"

fun each_io :: "('a \<Rightarrow> ('s, unit) io) \<Rightarrow> 'a list \<Rightarrow> ('s, unit) io" where
  "each_io f [] s = (Inr (), s)"
| "each_io f (x # xs) s = bind_io (f x) (\<lambda>_. each_io f xs) s"

lemma bind_io_ok [effect_simps]: "m s = (Inr x, s') \<Longrightarrow> bind_io m f s = f x s'"
  by (simp add: bind_io_def)

lemma bind_io_err [effect_simps]: "m s = (Inl e, s') \<Longrightarrow> bind_io m f s = (Inl e, s')"
  by (simp add: bind_io_def)

lemma io_simps [effect_simps]:
  "ret_io x s = (Inr x, s)" "fail_io e s = (Inl e, s)"
  "ignore_io m s = (Inr (), snd (m s))" "lift_io r s = (r, s)"
  by (simp_all add: ret_io_def fail_io_def ignore_io_def lift_io_def)

lemma bind_io_Inr_iff:
  "bind_io m f s = (Inr y, s'') \<longleftrightarrow> (\<exists>x s'. m s = (Inr x, s') \<and> f x s' = (Inr y, s''))"
  by (auto simp: bind_io_def split: prod.splits sum.splits)

lemma each_io_append: "each_io f (xs @ ys) s = bind_io (each_io f xs) (\<lambda>_. each_io f ys) s"
  by (induction xs arbitrary: s) (auto simp: bind_io_def split: prod.splits sum.splits)

text \<open>A property every step keeps is kept by the loop, however it ends.\<close>

lemma each_io_invariant:
  assumes "\<And>x s. x \<in> set xs \<Longrightarrow> P s \<Longrightarrow> P (snd (f x s))" and "P s"
  shows "P (snd (each_io f xs s))"
  using assms
proof (induction xs arbitrary: s)
  case (Cons x xs)
  have step: "P (snd (f x s))" using Cons.prems by simp
  obtain r s' where fx: "f x s = (r, s')" by (cases "f x s")
  show ?case
  proof (cases r)
    case (Inl e)
    with fx step show ?thesis by (simp add: bind_io_def)
  next
    case (Inr u)
    from step fx have "P (snd (each_io f xs s'))" using Cons.IH Cons.prems by simp
    with fx Inr show ?thesis by (simp add: bind_io_def)
  qed
qed simp

section \<open>Numbers in text\<close>

text \<open>\<^verbatim>\<open>Display\<close> of an unsigned integer.\<close>

definition dec_digit :: "nat \<Rightarrow> char" where
  "dec_digit d = ''0123456789'' ! d"

fun nat_str :: "nat \<Rightarrow> string" where
  "nat_str n = (if n < 10 then [dec_digit n] else nat_str (n div 10) @ [dec_digit (n mod 10)])"

declare nat_str.simps [simp del]

lemma dec_digit_value:
  assumes "d < 10"
  shows "of_char (dec_digit d) = 48 + d"
proof -
  have "d \<in> {0, 1, 2, 3, 4, 5, 6, 7, 8, 9}" using assms by auto
  then show ?thesis by (elim insertE) (simp_all add: dec_digit_def)
qed

lemma nat_str_value: "foldl (\<lambda>a c. 10 * a + (of_char c - 48)) 0 (nat_str n) = n"
proof (induction n rule: nat_str.induct)
  case (1 n)
  then show ?case by (subst nat_str.simps) (auto simp: dec_digit_value)
qed

lemma nat_str_eq_iff [simp]: "nat_str m = nat_str n \<longleftrightarrow> m = n"
  by (metis nat_str_value)

section \<open>Bytes\<close>

type_synonym byte = "8 word"
type_synonym bytes = "byte list"

text \<open>\<^verbatim>\<open>to_le_bytes\<close> and \<^verbatim>\<open>from_le_bytes\<close>, for the width of the word in bytes.\<close>

definition le_bytes :: "nat \<Rightarrow> 'a::len word \<Rightarrow> bytes" where
  "le_bytes n w = map (\<lambda>i. ucast (drop_bit (8 * i) w)) [0..<n]"

fun of_le :: "bytes \<Rightarrow> 'a::len word" where
  "of_le [] = 0"
| "of_le (b # bs) = or (ucast b) (push_bit 8 (of_le bs))"

lemma length_le_bytes [simp]: "length (le_bytes n w) = n"
  by (simp add: le_bytes_def)

lemma le_bytes_Nil_iff [simp]: "le_bytes n w = [] \<longleftrightarrow> n = 0"
  by (simp add: le_bytes_def)

lemma bit_of_le:
  "bit (of_le bs :: 'a::len word) k \<longleftrightarrow>
     k < LENGTH('a) \<and> k div 8 < length bs \<and> bit (bs ! (k div 8)) (k mod 8)"
proof (induction bs arbitrary: k)
  case (Cons b bs)
  show ?case
  proof (cases "k < 8")
    case True
    then show ?thesis by (auto simp: bit_or_iff bit_push_bit_iff bit_ucast_iff)
  next
    case False
    then have "k div 8 = Suc ((k - 8) div 8)" "k mod 8 = (k - 8) mod 8"
      by (simp_all add: le_div_geq le_mod_geq)
    with False show ?thesis
      by (auto simp: bit_or_iff bit_push_bit_iff bit_ucast_iff Cons.IH dest: bit_imp_le_length)
  qed
qed simp

lemma of_le_le_bytes: "LENGTH('a) \<le> 8 * n \<Longrightarrow> of_le (le_bytes n w) = (w :: 'a::len word)"
proof (rule bit_word_eqI)
  fix k assume n: "LENGTH('a) \<le> 8 * n" and k: "k < LENGTH('a)"
  then have "k div 8 < n" by auto
  moreover have "8 * (k div 8) + k mod 8 = k" by simp
  ultimately show "bit (of_le (le_bytes n w) :: 'a word) k = bit w k"
    using k by (simp add: bit_of_le le_bytes_def bit_ucast_iff bit_drop_bit_eq)
qed

lemma le_bytes_of_le:
  assumes "length bs = n" and "LENGTH('a) = 8 * n"
  shows "le_bytes n (of_le bs :: 'a::len word) = bs"
proof (rule nth_equalityI)
  show "length (le_bytes n (of_le bs :: 'a word)) = length bs" using assms by simp
next
  fix i assume "i < length (le_bytes n (of_le bs :: 'a word))"
  then have i: "i < n" by simp
  show "le_bytes n (of_le bs :: 'a word) ! i = bs ! i"
  proof (rule bit_word_eqI)
    fix k assume "k < LENGTH(8)"
    with i assms show "bit (le_bytes n (of_le bs :: 'a word) ! i) k = bit (bs ! i) k"
      by (simp add: le_bytes_def bit_ucast_iff bit_drop_bit_eq bit_of_le)
  qed
qed

section \<open>Slices cut into chunks\<close>

text \<open>\<^verbatim>\<open>slice.chunks(n)\<close>: the last chunk may be short (\<^verbatim>\<open>n\<close> is a positive constant in the code).\<close>

function chunks :: "nat \<Rightarrow> 'a list \<Rightarrow> 'a list list" where
  "chunks n xs = (if n = 0 \<or> xs = [] then [] else take n xs # chunks n (drop n xs))"
  by pat_completeness auto
termination
  by (relation "measure (\<lambda>(n, xs). length xs)") auto

declare chunks.simps [simp del]

lemma chunks_Nil [simp]: "chunks n [] = []"
  by (simp add: chunks.simps)

lemma chunks_Cons: "0 < n \<Longrightarrow> xs \<noteq> [] \<Longrightarrow> chunks n xs = take n xs # chunks n (drop n xs)"
  by (simp add: chunks.simps [of n xs])

lemma concat_chunks [simp]: "0 < n \<Longrightarrow> concat (chunks n xs) = xs"
proof (induction n xs rule: chunks.induct)
  case (1 n xs)
  then show ?case by (cases "xs = []") (simp_all add: chunks_Cons)
qed

lemma chunks_bound: "c \<in> set (chunks n xs) \<Longrightarrow> c \<noteq> [] \<and> length c \<le> n"
proof (induction n xs rule: chunks.induct)
  case (1 n xs)
  show ?case
  proof (cases "n = 0 \<or> xs = []")
    case True
    with 1 show ?thesis by (simp add: chunks.simps [of n xs])
  next
    case False
    with 1 show ?thesis by (auto simp: chunks.simps [of n xs])
  qed
qed

text \<open>Chunks taken along a length that divides the slice are all full.\<close>

lemma chunks_full:
  "0 < n \<Longrightarrow> length xs mod n = 0 \<Longrightarrow> c \<in> set (chunks n xs) \<Longrightarrow> length c = n"
proof (induction n xs rule: chunks.induct)
  case (1 n xs)
  show ?case
  proof (cases "xs = []")
    case True
    with 1 show ?thesis by simp
  next
    case False
    with "1.prems" have "n \<le> length xs"
      by (metis length_0_conv linorder_not_less mod_less)
    moreover from this "1.prems" have "length (drop n xs) mod n = 0"
      by (simp add: le_mod_geq)
    ultimately show ?thesis
      using 1 False by (auto simp: chunks_Cons)
  qed
qed

lemma chunks_append: "0 < n \<Longrightarrow> length c = n \<Longrightarrow> chunks n (c @ xs) = c # chunks n xs"
  by (cases "c = []") (simp_all add: chunks_Cons)

lemma chunks_concat:
  "0 < n \<Longrightarrow> (\<And>c. c \<in> set cs \<Longrightarrow> length c = n) \<Longrightarrow> chunks n (concat cs) = cs"
  by (induction cs) (simp_all add: chunks_append)

lemma length_concat_const:
  "(\<And>c. c \<in> set cs \<Longrightarrow> length c = n) \<Longrightarrow> length (concat cs) = n * length cs"
  by (induction cs) (simp_all add: algebra_simps)

lemma chunks_append_mult:
  assumes "0 < n" and "length ys mod n = 0"
  shows "chunks n (ys @ zs) = chunks n ys @ chunks n zs"
  using assms
proof (induction n ys rule: chunks.induct)
  case (1 n ys)
  show ?case
  proof (cases "ys = []")
    case False
    with "1.prems" have le: "n \<le> length ys"
      by (metis length_0_conv linorder_not_less mod_less)
    moreover from this "1.prems" have "length (drop n ys) mod n = 0" by (simp add: le_mod_geq)
    ultimately show ?thesis
      using 1 False by (simp add: chunks_Cons)
  qed simp
qed

text \<open>Cut into large pieces first, then into elements: the same elements.\<close>

lemma chunks_nested:
  assumes "0 < n" and "0 < k"
  shows "concat (map (chunks n) (chunks (k * n) xs)) = chunks n xs"
  using assms
proof (induction "k * n" xs rule: chunks.induct)
  case (1 xs)
  show ?case
  proof (cases "xs = []")
    case False
    have kn: "0 < k * n" using "1.prems" by simp
    have IH: "concat (map (chunks n) (chunks (k * n) (drop (k * n) xs))) = chunks n (drop (k * n) xs)"
      using 1 False by simp
    have "chunks n xs = chunks n (take (k * n) xs @ drop (k * n) xs)" by simp
    also have "\<dots> = chunks n (take (k * n) xs) @ chunks n (drop (k * n) xs)"
    proof (cases "k * n \<le> length xs")
      case True
      then show ?thesis using "1.prems" by (intro chunks_append_mult) (simp_all add: min_absorb2)
    qed simp
    finally show ?thesis using False kn IH by (simp add: chunks_Cons)
  qed simp
qed

lemma chunks_nested_mod:
  "0 < n \<Longrightarrow> length xs mod n = 0 \<Longrightarrow> c \<in> set (chunks (k * n) xs) \<Longrightarrow> length c mod n = 0"
proof (induction "k * n" xs rule: chunks.induct)
  case (1 xs)
  show ?case
  proof (cases "k * n = 0 \<or> xs = []")
    case True
    with 1 show ?thesis by (auto simp: chunks.simps [of "k * n" xs])
  next
    case False
    have "length (drop (k * n) xs) mod n = 0"
    proof (cases "k * n \<le> length xs")
      case True
      with "1.prems" show ?thesis by (metis length_drop mod_mult_self3 le_add_diff_inverse)
    qed simp
    moreover have "length (take (k * n) xs) mod n = 0" using "1.prems"(2) by (simp add: min_def)
    ultimately show ?thesis
      using 1 False by (auto simp: chunks.simps [of "k * n" xs])
  qed
qed

lemma chunks_by_index:
  assumes "0 < n" and "length xs mod n = 0"
  shows "map (\<lambda>i. take n (drop (i * n) xs)) [0..<length xs div n] = chunks n xs"
  using assms
proof (induction n xs rule: chunks.induct)
  case (1 n xs)
  show ?case
  proof (cases "xs = []")
    case False
    with "1.prems" have le: "n \<le> length xs"
      by (metis length_0_conv linorder_not_less mod_less)
    with "1.prems" have m: "length (drop n xs) mod n = 0" by (simp add: le_mod_geq)
    have len: "length xs div n = Suc (length (drop n xs) div n)"
      using le "1.prems"(1) by (simp add: le_div_geq)
    have "map (\<lambda>i. take n (drop (i * n) xs)) [0..<length xs div n]
        = take n xs # map (\<lambda>i. take n (drop (i * n) (drop n xs))) [0..<length (drop n xs) div n]"
      unfolding len by (simp add: upt_conv_Cons map_Suc_upt [symmetric] comp_def add.commute del: upt_Suc)
    also have "\<dots> = take n xs # chunks n (drop n xs)" using 1 False m by simp
    finally show ?thesis using False "1.prems" by (simp add: chunks_Cons)
  qed simp
qed

text \<open>A transform applied to every full chunk, undone chunk by chunk.\<close>

lemma chunkwise_roundtrip:
  assumes "0 < n" and "0 < m" and "length xs mod n = 0"
    and enc: "\<And>c. length c = n \<Longrightarrow> length (f c) = m \<and> g (f c) = c"
  shows "concat (map g (chunks m (concat (map f (chunks n xs))))) = xs"
proof -
  have full: "length c = n" if "c \<in> set (chunks n xs)" for c
    using assms(1,3) that by (rule chunks_full)
  then have "chunks m (concat (map f (chunks n xs))) = map f (chunks n xs)"
    using assms(2) enc by (intro chunks_concat) auto
  moreover have "map (g \<circ> f) (chunks n xs) = chunks n xs"
    using full enc by (intro map_idI) simp
  ultimately show ?thesis using assms(1) by simp
qed

lemma length_chunkwise:
  assumes "0 < n" and "length xs mod n = 0" and "\<And>c. length c = n \<Longrightarrow> length (f c) = m"
  shows "length (concat (map f (chunks n xs))) = m * (length xs div n)"
proof -
  have full: "\<And>c. c \<in> set (chunks n xs) \<Longrightarrow> length c = n"
    using assms(1,2) by (rule chunks_full)
  have "length (concat (chunks n xs)) = n * length (chunks n xs)"
    by (rule length_concat_const) (rule full)
  then have "length xs = n * length (chunks n xs)" using assms(1) by simp
  moreover have "length (concat (map f (chunks n xs))) = m * length (chunks n xs)"
    using full assms(3) by (subst length_concat_const [of _ m]) auto
  ultimately show ?thesis using assms(1) by simp
qed

section \<open>Lists cut by index\<close>

lemma concat_blocks:
  "0 < B \<Longrightarrow> concat (map (\<lambda>b. map f [b * B..<min (Suc b * B) n]) [0..<k])
     = map f [0..<min (k * B) n]"
proof (induction k)
  case (Suc k)
  have "[0..<min (k * B) n] @ [k * B..<min (Suc k * B) n] = [0..<min (Suc k * B) n]"
  proof (cases "k * B \<le> n")
    case True
    then have "k * B \<le> min (Suc k * B) n" by simp
    then have "[0..<min (Suc k * B) n] = [0..<k * B] @ [k * B..<min (Suc k * B) n]"
      by (metis le0 le_add_diff_inverse upt_add_eq_append)
    with True show ?thesis by (simp add: min_absorb1)
  next
    case False
    then show ?thesis by (simp add: min_def)
  qed
  then have "map f [0..<min (k * B) n] @ map f [k * B..<min (Suc k * B) n]
      = map f [0..<min (Suc k * B) n]"
    by (metis map_append)
  with Suc show ?case by (simp del: mult_Suc)
qed simp

lemma length_grid [simp]:
  "length (concat (map (\<lambda>i. map (\<lambda>j. g i j) [a..<c]) [b..<m])) = (m - b) * (c - a)"
  by (simp add: length_concat comp_def sum_list_triv)

lemma nth_concat_uniform:
  assumes "\<And>i. i < m \<Longrightarrow> length (f i) = k" and "j < m * k"
  shows "concat (map f [0..<m]) ! j = f (j div k) ! (j mod k)"
  using assms
proof (induction m)
  case (Suc m)
  have len: "length (concat (map f [0..<m])) = k * m"
    using Suc.prems(1) by (subst length_concat_const [of _ k]) auto
  show ?case
  proof (cases "j < m * k")
    case True
    with Suc show ?thesis by (simp add: nth_append len mult.commute)
  next
    case False
    with Suc.prems(2) have jd: "j div k = m" by (intro div_nat_eqI) (simp_all add: algebra_simps)
    have "j mod k = j - k * (j div k)" by (simp only: minus_mult_div_eq_mod)
    with jd False show ?thesis by (simp add: nth_append len mult.commute)
  qed
qed simp

lemma ceil_div_covers:
  assumes "0 < (c::nat)"
  shows "n \<le> (n + c - 1) div c * c"
proof -
  have "(n + c - 1) mod c < c" using assms by simp
  moreover have "n + c - 1 = (n + c - 1) div c * c + (n + c - 1) mod c" by simp
  ultimately show ?thesis using assms by linarith
qed

lemma concat_map_concat: "concat (map (\<lambda>x. concat (f x)) xs) = concat (concat (map f xs))"
  by (induction xs) simp_all

lemma find_Some_iff_mem: "find P xs = Some x \<Longrightarrow> x \<in> set xs \<and> P x"
  by (auto simp: find_Some_iff)

lemma find_None_all: "find P xs = None \<longleftrightarrow> (\<forall>x \<in> set xs. \<not> P x)"
  by (auto simp: find_None_iff)

end
