(* ===== verification/Shuffle.thy ===== *)
theory Shuffle
  imports Prelude
begin

text \<open>
  The byte-plane transpose of \<^verbatim>\<open>src/src/shuffle.rs\<close>, applied to XOR deltas before compression.
  \<^verbatim>\<open>par_chunks_mut\<close> writes disjoint parts of the output, so the parallel loops are the
  concatenation of what each part holds. The main lemmas give the byte at every position of both
  transforms, and that they invert each other at every length.
\<close>

definition unshuffle_block_len :: nat where
  "unshuffle_block_len = 8192"

definition shuffle :: "bytes \<Rightarrow> nat \<Rightarrow> bytes" where
  "shuffle data itemsize =
     (if itemsize \<le> 1 then data
      else let count = length data div itemsize in
        if count = 0 then data
        else let n = count * itemsize in
          concat (map (\<lambda>plane. map (\<lambda>i. data ! (i * itemsize + plane)) [0..<count]) [0..<itemsize])
          @ drop n data)"

text \<open>
  \<open>unshuffle_dst\<close> is one block of the output: \<open>dst_len\<close> is \<^verbatim>\<open>dst.len()\<close>, which is short for the
  last block only.
\<close>

definition unshuffle_dst :: "bytes \<Rightarrow> nat \<Rightarrow> nat \<Rightarrow> nat \<Rightarrow> nat \<Rightarrow> bytes" where
  "unshuffle_dst data itemsize count block dst_len =
     (let first = block * unshuffle_block_len in
        concat (map (\<lambda>i. map (\<lambda>plane. data ! (plane * count + first + i)) [0..<itemsize])
                    [0..<dst_len div itemsize]))"

definition unshuffle :: "bytes \<Rightarrow> nat \<Rightarrow> bytes" where
  "unshuffle data itemsize =
     (if itemsize \<le> 1 then data
      else let count = length data div itemsize in
        if count = 0 then data
        else let n = count * itemsize; chunk = itemsize * unshuffle_block_len in
          concat (map (\<lambda>block. unshuffle_dst data itemsize count block (min chunk (n - block * chunk)))
                      [0..<(n + chunk - 1) div chunk])
          @ drop n data)"

definition element_size :: "string \<Rightarrow> nat" where
  "element_size dtype =
     (if dtype = ''complex128'' then 16
      else if dtype \<in> set [''float64'', ''int64'', ''uint64'', ''complex64''] then 8
      else if dtype \<in> set [''float32'', ''int32'', ''uint32'', ''complex32''] then 4
      else if dtype \<in> set [''float16'', ''bfloat16'', ''int16'', ''uint16''] then 2
      else if dtype \<in> set [''int8'', ''uint8'', ''bool''] then 1
      else if dtype \<in> set [''float8_e4m3fn'', ''float8_e5m2'', ''float8_e4m3fnuz'',
          ''float8_e5m2fnuz'', ''float8_e8m0fnu'', ''float8_e4m3b11fnuz''] then 1
      else 1)"

section \<open>Both transforms byte by byte\<close>

lemma shuffle_eq:
  assumes "1 < itemsize" and "count = length data div itemsize" and "0 < count"
  shows "shuffle data itemsize
    = concat (map (\<lambda>plane. map (\<lambda>i. data ! (i * itemsize + plane)) [0..<count]) [0..<itemsize])
      @ drop (count * itemsize) data"
  using assms by (simp add: shuffle_def Let_def)

lemma shuffle_trivial: "\<not> (1 < itemsize \<and> 0 < length data div itemsize) \<Longrightarrow> shuffle data itemsize = data"
  by (auto simp: shuffle_def Let_def)

lemma unshuffle_trivial:
  "\<not> (1 < itemsize \<and> 0 < length data div itemsize) \<Longrightarrow> unshuffle data itemsize = data"
  by (auto simp: unshuffle_def Let_def)

lemma whole_elements_le: "length data div itemsize * itemsize \<le> length data"
  by simp

lemma length_shuffle [simp]: "length (shuffle data itemsize) = length data"
proof (cases "1 < itemsize \<and> 0 < length data div itemsize")
  case True
  then show ?thesis
    using whole_elements_le [of data itemsize] by (simp add: shuffle_eq [OF _ refl] mult.commute)
qed (simp add: shuffle_trivial)

lemma nth_shuffle_body:
  assumes "1 < itemsize" and "count = length data div itemsize" and "j < count * itemsize"
  shows "shuffle data itemsize ! j = data ! (j mod count * itemsize + j div count)"
proof -
  let ?f = "\<lambda>plane. map (\<lambda>i. data ! (i * itemsize + plane)) [0..<count]"
  have c: "0 < count" using assms(3) by (cases count) auto
  have j: "j < itemsize * count" using assms(3) by (simp add: mult.commute)
  have "shuffle data itemsize ! j = concat (map ?f [0..<itemsize]) ! j"
    unfolding shuffle_eq [OF assms(1,2) c] using j by (simp add: nth_append)
  also have "\<dots> = ?f (j div count) ! (j mod count)"
    using j by (intro nth_concat_uniform) simp_all
  finally show ?thesis using c by simp
qed

text \<open>The block loop covers the planes in order, with no gap and no overlap between blocks.\<close>

lemma unshuffle_dst_upt:
  assumes "0 < itemsize"
  shows "unshuffle_dst data itemsize count block
      (min (itemsize * unshuffle_block_len)
        (count * itemsize - block * (itemsize * unshuffle_block_len)))
    = concat (map (\<lambda>e. map (\<lambda>plane. data ! (plane * count + e)) [0..<itemsize])
        [block * unshuffle_block_len..<min (Suc block * unshuffle_block_len) count])"
proof -
  let ?B = unshuffle_block_len
  have "count * itemsize - block * (itemsize * ?B) = itemsize * (count - block * ?B)"
    by (simp add: diff_mult_distrib2 ac_simps)
  then have "min (itemsize * ?B) (count * itemsize - block * (itemsize * ?B))
      = itemsize * min ?B (count - block * ?B)"
    by (simp add: nat_mult_min_right)
  then have l: "min (itemsize * ?B) (count * itemsize - block * (itemsize * ?B)) div itemsize
      = min ?B (count - block * ?B)"
    using assms by simp
  have "[block * ?B..<min (Suc block * ?B) count]
      = map (\<lambda>i. i + block * ?B) [0..<min ?B (count - block * ?B)]"
  proof (cases "block * ?B \<le> count")
    case True
    then have "min (Suc block * ?B) count = min ?B (count - block * ?B) + block * ?B"
      by (auto simp: min_def)
    then show ?thesis by (simp only: map_add_upt)
  qed simp
  then show ?thesis
    unfolding unshuffle_dst_def Let_def l by (simp add: comp_def ac_simps)
qed

lemma unshuffle_eq:
  assumes "1 < itemsize" and "count = length data div itemsize" and "0 < count"
  shows "unshuffle data itemsize
    = concat (map (\<lambda>e. map (\<lambda>plane. data ! (plane * count + e)) [0..<itemsize]) [0..<count])
      @ drop (count * itemsize) data"
proof -
  let ?B = unshuffle_block_len
  let ?k = "(count * itemsize + itemsize * ?B - 1) div (itemsize * ?B)"
  let ?f = "\<lambda>e. map (\<lambda>plane. data ! (plane * count + e)) [0..<itemsize]"
  have B: "0 < ?B" by (simp add: unshuffle_block_len_def)
  have k: "count \<le> ?k * ?B"
  proof -
    let ?c = "itemsize * ?B"
    have "count * itemsize \<le> ?k * ?c"
      using B assms(1) by (intro ceil_div_covers) simp
    then have "itemsize * count \<le> itemsize * (?k * ?B)" by (simp only: ac_simps)
    then show ?thesis using assms(1) by simp
  qed
  have "unshuffle data itemsize
      = concat (map (\<lambda>block. concat (map ?f [block * ?B..<min (Suc block * ?B) count])) [0..<?k])
        @ drop (count * itemsize) data"
    using assms by (simp add: unshuffle_def Let_def unshuffle_dst_upt del: mult_Suc)
  also have "concat (map (\<lambda>block. concat (map ?f [block * ?B..<min (Suc block * ?B) count])) [0..<?k])
      = concat (concat (map (\<lambda>block. map ?f [block * ?B..<min (Suc block * ?B) count]) [0..<?k]))"
    by (rule concat_map_concat)
  also have "\<dots> = concat (map ?f [0..<min (?k * ?B) count])"
    using B by (simp only: concat_blocks)
  also have "min (?k * ?B) count = count" using k by simp
  finally show ?thesis .
qed

lemma length_unshuffle [simp]: "length (unshuffle data itemsize) = length data"
proof (cases "1 < itemsize \<and> 0 < length data div itemsize")
  case True
  then show ?thesis
    using whole_elements_le [of data itemsize] by (simp add: unshuffle_eq [OF _ refl])
qed (simp add: unshuffle_trivial)

lemma nth_unshuffle_body:
  assumes "1 < itemsize" and "count = length data div itemsize" and "j < count * itemsize"
  shows "unshuffle data itemsize ! j = data ! (j mod itemsize * count + j div itemsize)"
proof -
  let ?f = "\<lambda>e. map (\<lambda>plane. data ! (plane * count + e)) [0..<itemsize]"
  have c: "0 < count" using assms(3) by (cases count) auto
  have "unshuffle data itemsize ! j = concat (map ?f [0..<count]) ! j"
    unfolding unshuffle_eq [OF assms(1,2) c] using assms(3) by (simp add: nth_append)
  also have "\<dots> = ?f (j div itemsize) ! (j mod itemsize)"
    using assms(3) by (intro nth_concat_uniform) simp_all
  finally show ?thesis using assms(1) by simp
qed

lemma nth_tail:
  assumes "1 < itemsize" and "count = length data div itemsize" and "count * itemsize \<le> j"
    and "j < length data"
  shows "shuffle data itemsize ! j = data ! j" and "unshuffle data itemsize ! j = data ! j"
proof -
  have j: "itemsize * count \<le> j" using assms(3) by (simp add: mult.commute)
  show "shuffle data itemsize ! j = data ! j"
  proof (cases "0 < count")
    case True
    show ?thesis unfolding shuffle_eq [OF assms(1,2) True]
      using assms(3,4) j by (simp add: nth_append)
  next
    case False
    with assms(2) show ?thesis by (simp add: shuffle_trivial)
  qed
  show "unshuffle data itemsize ! j = data ! j"
  proof (cases "0 < count")
    case True
    show ?thesis unfolding unshuffle_eq [OF assms(1,2) True]
      using assms(3,4) j by (simp add: nth_append)
  next
    case False
    with assms(2) show ?thesis by (simp add: unshuffle_trivial)
  qed
qed

lemma plane_index_bound: "p < (m::nat) \<Longrightarrow> e < c \<Longrightarrow> p * c + e < c * m"
proof -
  assume "p < m" "e < c"
  then have "p * c + e < Suc p * c" by simp
  also have "\<dots> \<le> m * c" using \<open>p < m\<close> by (intro mult_le_mono1) simp
  finally show ?thesis by (simp add: mult.commute)
qed

lemma unshuffle_of_shuffle [simp]: "unshuffle (shuffle data itemsize) itemsize = data"
proof (cases "1 < itemsize \<and> 0 < length data div itemsize")
  case False
  then show ?thesis by (auto simp: shuffle_def unshuffle_def Let_def)
next
  case True
  define count where "count = length data div itemsize"
  have c: "1 < itemsize" "0 < count" "count = length data div itemsize"
    "count = length (shuffle data itemsize) div itemsize"
    using True by (simp_all add: count_def)
  show ?thesis
  proof (rule nth_equalityI)
    fix j assume "j < length (unshuffle (shuffle data itemsize) itemsize)"
    then have j: "j < length data" by simp
    show "unshuffle (shuffle data itemsize) itemsize ! j = data ! j"
    proof (cases "j < count * itemsize")
      case False
      with c j show ?thesis by (simp add: nth_tail [where count = count])
    next
      case inside: True
      let ?k = "j mod itemsize * count + j div itemsize"
      have e: "j div itemsize < count" using inside by (simp add: less_mult_imp_div_less)
      have p: "j mod itemsize < itemsize" using c by simp
      have k: "?k < count * itemsize" using plane_index_bound [OF p e] by simp
      have "?k div count = j mod itemsize" "?k mod count = j div itemsize" using e by simp_all
      then show ?thesis
        using c inside k by (simp add: nth_unshuffle_body [where count = count]
            nth_shuffle_body [where count = count])
    qed
  qed simp
qed

text \<open>
  The byte shuffle loses nothing: for every buffer and every element size, whatever the length
  (a ragged tail, a block boundary, an element size of zero), \<^verbatim>\<open>unshuffle\<close> gives back what
  \<^verbatim>\<open>shuffle\<close> was given. A shuffled delta therefore always reads back as itself.
\<close>

theorem unshuffle_shuffle: "unshuffle (shuffle data itemsize) itemsize = data"
  by (rule unshuffle_of_shuffle)

text \<open>
  The transpose only moves bytes: byte \<open>p\<close> of element \<open>e\<close> goes to position \<open>e\<close> of plane \<open>p\<close>,
  and a trailing partial element is copied through unchanged.
\<close>

theorem shuffle_plane:
  assumes "1 < itemsize" and "e < length data div itemsize" and "p < itemsize"
  shows "shuffle data itemsize ! (p * (length data div itemsize) + e) = data ! (e * itemsize + p)
    \<and> drop (length data div itemsize * itemsize) (shuffle data itemsize)
       = drop (length data div itemsize * itemsize) data"
proof
  let ?c = "length data div itemsize"
  have "p * ?c + e < ?c * itemsize" using assms plane_index_bound by blast
  moreover have "(p * ?c + e) mod ?c = e" "(p * ?c + e) div ?c = p" using assms by simp_all
  ultimately show "shuffle data itemsize ! (p * ?c + e) = data ! (e * itemsize + p)"
    using assms by (simp add: nth_shuffle_body [OF assms(1) refl])
  show "drop (?c * itemsize) (shuffle data itemsize) = drop (?c * itemsize) data"
    using assms(1) by (intro nth_equalityI) (simp_all add: nth_tail [OF assms(1) refl])
qed

theorem shuffle_plane_witness:
  "shuffle [1, 2, 3, 4, 5, 6, 7, 8, 9] 4 ! 3 = 6"
  using shuffle_plane [of 4 1 "[1, 2, 3, 4, 5, 6, 7, 8, 9]" 1] by simp

end
