(* ===== verification/Fp.thy ===== *)
theory Fp
  imports Prelude "HOL-Library.Log_Nat"
begin

text \<open>
  The floating-point arithmetic the code takes from the language: values are rationals, a result
  is the exact one rounded to nearest with ties to even (the IEEE default). \<open>f64\<close> is used where the
  code compares sizes against a ratio, so it is a finite rational; \<open>f32\<close> values come and go as bit
  patterns in the casts, with infinities and NaN.
\<close>

definition pow2 :: "int \<Rightarrow> rat" where
  "pow2 k = (if 0 \<le> k then 2 ^ nat k else 1 / 2 ^ nat (- k))"

definition flog2 :: "rat \<Rightarrow> int" where
  "flog2 x = (let (n, d) = quotient_of x; k = bitlen n - bitlen d
     in if pow2 k \<le> x then k else k - 1)"

definition round_even :: "rat \<Rightarrow> int" where
  "round_even x = (let f = floor x; r = x - of_int f
     in if 1 / 2 < r \<or> (r = 1 / 2 \<and> odd f) then f + 1 else f)"

text \<open>\<open>prec\<close> significant bits, exponents from \<open>emin\<close> (subnormals share its unit).\<close>

definition fp_round :: "int \<Rightarrow> int \<Rightarrow> rat \<Rightarrow> rat" where
  "fp_round prec emin x =
     (if x = 0 then 0
      else let u = pow2 (max (flog2 \<bar>x\<bar>) emin - prec + 1) in of_int (round_even (x / u)) * u)"

type_synonym f64 = rat

definition f64_round :: "rat \<Rightarrow> f64" where
  "f64_round x = fp_round 53 (- 1022) x"

definition f64_of_nat :: "nat \<Rightarrow> f64" where
  "f64_of_nat n = f64_round (of_nat n)"

definition f64_mul :: "f64 \<Rightarrow> f64 \<Rightarrow> f64" where
  "f64_mul x y = f64_round (x * y)"

definition f64_div :: "f64 \<Rightarrow> f64 \<Rightarrow> f64" where
  "f64_div x y = f64_round (x / y)"

lemma round_even_int [simp]: "round_even (of_int k) = k"
  by (simp add: round_even_def Let_def)

lemma round_even_mono: "x \<le> y \<Longrightarrow> round_even x \<le> round_even y"
proof -
  assume le: "x \<le> y"
  then have f: "\<lfloor>x\<rfloor> \<le> \<lfloor>y\<rfloor>" by (rule floor_mono)
  show "round_even x \<le> round_even y"
  proof (cases "\<lfloor>x\<rfloor> = \<lfloor>y\<rfloor>")
    case True
    with le show ?thesis by (auto simp: round_even_def Let_def)
  next
    case False
    with f have "\<lfloor>x\<rfloor> + 1 \<le> \<lfloor>y\<rfloor>" by linarith
    then show ?thesis by (auto simp: round_even_def Let_def)
  qed
qed

section \<open>Powers of two\<close>

lemma pow2_pos [simp]: "0 < pow2 k"
  by (simp add: pow2_def)

lemma pow2_nonzero [simp]: "pow2 k \<noteq> 0"
  using pow2_pos [of k] by linarith

lemma pow2_0 [simp]: "pow2 0 = 1"
  by (simp add: pow2_def)

lemma pow2_powr: "pow2 k = (if 0 \<le> k then 2 ^ nat k else inverse (2 ^ nat (- k)))"
  by (simp add: pow2_def divide_inverse)

lemma pow2_Suc: "pow2 (k + 1) = 2 * pow2 k"
proof (cases "0 \<le> k")
  case True
  then have "nat (k + 1) = Suc (nat k)" by simp
  with True show ?thesis by (simp add: pow2_def)
next
  case False
  define n where "n = nat (- k - 1)"
  with False have k: "k = - int (Suc n)" by simp
  then have "nat (- (k + 1)) = n" "nat (- k) = Suc n" by simp_all
  moreover have "0 \<le> k + 1 \<longleftrightarrow> n = 0" using k by simp
  ultimately show ?thesis using False by (simp add: pow2_def)
qed

lemma pow2_add_nat: "pow2 (k + int n) = pow2 k * 2 ^ n"
proof (induction n)
  case (Suc n)
  have "k + int (Suc n) = k + int n + 1" by simp
  then have "pow2 (k + int (Suc n)) = 2 * pow2 (k + int n)" by (simp only: pow2_Suc)
  then show ?case using Suc by simp
qed simp

lemma pow2_minus: "pow2 (- k) = 1 / pow2 k"
proof (cases "0 \<le> k")
  case True
  then show ?thesis by (simp add: pow2_def)
next
  case False
  then show ?thesis by (simp add: pow2_def)
qed

lemma pow2_add: "pow2 (a + b) = pow2 a * pow2 b"
proof (cases "0 \<le> b")
  case True
  then have "pow2 (a + int (nat b)) = pow2 a * 2 ^ nat b" by (intro pow2_add_nat)
  with True show ?thesis by (simp add: pow2_def)
next
  case False
  then have "pow2 ((a + b) + int (nat (- b))) = pow2 (a + b) * 2 ^ nat (- b)" by (intro pow2_add_nat)
  with False show ?thesis by (simp add: pow2_def [of b])
qed

lemma pow2_mono: "a \<le> b \<Longrightarrow> pow2 a \<le> pow2 b"
proof -
  assume "a \<le> b"
  then have "pow2 b = pow2 a * 2 ^ nat (b - a)" using pow2_add_nat [of a "nat (b - a)"] by simp
  moreover have "pow2 a * 1 \<le> pow2 a * 2 ^ nat (b - a)"
    by (intro mult_left_mono) (simp_all add: less_imp_le)
  ultimately show ?thesis by simp
qed

lemma pow2_strict_mono: "a < b \<Longrightarrow> pow2 a < pow2 b"
  using pow2_mono [of "a + 1" b] pow2_Suc [of a] pow2_pos [of a] by linarith

lemma pow2_less_iff [simp]: "pow2 a < pow2 b \<longleftrightarrow> a < b"
  by (metis linorder_less_linear order_less_asym pow2_strict_mono)

lemma pow2_le_iff [simp]: "pow2 a \<le> pow2 b \<longleftrightarrow> a \<le> b"
  by (simp flip: linorder_not_less)

text \<open>The exponent is the exponent.\<close>

lemma flog2_unique:
  assumes "pow2 a \<le> x" "x < pow2 (a + 1)" and "pow2 b \<le> x" "x < pow2 (b + 1)"
  shows "a = b"
proof -
  have "pow2 a < pow2 (b + 1)" "pow2 b < pow2 (a + 1)" using assms by linarith+
  then show ?thesis by simp
qed

lemma flog2_bounds:
  assumes "0 < x"
  shows "pow2 (flog2 x) \<le> x \<and> x < pow2 (flog2 x + 1)"
proof -
  obtain n d where q: "quotient_of x = (n, d)" by (cases "quotient_of x")
  have d: "0 < d" using quotient_of_denom_pos [OF q] .
  have x: "x = of_int n / of_int d" using quotient_of_div [OF q] .
  have "0 < of_int n / (of_int d :: rat)" using assms unfolding x .
  with d have n: "0 < n" by (simp add: zero_less_divide_iff)
  define a b where "a = nat (bitlen n - 1)" and "b = nat (bitlen d - 1)"
  have "0 < bitlen n" "0 < bitlen d"
    using n d bitlen_eq_zero_iff [of n] bitlen_eq_zero_iff [of d] bitlen_nonneg [of n]
      bitlen_nonneg [of d] by linarith+
  then have an: "bitlen n = int a + 1" "nat (bitlen n) = Suc a" and bd: "bitlen d = int b + 1" "nat (bitlen d) = Suc b"
    by (simp_all add: a_def b_def Suc_nat_eq_nat_zadd1)
  have ni: "2 ^ a \<le> n" "n < 2 ^ Suc a" and di: "2 ^ b \<le> d" "d < 2 ^ Suc b"
    using bitlen_bounds [OF n] bitlen_bounds [OF d]
    unfolding an(2) bd(2) a_def [symmetric] b_def [symmetric] by simp_all
  have "(of_int (2 ^ a) :: rat) \<le> of_int n" "(of_int n :: rat) < of_int (2 ^ Suc a)"
      "(of_int (2 ^ b) :: rat) \<le> of_int d" "(of_int d :: rat) < of_int (2 ^ Suc b)"
    using ni di by (simp_all only: of_int_le_iff of_int_less_iff)
  then have nr: "(2 ^ a :: rat) \<le> of_int n" "(of_int n :: rat) < 2 * 2 ^ a"
      and dr: "(2 ^ b :: rat) \<le> of_int d" "(of_int d :: rat) < 2 * 2 ^ b" by simp_all
  have k: "pow2 (int a - int b) = 2 ^ a / 2 ^ b"
    using pow2_add [of "int a" "- int b"] pow2_minus [of "int b"] by (simp add: pow2_def)
  have dp: "(0 :: rat) < of_int d" using d by simp
  have up: "x < 2 * pow2 (int a - int b)"
  proof -
    have "of_int n * 2 ^ b < (2 * 2 ^ a) * (2 ^ b :: rat)" using nr(2) by simp
    also have "\<dots> \<le> (2 * 2 ^ a) * of_int d" using dr(1) by simp
    finally show ?thesis unfolding x k using dp by (simp add: field_simps)
  qed
  have low: "pow2 (int a - int b) < 2 * x"
  proof -
    have "2 ^ a * of_int d < 2 ^ a * (2 * 2 ^ b :: rat)" using dr(2) by simp
    also have "\<dots> \<le> of_int n * (2 * 2 ^ b)" using nr(1) by simp
    finally show ?thesis unfolding x k using dp by (simp add: field_simps)
  qed
  show ?thesis
    using up low q an(1) bd(1) pow2_Suc [of "int a - int b"] pow2_Suc [of "int a - int b - 1"]
    by (simp add: flog2_def Let_def algebra_simps)
qed

lemma flog2_eqI: "pow2 k \<le> x \<Longrightarrow> x < pow2 (k + 1) \<Longrightarrow> flog2 x = k"
  using flog2_bounds [of x] pow2_pos [of k] flog2_unique [of "flog2 x" x k] by linarith

section \<open>Packed formats\<close>

text \<open>
  The magnitude of a number with \<open>mb\<close> mantissa bits and smallest normal exponent \<open>emin\<close>, as the
  pattern its exponent and mantissa fields spell: the value of a pattern, and the pattern nearest
  a value (ties to the even pattern; a mantissa that rounds up carries into the exponent).
\<close>

definition fp_value :: "nat \<Rightarrow> int \<Rightarrow> int \<Rightarrow> rat" where
  "fp_value mb emin n =
     (let e = n div 2 ^ mb; m = n mod 2 ^ mb in
      if e = 0 then of_int m * pow2 (emin - int mb)
      else of_int (2 ^ mb + m) * pow2 (emin + e - 1 - int mb))"

definition fp_mag :: "nat \<Rightarrow> int \<Rightarrow> rat \<Rightarrow> int" where
  "fp_mag mb emin x =
     (if x = 0 then 0
      else let e = max (flog2 x) emin in (e - emin) * 2 ^ mb + round_even (x / pow2 (e - int mb)))"

lemma fp_mag_value:
  assumes "0 \<le> n"
  shows "fp_mag mb emin (fp_value mb emin n) = n"
proof -
  define e m where "e = n div 2 ^ mb" and "m = n mod 2 ^ mb"
  have e: "0 \<le> e" and m: "0 \<le> m" "m < 2 ^ mb"
    using assms by (simp_all add: e_def m_def pos_imp_zdiv_nonneg_iff)
  have n: "n = e * 2 ^ mb + m" by (simp only: e_def m_def div_mult_mod_eq)
  have scale: "pow2 (k - int mb) * 2 ^ mb = pow2 k" for k
    using pow2_add_nat [of "k - int mb" mb] by simp
  have mr: "(of_int m :: rat) < 2 ^ mb"
    using m(2) by (metis of_int_less_iff of_int_numeral of_int_power)
  show ?thesis
  proof (cases "e = 0")
    case True
    then have val: "fp_value mb emin n = of_int m * pow2 (emin - int mb)"
      by (simp add: fp_value_def e_def m_def)
    show ?thesis
    proof (cases "m = 0")
      case True
      with val \<open>e = 0\<close> n show ?thesis by (simp add: fp_mag_def)
    next
      case False
      with m have pos: "0 < fp_value mb emin n" by (simp add: val)
      have "fp_value mb emin n < pow2 emin"
        using mult_strict_right_mono [OF mr pow2_pos [of "emin - int mb"]] scale [of emin]
        by (simp add: val mult.commute)
      then have "pow2 (flog2 (fp_value mb emin n)) < pow2 emin"
        using flog2_bounds [OF pos] by linarith
      then have "max (flog2 (fp_value mb emin n)) emin = emin" by simp
      moreover have "fp_value mb emin n / pow2 (emin - int mb) = of_int m" by (simp add: val)
      then have "round_even (fp_value mb emin n / pow2 (emin - int mb)) = m" by (simp only: round_even_int)
      ultimately show ?thesis
        using n pos \<open>e = 0\<close> by (simp add: fp_mag_def)
    qed
  next
    case False
    define E where "E = emin + e - 1"
    have val: "fp_value mb emin n = of_int (2 ^ mb + m) * pow2 (E - int mb)"
      using False by (simp add: fp_value_def e_def m_def E_def Let_def)
    have lo: "pow2 E \<le> fp_value mb emin n"
    proof -
      have "(2 :: rat) ^ mb * pow2 (E - int mb) \<le> of_int (2 ^ mb + m) * pow2 (E - int mb)"
        using m(1) by (intro mult_right_mono) (simp_all add: less_imp_le)
      then show ?thesis using scale [of E] by (simp add: val mult.commute)
    qed
    have hi: "fp_value mb emin n < pow2 (E + 1)"
    proof -
      have "of_int (2 ^ mb + m) * pow2 (E - int mb) < (2 * 2 ^ mb) * pow2 (E - int mb)"
        using mr by (intro mult_strict_right_mono) simp_all
      then show ?thesis using scale [of E] pow2_Suc [of E] by (simp add: val mult.commute mult.left_commute)
    qed
    have "flog2 (fp_value mb emin n) = E" using lo hi by (rule flog2_eqI)
    moreover have "emin \<le> E" using False e by (simp add: E_def)
    moreover have "fp_value mb emin n \<noteq> 0" using lo pow2_pos [of E] by linarith
    moreover have "fp_value mb emin n / pow2 (E - int mb) = of_int (2 ^ mb + m)" by (simp add: val)
    then have "round_even (fp_value mb emin n / pow2 (E - int mb)) = 2 ^ mb + m"
      by (simp only: round_even_int)
    ultimately have "fp_mag mb emin (fp_value mb emin n) = (E - emin) * 2 ^ mb + (2 ^ mb + m)"
      by (simp add: fp_mag_def max_absorb1)
    then show ?thesis using n by (simp add: E_def algebra_simps)
  qed
qed

lemma fp_value_nonneg: "0 \<le> n \<Longrightarrow> 0 \<le> fp_value mb emin n"
  by (simp add: fp_value_def Let_def less_imp_le)

section \<open>Single and double precision\<close>

datatype fval = FNaN | FInf bool | FFin bool rat

definition f32_val :: "32 word \<Rightarrow> fval" where
  "f32_val w =
     (let s = bit w 31; n = uint (and w 0x7FFFFFFF) in
      if n > 0x7F800000 then FNaN else if n = 0x7F800000 then FInf s
      else FFin s (fp_value 23 (- 126) n))"

text \<open>A NaN result is the canonical quiet one; the language leaves its payload open.\<close>

fun f32_of :: "fval \<Rightarrow> 32 word" where
  "f32_of FNaN = 0x7FC00000"
| "f32_of (FInf s) = or (if s then 0x80000000 else 0) 0x7F800000"
| "f32_of (FFin s x) = or (if s then 0x80000000 else 0)
     (word_of_int (min 0x7F800000 (fp_mag 23 (- 126) x)))"

definition f64_val :: "64 word \<Rightarrow> fval" where
  "f64_val w =
     (let s = bit w 63; n = uint (and w 0x7FFFFFFFFFFFFFFF) in
      if n > 0x7FF0000000000000 then FNaN else if n = 0x7FF0000000000000 then FInf s
      else FFin s (fp_value 52 (- 1022) n))"

fun f64_of :: "fval \<Rightarrow> 64 word" where
  "f64_of FNaN = 0x7FF8000000000000"
| "f64_of (FInf s) = or (if s then 0x8000000000000000 else 0) 0x7FF0000000000000"
| "f64_of (FFin s x) = or (if s then 0x8000000000000000 else 0)
     (word_of_int (min 0x7FF0000000000000 (fp_mag 52 (- 1022) x)))"

fun fval_mul :: "fval \<Rightarrow> fval \<Rightarrow> fval" where
  "fval_mul (FFin s x) (FFin t y) = FFin (s \<noteq> t) (x * y)"
| "fval_mul (FInf s) (FInf t) = FInf (s \<noteq> t)"
| "fval_mul (FInf s) (FFin t y) = (if y = 0 then FNaN else FInf (s \<noteq> t))"
| "fval_mul (FFin s x) (FInf t) = (if x = 0 then FNaN else FInf (s \<noteq> t))"
| "fval_mul FNaN b = FNaN"
| "fval_mul a FNaN = FNaN"

fun fval_div :: "fval \<Rightarrow> fval \<Rightarrow> fval" where
  "fval_div (FFin s x) (FFin t y) =
     (if y = 0 then if x = 0 then FNaN else FInf (s \<noteq> t) else FFin (s \<noteq> t) (x / y))"
| "fval_div (FInf s) (FInf t) = FNaN"
| "fval_div (FInf s) (FFin t y) = FInf (s \<noteq> t)"
| "fval_div (FFin s x) (FInf t) = FFin (s \<noteq> t) 0"
| "fval_div FNaN b = FNaN"
| "fval_div a FNaN = FNaN"

definition f32_mul :: "32 word \<Rightarrow> 32 word \<Rightarrow> 32 word" where
  "f32_mul a b = f32_of (fval_mul (f32_val a) (f32_val b))"

definition f32_div :: "32 word \<Rightarrow> 32 word \<Rightarrow> 32 word" where
  "f32_div a b = f32_of (fval_div (f32_val a) (f32_val b))"

text \<open>\<^verbatim>\<open>is_finite\<close>, \<^verbatim>\<open>is_normal\<close>, \<^verbatim>\<open>abs\<close> and NaN read the fields.\<close>

definition f32_abs :: "32 word \<Rightarrow> 32 word" where
  "f32_abs w = and w 0x7FFFFFFF"

definition f32_is_finite :: "32 word \<Rightarrow> bool" where
  "f32_is_finite w \<longleftrightarrow> f32_abs w < 0x7F800000"

definition f32_is_normal :: "32 word \<Rightarrow> bool" where
  "f32_is_normal w \<longleftrightarrow> 0x00800000 \<le> f32_abs w \<and> f32_abs w < 0x7F800000"

definition f32_is_nan :: "32 word \<Rightarrow> bool" where
  "f32_is_nan w \<longleftrightarrow> 0x7F800000 < f32_abs w"

lemma f32_val_nan_iff: "f32_val w = FNaN \<longleftrightarrow> f32_is_nan w"
  by (simp add: f32_val_def f32_is_nan_def f32_abs_def Let_def word_less_def)

lemma f32_abs_take_bit: "f32_abs w = take_bit 31 w"
  by (simp add: f32_abs_def take_bit_eq_mask mask_eq_exp_minus_1)

lemma bit_sign32: "bit (0x80000000 :: 32 word) k \<longleftrightarrow> k = 31"
proof -
  have "(0x80000000 :: 32 word) = push_bit 31 1" by simp
  then show ?thesis by (simp only: bit_push_bit_iff bit_1_iff) auto
qed

lemma f32_split: "or (if bit w 31 then 0x80000000 else 0) (f32_abs w) = (w :: 32 word)"
proof (rule bit_word_eqI)
  fix k assume k: "k < LENGTH(32)"
  show "bit (or (if bit w 31 then 0x80000000 else 0) (f32_abs w)) k = bit w k"
  proof (cases "k = 31")
    case True
    then show ?thesis by (simp add: f32_abs_take_bit bit_or_iff bit_take_bit_iff bit_sign32)
  next
    case False
    with k have "k < 31" by simp
    then show ?thesis
      using bit_sign32 [of k] by (cases "bit w 31") (simp_all add: f32_abs_take_bit bit_or_iff bit_take_bit_iff)
  qed
qed

text \<open>A number that is not a NaN is the one its value names.\<close>

lemma f32_of_val: "\<not> f32_is_nan w \<Longrightarrow> f32_of (f32_val w) = w"
proof -
  assume "\<not> f32_is_nan w"
  then have le: "uint (f32_abs w) \<le> 0x7F800000" by (simp add: f32_is_nan_def word_less_def)
  show ?thesis
  proof (cases "uint (f32_abs w) = 0x7F800000")
    case True
    then have "f32_abs w = 0x7F800000" by (metis word_of_int_uint word_of_int_numeral)
    with True f32_split [of w] show ?thesis by (simp add: f32_val_def f32_abs_def [symmetric])
  next
    case False
    with le have "min 0x7F800000 (fp_mag 23 (- 126) (fp_value 23 (- 126) (uint (f32_abs w)))) = uint (f32_abs w)"
      by (simp add: fp_mag_value)
    with False le f32_split [of w] show ?thesis
      by (simp add: f32_val_def f32_abs_def [symmetric])
  qed
qed

end
