(* ===== verification/Manifest.thy ===== *)
theory Manifest
  imports Prelude
begin

text \<open>
  The data model of \<^verbatim>\<open>src/src/manifest.rs\<close> and the manifest's own questions: the last full
  snapshot, whether a full one is due, and which snapshots retention must leave alone.
  A \<^verbatim>\<open>HashMap\<close> is an association list (its order is the map's iteration order), a \<^verbatim>\<open>HashSet\<close> a
  set, a UUID its 128-bit value (compared and ordered only), a time stamp a number. A \<^verbatim>\<open>u64\<close> step
  or size is a \<open>nat\<close>: the code only compares, subtracts with saturation and takes remainders.
\<close>

type_synonym uuid = nat
type_synonym timestamp = nat
type_synonym metadata = "(string \<times> string) list"

datatype tensor_storage = Full | DeltaXor | Skipped | Alias

record tensor_entry =
  te_name :: string
  te_shape :: "nat list"
  te_dtype :: string
  te_original_dtype :: "string option"
  te_quant_scale :: "32 word option"
  te_storage :: tensor_storage
  te_alias_of :: "string option"
  te_filename :: "string option"
  te_offset :: nat
  te_compressed_size :: nat
  te_raw_size :: nat
  te_hash_raw :: string
  te_hash_compressed :: "string option"
  te_shuffled :: bool

record rank_entry =
  re_rank :: nat
  re_tensors :: "tensor_entry list"
  re_pack_file :: "string option"
  re_total_compressed :: nat
  re_total_raw :: nat
  re_skipped_count :: nat
  re_delta_count :: nat
  re_full_count :: nat

datatype compression_algo = NoCompression | Zstd int

definition default_compression :: compression_algo where
  "default_compression = Zstd 3"

record snapshot =
  sn_id :: uuid
  sn_step :: nat
  sn_created_at :: timestamp
  sn_ranks :: "(nat \<times> rank_entry) list"
  sn_base_snapshot_id :: "uuid option"
  sn_metadata :: metadata
  sn_compression :: compression_algo
  sn_finalized :: bool
  sn_pinned :: bool

record lineage_config =
  lc_rollback_interval_steps :: nat
  lc_max_rollback_snapshots :: nat

definition default_lineage :: lineage_config where
  "default_lineage = \<lparr>lc_rollback_interval_steps = 10000, lc_max_rollback_snapshots = 3\<rparr>"

record retention_policy =
  rp_max_full_snapshots :: nat
  rp_max_deltas_per_full :: nat
  rp_full_snapshot_every_steps :: nat
  rp_max_total_snapshots :: "nat option"

definition default_retention :: retention_policy where
  "default_retention = \<lparr>rp_max_full_snapshots = 5, rp_max_deltas_per_full = 10,
     rp_full_snapshot_every_steps = 5000, rp_max_total_snapshots = None\<rparr>"

definition effective_total_cap :: "retention_policy \<Rightarrow> nat" where
  "effective_total_cap p =
     (case rp_max_total_snapshots p of Some n \<Rightarrow> n
      | None \<Rightarrow> rp_max_full_snapshots p * (1 + rp_max_deltas_per_full p))"

record manifest =
  mf_format_version :: nat
  mf_world_size :: nat
  mf_snapshots :: "snapshot list"
  mf_retention :: retention_policy
  mf_lineage :: lineage_config
  mf_ranks_written :: "uuid set"

definition default_manifest :: manifest where
  "default_manifest = \<lparr>mf_format_version = 2, mf_world_size = 1, mf_snapshots = [],
     mf_retention = default_retention, mf_lineage = default_lineage, mf_ranks_written = {}\<rparr>"

section \<open>The manifest's questions\<close>

definition is_full :: "snapshot \<Rightarrow> bool" where
  "is_full s \<longleftrightarrow> sn_base_snapshot_id s = None"

definition last_full_snapshot :: "manifest \<Rightarrow> snapshot option" where
  "last_full_snapshot m =
     find (\<lambda>s. sn_base_snapshot_id s = None \<and> sn_finalized s) (rev (mf_snapshots m))"

definition find_snapshot :: "manifest \<Rightarrow> uuid \<Rightarrow> snapshot option" where
  "find_snapshot m i = find (\<lambda>s. sn_id s = i) (mf_snapshots m)"

definition pending_delta_count :: "manifest \<Rightarrow> nat" where
  "pending_delta_count m =
     length (takeWhile (\<lambda>s. sn_base_snapshot_id s \<noteq> None) (rev (mf_snapshots m)))"

definition should_force_full :: "manifest \<Rightarrow> nat \<Rightarrow> bool" where
  "should_force_full m step =
     (if mf_snapshots m = [] then True
      else if effective_total_cap (mf_retention m) \<le> 1 then True
      else case last_full_snapshot m of
        None \<Rightarrow> True
      | Some last_full \<Rightarrow>
          if step - sn_step last_full \<ge> rp_full_snapshot_every_steps (mf_retention m) then True
          else if pending_delta_count m \<ge> rp_max_deltas_per_full (mf_retention m) then True
          else False)"

definition rollback_snapshot_ids :: "manifest \<Rightarrow> uuid list" where
  "rollback_snapshot_ids m =
     (if lc_rollback_interval_steps (mf_lineage m) = 0
         \<or> lc_max_rollback_snapshots (mf_lineage m) = 0 then []
      else rev (map sn_id (take (lc_max_rollback_snapshots (mf_lineage m))
        (filter (\<lambda>s. sn_base_snapshot_id s = None \<and> sn_finalized s
            \<and> sn_step s mod lc_rollback_interval_steps (mf_lineage m) = 0)
          (rev (mf_snapshots m))))))"

text \<open>\<^verbatim>\<open>ids.push(..)\<close> for each pinned snapshot in manifest order, then \<^verbatim>\<open>sort\<close> and \<^verbatim>\<open>dedup\<close>.\<close>

definition protected_snapshot_ids :: "manifest \<Rightarrow> uuid list" where
  "protected_snapshot_ids m =
     (let ids = fold (\<lambda>s ids. case sn_base_snapshot_id s of
                   None \<Rightarrow> ids @ [sn_id s] | Some base \<Rightarrow> ids @ [sn_id s, base])
                 (filter sn_pinned (mf_snapshots m)) (rollback_snapshot_ids m)
      in remdups_adj (sort ids))"

section \<open>Lookups\<close>

lemma last_full_SomeD:
  "last_full_snapshot m = Some s \<Longrightarrow>
     s \<in> set (mf_snapshots m) \<and> sn_base_snapshot_id s = None \<and> sn_finalized s"
  by (auto simp: last_full_snapshot_def dest: find_Some_iff_mem)

lemma last_full_None_iff:
  "last_full_snapshot m = None \<longleftrightarrow>
     (\<forall>s \<in> set (mf_snapshots m). \<not> (sn_base_snapshot_id s = None \<and> sn_finalized s))"
  by (simp add: last_full_snapshot_def find_None_all)

lemma find_snapshot_SomeD:
  "find_snapshot m i = Some s \<Longrightarrow> s \<in> set (mf_snapshots m) \<and> sn_id s = i"
  by (auto simp: find_snapshot_def dest: find_Some_iff_mem)

lemma find_distinct:
  "distinct (map f xs) \<Longrightarrow> x \<in> set xs \<Longrightarrow> find (\<lambda>y. f y = f x) xs = Some x"
  by (induction xs) (auto simp: rev_image_eqI)

lemma find_snapshot_distinct:
  "distinct (map sn_id (mf_snapshots m)) \<Longrightarrow> s \<in> set (mf_snapshots m)
    \<Longrightarrow> find_snapshot m (sn_id s) = Some s"
  by (simp add: find_snapshot_def find_distinct)

lemma find_snapshot_None_iff:
  "find_snapshot m i = None \<longleftrightarrow> i \<notin> sn_id ` set (mf_snapshots m)"
  by (auto simp: find_snapshot_def find_None_all)

text \<open>
  A delta is only written when it has something to stand on: the manifest does not force a
  full snapshot exactly when the cap leaves room for two, a finalised full exists, it is younger
  than the full interval, and the run of deltas after it is shorter than the limit.
\<close>

theorem should_force_full_iff:
  "\<not> should_force_full m step \<longleftrightarrow>
     1 < effective_total_cap (mf_retention m) \<and>
     (\<exists>base. last_full_snapshot m = Some base \<and> base \<in> set (mf_snapshots m) \<and> is_full base
        \<and> sn_finalized base
        \<and> step - sn_step base < rp_full_snapshot_every_steps (mf_retention m)
        \<and> pending_delta_count m < rp_max_deltas_per_full (mf_retention m))"
proof (cases "last_full_snapshot m")
  case None
  then show ?thesis by (simp add: should_force_full_def)
next
  case (Some base)
  then show ?thesis
    using last_full_SomeD [OF Some] by (auto simp: should_force_full_def is_full_def)
qed

section \<open>Protection\<close>

definition rollback_eligible :: "manifest \<Rightarrow> snapshot \<Rightarrow> bool" where
  "rollback_eligible m s \<longleftrightarrow> is_full s \<and> sn_finalized s
     \<and> sn_step s mod lc_rollback_interval_steps (mf_lineage m) = 0"

lemma distinct_remdups_adj_sorted: "sorted xs \<Longrightarrow> distinct (remdups_adj (xs :: nat list))"
  by (induction xs rule: remdups_adj.induct) (auto simp: order.antisym)

lemma rollback_ids_suffix:
  assumes "0 < lc_rollback_interval_steps (mf_lineage m)"
    and "0 < lc_max_rollback_snapshots (mf_lineage m)"
  shows "rollback_snapshot_ids m
    = (let el = filter (rollback_eligible m) (mf_snapshots m)
       in map sn_id (drop (length el - lc_max_rollback_snapshots (mf_lineage m)) el))"
proof -
  let ?P = "\<lambda>s. sn_base_snapshot_id s = None \<and> sn_finalized s
      \<and> sn_step s mod lc_rollback_interval_steps (mf_lineage m) = 0"
  have "rollback_eligible m = ?P" by (auto simp: rollback_eligible_def is_full_def fun_eq_iff)
  then show ?thesis
    using assms by (simp add: rollback_snapshot_ids_def Let_def rev_filter [symmetric]
        rev_map take_rev rev_rev_ident)
qed

text \<open>
  Rollback protection reaches back as far as it is told and no further: it names the newest
  \<^verbatim>\<open>max_rollback_snapshots\<close> of the finalised fulls on the interval, in order, or nothing when
  either knob is zero (no remainder by zero is ever taken).
\<close>

theorem rollback_ids_newest:
  "rollback_snapshot_ids m =
     (if lc_rollback_interval_steps (mf_lineage m) = 0
         \<or> lc_max_rollback_snapshots (mf_lineage m) = 0 then []
      else let el = filter (rollback_eligible m) (mf_snapshots m)
           in map sn_id (drop (length el - lc_max_rollback_snapshots (mf_lineage m)) el))"
  by (simp add: rollback_ids_suffix) (simp add: rollback_snapshot_ids_def)

lemma length_rollback_ids:
  "length (rollback_snapshot_ids m) \<le> lc_max_rollback_snapshots (mf_lineage m)"
  by (simp add: rollback_snapshot_ids_def)

lemma rollback_idsD:
  "i \<in> set (rollback_snapshot_ids m) \<Longrightarrow>
     \<exists>s \<in> set (mf_snapshots m). sn_id s = i \<and> is_full s \<and> sn_finalized s"
  by (auto simp: rollback_snapshot_ids_def is_full_def dest!: in_set_takeD split: if_splits)

lemma set_push_pinned:
  "set (fold (\<lambda>s ids. case sn_base_snapshot_id s of
      None \<Rightarrow> ids @ [sn_id s] | Some base \<Rightarrow> ids @ [sn_id s, base]) ss ids)
   = set ids \<union> sn_id ` set ss \<union> {b. \<exists>s \<in> set ss. sn_base_snapshot_id s = Some b}"
  by (induction ss arbitrary: ids) (auto split: option.splits)

lemma set_protected_ids:
  "set (protected_snapshot_ids m) = set (rollback_snapshot_ids m)
     \<union> {i. \<exists>s \<in> set (mf_snapshots m). sn_pinned s \<and> (i = sn_id s \<or> sn_base_snapshot_id s = Some i)}"
  by (auto simp: protected_snapshot_ids_def set_push_pinned)

text \<open>
  A pin reaches the bytes it needs: the protected identifiers are the rollback ones, every
  pinned snapshot and the base every pinned delta is computed against, listed once each in order.
\<close>

theorem protected_ids_complete:
  "set (protected_snapshot_ids m) = set (rollback_snapshot_ids m)
     \<union> {i. \<exists>s \<in> set (mf_snapshots m). sn_pinned s \<and> (i = sn_id s \<or> sn_base_snapshot_id s = Some i)}
   \<and> sorted_wrt (<) (protected_snapshot_ids m)"
proof -
  have "sorted (protected_snapshot_ids m)" "distinct (protected_snapshot_ids m)"
    by (simp_all add: protected_snapshot_ids_def Let_def sorted_remdups_adj distinct_remdups_adj_sorted)
  then show ?thesis
    by (simp add: set_protected_ids strict_sorted_iff)
qed

end
