(* ===== verification/Compression.thy ===== *)
theory Compression
  imports Manifest
begin

text \<open>
  Compression and decompression, \<^verbatim>\<open>src/src/compression.rs\<close>. The zstd library is outside the
  repository: it is a record of the functions the code calls, and \<open>zstd_frame\<close> states what its
  documentation promises of a frame made by \<^verbatim>\<open>bulk::compress\<close>.
\<close>

record zstd =
  z_compress :: "int \<Rightarrow> bytes \<Rightarrow> string + bytes"
  z_frame_size :: "bytes \<Rightarrow> string + nat"
  z_content_size :: "bytes \<Rightarrow> string + nat option"
  z_decompress_to :: "bytes \<Rightarrow> nat \<Rightarrow> string + bytes"
  z_decode_all :: "bytes \<Rightarrow> string + bytes"
  z_open :: "bytes \<Rightarrow> string option"
  z_read :: "bytes \<Rightarrow> nat \<Rightarrow> nat \<Rightarrow> string + bytes"

text \<open>
  \<open>z_decompress_to src capacity\<close> is the bytes written to a buffer of that capacity;
  \<open>z_open data\<close> is the error of making a streaming decoder, if any; \<open>z_read data max filled\<close> is
  what its next \<^verbatim>\<open>read\<close> gives once \<open>filled\<close> of the \<open>max\<close> bytes are in the buffer (the decoder is
  deterministic and the buffer offered is always the free rest).
\<close>

definition parallel_chunk :: nat where
  "parallel_chunk = 4 * 2 ^ 20"

definition compression_error :: "string + 'a \<Rightarrow> 'a result" where
  "compression_error r = (case r of Inl e \<Rightarrow> Inl (CompressionErr e) | Inr x \<Rightarrow> Inr x)"

fun compress :: "zstd \<Rightarrow> bytes \<Rightarrow> compression_algo \<Rightarrow> bytes result" where
  "compress z data NoCompression = Inr data"
| "compress z data (Zstd level) =
     (if length data \<le> parallel_chunk then compression_error (z_compress z level data)
      else bind_res (map_res (\<lambda>chunk. compression_error (z_compress z level chunk))
                       (chunks parallel_chunk data))
             (\<lambda>frames. Inr (concat frames)))"

text \<open>\<open>frame_layout_from\<close> is the loop at offset \<open>off\<close> with \<open>rest\<close> the bytes from there on.\<close>

function frame_layout_from :: "zstd \<Rightarrow> nat \<Rightarrow> bytes \<Rightarrow> (nat \<times> nat \<times> nat) list option" where
  "frame_layout_from z off rest =
     (if rest = [] then Some []
      else case z_frame_size z rest of
        Inl _ \<Rightarrow> None
      | Inr csize \<Rightarrow>
          if csize = 0 \<or> length rest < csize then None
          else case z_content_size z (take csize rest) of
            Inr (Some dsize) \<Rightarrow>
              map_option (\<lambda>fs. (off, csize, dsize) # fs)
                (frame_layout_from z (off + csize) (drop csize rest))
          | _ \<Rightarrow> None)"
  by pat_completeness auto
termination
  by (relation "measure (\<lambda>(z, off, rest). length rest)") auto

declare frame_layout_from.simps [simp del]

definition frame_layout :: "zstd \<Rightarrow> bytes \<Rightarrow> (nat \<times> nat \<times> nat) list option" where
  "frame_layout z data = frame_layout_from z 0 data"

text \<open>One frame into its slice of the output, of length \<open>dsize\<close>.\<close>

definition decompress_frame :: "zstd \<Rightarrow> bytes \<Rightarrow> nat \<times> nat \<times> nat \<Rightarrow> bytes result" where
  "decompress_frame z data f =
     (case f of (off, csize, dsize) \<Rightarrow>
        if dsize = 0 then Inr []
        else case z_decompress_to z (take csize (drop off data)) dsize of
          Inl e \<Rightarrow> Inl (CompressionErr e)
        | Inr out \<Rightarrow>
            if length out \<noteq> dsize then Inl (CompressionErr ''frame decompressed to other length'')
            else Inr out)"

fun decompress :: "zstd \<Rightarrow> bytes \<Rightarrow> compression_algo \<Rightarrow> bytes result" where
  "decompress z data NoCompression = Inr data"
| "decompress z data (Zstd level) =
     (if data = [] then Inr []
      else case frame_layout z data of
        Some frames \<Rightarrow>
          bind_res (map_res (decompress_frame z data) frames) (\<lambda>outs. Inr (concat outs))
      | None \<Rightarrow> compression_error (z_decode_all z data))"

text \<open>The read loop: \<open>out\<close> is what has been filled so far.\<close>

function read_prefix :: "zstd \<Rightarrow> bytes \<Rightarrow> nat \<Rightarrow> bytes \<Rightarrow> bytes result" where
  "read_prefix z data max_bytes out =
     (if max_bytes \<le> length out then Inr out
      else case z_read z data max_bytes (length out) of
        Inr bs \<Rightarrow> if bs = [] then Inr out
                  else read_prefix z data max_bytes (out @ take (max_bytes - length out) bs)
      | Inl e \<Rightarrow> if 0 < length out then Inr out else Inl (CompressionErr e))"
  by pat_completeness auto
termination
  by (relation "measure (\<lambda>(z, data, max_bytes, out). max_bytes - length out)")
    (auto simp: min_def neq_Nil_conv)

declare read_prefix.simps [simp del]

fun decompress_prefix :: "zstd \<Rightarrow> bytes \<Rightarrow> compression_algo \<Rightarrow> nat \<Rightarrow> bytes result" where
  "decompress_prefix z data NoCompression max_bytes = Inr (take (min (length data) max_bytes) data)"
| "decompress_prefix z data (Zstd level) max_bytes =
     (case z_open z data of
        Some e \<Rightarrow> Inl (CompressionErr e)
      | None \<Rightarrow> read_prefix z data max_bytes [])"

section \<open>What zstd promises\<close>

text \<open>
  \<^verbatim>\<open>bulk::compress\<close> makes one frame that records its content size; the library finds the frame's
  extent at the start of any buffer that begins with it, and decodes it into a buffer of its
  content size.
\<close>

definition zstd_frame :: "zstd \<Rightarrow> int \<Rightarrow> bytes \<Rightarrow> bool" where
  "zstd_frame z level chunk \<longleftrightarrow>
     (\<exists>frame. z_compress z level chunk = Inr frame \<and> frame \<noteq> []
        \<and> (\<forall>rest. z_frame_size z (frame @ rest) = Inr (length frame))
        \<and> z_content_size z frame = Inr (Some (length chunk))
        \<and> z_decompress_to z frame (length chunk) = Inr chunk)"

text \<open>The pieces of \<open>data\<close> that \<^verbatim>\<open>compress\<close> hands to zstd.\<close>

definition zstd_pieces :: "bytes \<Rightarrow> bytes list" where
  "zstd_pieces data = (if length data \<le> parallel_chunk then [data] else chunks parallel_chunk data)"

definition zstd_ok :: "zstd \<Rightarrow> compression_algo \<Rightarrow> bytes \<Rightarrow> bool" where
  "zstd_ok z algo data \<longleftrightarrow>
     (case algo of NoCompression \<Rightarrow> True
      | Zstd level \<Rightarrow> \<forall>chunk \<in> set (zstd_pieces data). zstd_frame z level chunk)"

section \<open>Round trip\<close>

lemma parallel_chunk_pos [simp]: "0 < parallel_chunk"
  by (simp add: parallel_chunk_def)

lemma concat_zstd_pieces [simp]: "concat (zstd_pieces data) = data"
  by (simp add: zstd_pieces_def)

lemma zstd_frame_the:
  assumes "zstd_frame z level chunk"
  defines "frame \<equiv> (case z_compress z level chunk of Inr f \<Rightarrow> f | Inl _ \<Rightarrow> [])"
  shows "z_compress z level chunk = Inr frame" "frame \<noteq> []"
    "z_frame_size z (frame @ rest) = Inr (length frame)"
    "z_content_size z frame = Inr (Some (length chunk))"
    "z_decompress_to z frame (length chunk) = Inr chunk"
  using assms by (auto simp: zstd_frame_def)

definition frame_of :: "zstd \<Rightarrow> int \<Rightarrow> bytes \<Rightarrow> bytes" where
  "frame_of z level chunk = (case z_compress z level chunk of Inr f \<Rightarrow> f | Inl _ \<Rightarrow> [])"

lemma zstd_frame_of:
  assumes "zstd_frame z level chunk"
  shows "z_compress z level chunk = Inr (frame_of z level chunk)"
    and "frame_of z level chunk \<noteq> []"
    and "z_frame_size z (frame_of z level chunk @ rest) = Inr (length (frame_of z level chunk))"
    and "z_content_size z (frame_of z level chunk) = Inr (Some (length chunk))"
    and "z_decompress_to z (frame_of z level chunk) (length chunk) = Inr chunk"
  using assms by (auto simp: zstd_frame_def frame_of_def)

lemma compress_pieces:
  assumes "\<And>c. c \<in> set (zstd_pieces data) \<Longrightarrow> zstd_frame z level c"
  shows "compress z data (Zstd level) = Inr (concat (map (frame_of z level) (zstd_pieces data)))"
proof (cases "length data \<le> parallel_chunk")
  case True
  then show ?thesis
    using zstd_frame_of(1) [OF assms] by (simp add: zstd_pieces_def compression_error_def)
next
  case False
  then have "map_res (\<lambda>c. compression_error (z_compress z level c)) (chunks parallel_chunk data)
      = Inr (map (frame_of z level) (chunks parallel_chunk data))"
    using zstd_frame_of(1) [OF assms]
    by (intro map_res_Inr_map) (simp add: zstd_pieces_def compression_error_def)
  with False show ?thesis by (simp add: zstd_pieces_def)
qed

text \<open>Frames written one after the other are found again, and each decodes to its piece.\<close>

lemma frame_layout_concat:
  assumes "\<And>c. c \<in> set cs \<Longrightarrow> zstd_frame z level c"
  shows "\<exists>fs. frame_layout_from z (length pre) (concat (map (frame_of z level) cs)) = Some fs
    \<and> map_res (decompress_frame z (pre @ concat (map (frame_of z level) cs))) fs = Inr cs"
  using assms
proof (induction cs arbitrary: pre)
  case Nil
  then show ?case by (simp add: frame_layout_from.simps)
next
  case (Cons c cs)
  let ?f = "frame_of z level c" and ?rest = "concat (map (frame_of z level) cs)"
  note fr = zstd_frame_of [OF Cons.prems [of c], simplified]
  obtain fs where fs: "frame_layout_from z (length (pre @ ?f)) ?rest = Some fs"
      "map_res (decompress_frame z ((pre @ ?f) @ ?rest)) fs = Inr cs"
    using Cons.IH [of "pre @ ?f"] Cons.prems by auto
  have "frame_layout_from z (length pre) (?f @ ?rest)
      = Some ((length pre, length ?f, length c) # fs)"
    using fr fs(1) by (simp add: frame_layout_from.simps [of z "length pre" "?f @ ?rest"])
  moreover have "decompress_frame z (pre @ ?f @ ?rest) (length pre, length ?f, length c) = Inr c"
    using fr by (simp add: decompress_frame_def)
  ultimately show ?case using fs(2) by simp
qed

lemma decompress_of_compress:
  assumes "zstd_ok z algo data"
  shows "\<exists>c. compress z data algo = Inr c \<and> decompress z c algo = Inr data"
proof (cases algo)
  case NoCompression
  then show ?thesis by simp
next
  case (Zstd level)
  let ?c = "concat (map (frame_of z level) (zstd_pieces data))"
  have fr: "\<And>c. c \<in> set (zstd_pieces data) \<Longrightarrow> zstd_frame z level c"
    using assms Zstd by (simp add: zstd_ok_def)
  obtain fs where fs: "frame_layout z ?c = Some fs"
      "map_res (decompress_frame z ?c) fs = Inr (zstd_pieces data)"
    using frame_layout_concat [of "zstd_pieces data" z level "[]"] fr
    by (auto simp: frame_layout_def)
  have ne: "?c \<noteq> []"
  proof -
    have "zstd_pieces data \<noteq> []"
      by (cases "data = []") (auto simp: zstd_pieces_def chunks_Cons)
    then obtain p ps where "zstd_pieces data = p # ps" by (cases "zstd_pieces data") auto
    with zstd_frame_of(2) [OF fr, of p] show ?thesis by simp
  qed
  have "compress z data (Zstd level) = Inr ?c" using fr by (rule compress_pieces)
  moreover have "decompress z ?c (Zstd level) = Inr data"
    using ne fs by (simp del: concat_eq_Nil_conv)
  ultimately show ?thesis using Zstd by blast
qed

text \<open>
  C29. What is compressed decompresses to itself, at every level and every size: a buffer that is
  split into frames of 4 MiB compressed in parallel is found frame by frame and put back together
  in order, and the uncompressed mode copies. What zstd documents of its frames is the hypothesis.
\<close>

theorem decompress_compress:
  assumes "zstd_ok z algo data"
  shows "\<exists>c. compress z data algo = Inr c \<and> decompress z c algo = Inr data"
  by (rule decompress_of_compress [OF assms])

text \<open>
  A frame that only records the length of its content and holds it as it is: the format zstd
  itself uses for incompressible data, and a library that keeps \<open>zstd_frame\<close>.
\<close>

definition stored_zstd :: zstd where
  "stored_zstd = \<lparr>
     z_compress = (\<lambda>level data. Inr (le_bytes 8 (word_of_nat (length data) :: 64 word) @ data)),
     z_frame_size = (\<lambda>data. if length data < 8 then Inl ''truncated''
        else Inr (8 + unat (of_le (take 8 data) :: 64 word))),
     z_content_size = (\<lambda>data. if length data < 8 then Inl ''truncated''
        else Inr (Some (unat (of_le (take 8 data) :: 64 word)))),
     z_decompress_to = (\<lambda>data capacity. if capacity < length data - 8 then Inl ''too small''
        else Inr (drop 8 data)),
     z_decode_all = (\<lambda>data. Inr (drop 8 data)),
     z_open = (\<lambda>data. None),
     z_read = (\<lambda>data max_bytes filled. Inr (take (max_bytes - filled) (drop (8 + filled) data)))\<rparr>"

lemma stored_zstd_frame: "length chunk < 2 ^ 64 \<Longrightarrow> zstd_frame stored_zstd level chunk"
  by (simp add: zstd_frame_def stored_zstd_def of_le_le_bytes unat_of_nat)

lemma stored_zstd_ok: "length data \<le> parallel_chunk \<Longrightarrow> zstd_ok stored_zstd algo data"
  by (auto simp: zstd_ok_def zstd_pieces_def parallel_chunk_def
      intro!: stored_zstd_frame split: compression_algo.split)

lemma stored_zstd_sound: "zstd_ok stored_zstd algo data"
proof (cases "length data \<le> parallel_chunk")
  case False
  have "zstd_frame stored_zstd level c" if "c \<in> set (chunks parallel_chunk data)" for level c
    using chunks_bound [OF that] by (intro stored_zstd_frame) (simp add: parallel_chunk_def)
  with False show ?thesis by (auto simp: zstd_ok_def zstd_pieces_def split: compression_algo.split)
qed (rule stored_zstd_ok)

theorem decompress_compress_witness:
  "\<exists>c. compress stored_zstd [1, 2, 3] (Zstd 3) = Inr c
     \<and> decompress stored_zstd c (Zstd 3) = Inr [1, 2, 3]"
  by (rule decompress_compress, rule stored_zstd_ok) (simp add: parallel_chunk_def)

text \<open>A prefix never exceeds what was asked for.\<close>

lemma read_prefix_bound:
  "length out \<le> max_bytes \<Longrightarrow> read_prefix z data max_bytes out = Inr r \<Longrightarrow> length r \<le> max_bytes"
proof (induction z data max_bytes out rule: read_prefix.induct)
  case (1 z data max_bytes out)
  then show ?case
    by (simp add: read_prefix.simps [of z data max_bytes out] split: if_splits sum.splits)
qed

lemma decompress_prefix_bound: "decompress_prefix z data algo n = Inr r \<Longrightarrow> length r \<le> n"
  by (cases algo) (auto split: option.splits dest: read_prefix_bound [rotated])

end
