(* ===== verification/Delta.thy ===== *)
theory Delta
  imports Fp Manifest Shuffle Compression
begin

text \<open>
  XOR deltas, \<^verbatim>\<open>src/src/delta.rs\<close>: computing one, applying it, and the probe that decides whether
  it pays. The parallel scans work chunk by chunk and are written so. \<^verbatim>\<open>xor_bytes\<close> asserts equal
  lengths; both its callers test that first, so the assertion is the branch they already took.
\<close>

unbundle bit_operations_syntax

definition delta_min_size :: nat where
  "delta_min_size = 4096"

definition decision_sample :: nat where
  "decision_sample = 64 * 1024"

definition decision_min :: nat where
  "decision_min = 8 * 1024"

definition scan_chunk :: nat where
  "scan_chunk = 2 ^ 20"

definition xor_bytes :: "bytes \<Rightarrow> bytes \<Rightarrow> bytes" where
  "xor_bytes base target =
     concat (map (\<lambda>(b, t). map (\<lambda>i. b ! i XOR t ! i) [0..<length b])
       (zip (chunks scan_chunk base) (chunks scan_chunk target)))"

definition buffers_equal :: "bytes \<Rightarrow> bytes \<Rightarrow> bool" where
  "buffers_equal base target \<longleftrightarrow>
     length base = length target \<and>
     \<not> list_ex (\<lambda>(b, t). b \<noteq> t) (zip (chunks scan_chunk base) (chunks scan_chunk target))"

definition pays_off ::
    "zstd \<Rightarrow> bytes \<Rightarrow> bytes \<Rightarrow> compression_algo \<Rightarrow> f64 \<Rightarrow> nat \<Rightarrow> bool" where
  "pays_off z base target compression max_ratio itemsize =
     (let n = min (min (length base) (length target)) decision_sample in
      if n < decision_min then True
      else
        let xor0 = map (\<lambda>(a, b). a XOR b) (zip (take n base) (take n target));
            xor1 = (if itemsize > 1 then shuffle xor0 itemsize else xor0)
        in case (compress z xor1 compression, compress z (take n target) compression) of
             (Inr delta_c, Inr full_c) \<Rightarrow>
               if full_c \<noteq> []
               then f64_of_nat (length delta_c) < f64_mul (f64_of_nat (length full_c)) max_ratio
               else True
           | _ \<Rightarrow> True)"

definition compute_delta :: "bytes \<Rightarrow> bytes \<Rightarrow> bytes option" where
  "compute_delta base target =
     (if length base \<noteq> length target then None
      else if length base < delta_min_size then None
      else if buffers_equal base target then None
      else Some (xor_bytes base target))"

definition apply_delta :: "bytes \<Rightarrow> bytes \<Rightarrow> bytes result" where
  "apply_delta base delta =
     (if length base \<noteq> length delta then Inl (DeltaErr ''base length != delta length'')
      else Inr (xor_bytes base delta))"

definition delta_density :: "bytes \<Rightarrow> f64" where
  "delta_density delta =
     (if delta = [] then 0
      else let nonzero = sum_list (map (\<lambda>c. sum_list (map (\<lambda>b. if b \<noteq> 0 then 1 else 0) c))
                            (chunks scan_chunk delta))
           in f64_div (f64_of_nat nonzero) (f64_of_nat (length delta)))"

section \<open>The chunked scans are the plain ones\<close>

lemma scan_chunk_pos [simp]: "0 < scan_chunk"
  by (simp add: scan_chunk_def)

lemma chunked_xor:
  assumes "0 < n" and "length xs = length ys"
  shows "concat (map (\<lambda>(b, t). map (\<lambda>i. b ! i XOR t ! i) [0..<length b])
      (zip (chunks n xs) (chunks n ys))) = map2 (\<lambda>a b. a XOR (b :: byte)) xs ys"
  using assms
proof (induction n xs arbitrary: ys rule: chunks.induct)
  case (1 n xs)
  show ?case
  proof (cases "xs = []")
    case False
    then have ys: "ys \<noteq> []" using "1.prems" by auto
    have head: "map (\<lambda>i. take n xs ! i XOR take n ys ! i) [0..<length (take n xs)]
        = map2 (\<lambda>a b. a XOR b) (take n xs) (take n ys)"
      using "1.prems" by (intro nth_equalityI) simp_all
    have "map2 (\<lambda>a b. a XOR b) xs ys
        = map2 (\<lambda>a b. a XOR b) (take n xs @ drop n xs) (take n ys @ drop n ys)"
      by simp
    also have "\<dots> = map2 (\<lambda>a b. a XOR b) (take n xs) (take n ys)
        @ map2 (\<lambda>a b. a XOR b) (drop n xs) (drop n ys)"
      using "1.prems" by (subst zip_append) simp_all
    finally show ?thesis
      using 1 False ys head by (simp add: chunks_Cons)
  qed simp
qed

lemma xor_bytes_map2:
  "length base = length target \<Longrightarrow> xor_bytes base target = map2 (\<lambda>a b. a XOR b) base target"
  by (simp add: xor_bytes_def chunked_xor)

lemma length_xor_bytes [simp]:
  "length base = length target \<Longrightarrow> length (xor_bytes base target) = length target"
  by (simp add: xor_bytes_map2)

lemma xor_bytes_cancel: "length base = length target \<Longrightarrow> xor_bytes base (xor_bytes base target) = target"
  by (intro nth_equalityI) (simp_all add: xor_bytes_map2 xor.assoc [symmetric])

lemma chunked_equal:
  assumes "0 < n" and "length xs = length ys"
  shows "list_ex (\<lambda>(b, t). b \<noteq> t) (zip (chunks n xs) (chunks n ys)) \<longleftrightarrow> xs \<noteq> ys"
  using assms
proof (induction n xs arbitrary: ys rule: chunks.induct)
  case (1 n xs)
  show ?case
  proof (cases "xs = []")
    case False
    then have "ys \<noteq> []" using "1.prems" by auto
    moreover have "xs = ys \<longleftrightarrow> take n xs = take n ys \<and> drop n xs = drop n ys"
      by (metis append_take_drop_id)
    ultimately show ?thesis
      using 1 False by (auto simp: chunks_Cons)
  qed (use 1 in simp)
qed

lemma buffers_equal_iff: "buffers_equal base target \<longleftrightarrow> base = target"
  by (auto simp: buffers_equal_def chunked_equal)

lemma compute_delta_Some_iff:
  "compute_delta base target = Some d \<longleftrightarrow>
     length base = length target \<and> delta_min_size \<le> length base \<and> base \<noteq> target
     \<and> d = xor_bytes base target"
  by (auto simp: compute_delta_def buffers_equal_iff)

text \<open>
  C28. A delta is exact: it exists for two different buffers of the same length, at least
  \<^verbatim>\<open>DELTA_MIN_SIZE\<close> bytes long, and for no others; it is as long as the tensor; and applying it to
  the base gives back the target byte for byte. The parallel chunk boundaries cannot show.
\<close>

theorem delta_exact:
  "(compute_delta base target \<noteq> None \<longleftrightarrow>
      length base = length target \<and> delta_min_size \<le> length base \<and> base \<noteq> target)
   \<and> (\<forall>d. compute_delta base target = Some d \<longrightarrow>
        length d = length target \<and> apply_delta base d = Inr target)"
  by (auto simp: compute_delta_Some_iff apply_delta_def xor_bytes_cancel)

theorem delta_exact_witness:
  "apply_delta (replicate 4096 0) (xor_bytes (replicate 4096 0) (replicate 4096 1))
     = Inr (replicate 4096 (1 :: byte))"
proof -
  have "compute_delta (replicate 4096 0) (replicate 4096 1)
      = Some (xor_bytes (replicate 4096 0) (replicate 4096 (1 :: byte)))"
    by (simp add: compute_delta_Some_iff delta_min_size_def replicate_eq_replicate)
  then show ?thesis using delta_exact [of "replicate 4096 0" "replicate 4096 1"] by blast
qed

text \<open>
  A delta of the wrong length is refused with an error, never zipped against a shorter base,
  and a delta is applied whenever the lengths agree.
\<close>

theorem apply_delta_length:
  "is_ok (apply_delta base delta) \<longleftrightarrow> length base = length delta"
  by (simp add: apply_delta_def)

text \<open>A ratio of zero or less never accepts a delta; too short a sample always does.\<close>

lemma pays_off_short:
  "min (length base) (length target) < decision_min \<Longrightarrow> pays_off z base target c r k"
  by (simp add: pays_off_def Let_def decision_min_def decision_sample_def)

text \<open>Only the leading \<^verbatim>\<open>DECISION_SAMPLE\<close> bytes are looked at, so a prefix decides as the whole.\<close>

lemma pays_off_prefix:
  assumes "decision_sample \<le> length base" and "decision_sample \<le> length target"
  shows "pays_off z (take decision_sample base) (take decision_sample target) c r k
       = pays_off z base target c r k"
  using assms by (simp add: pays_off_def Let_def min_absorb2 min_absorb1)

end
