(* ===== verification/CastPolicy.thy ===== *)
theory CastPolicy
  imports Prelude
begin

text \<open>
  Which dtype a tensor is stored as, the first half of \<^verbatim>\<open>src/src/cast.rs\<close>: \<^verbatim>\<open>DType\<close>, \<^verbatim>\<open>DTypePolicy\<close>
  and the glob matcher, an index loop with one backtracking point. A name is the list of its
  bytes; comparing bytes and comparing characters is the same for UTF-8 text.
\<close>

section \<open>Data types\<close>

datatype dtype = Float64 | Float32 | BFloat16 | Float16 | Float8E4M3 | Float8E5M2 | DTypeNone

definition lower_char :: "char \<Rightarrow> char" where
  "lower_char c = (let n = (of_char c :: nat) in if 65 \<le> n \<and> n \<le> 90 then char_of (n + 32) else c)"

definition parse_dtype :: "string \<Rightarrow> dtype result" where
  "parse_dtype str =
     (let s = map lower_char str in
      if s = ''bf16'' \<or> s = ''bfloat16'' then Inr BFloat16
      else if s = ''fp16'' \<or> s = ''float16'' then Inr Float16
      else if s = ''fp32'' \<or> s = ''float32'' then Inr Float32
      else if s = ''fp64'' \<or> s = ''float64'' \<or> s = ''double'' then Inr Float64
      else if s = ''fp8'' \<or> s = ''float8'' \<or> s = ''fp8_e4m3'' \<or> s = ''float8_e4m3fn'' then Inr Float8E4M3
      else if s = ''fp8_e5m2'' \<or> s = ''float8_e5m2'' then Inr Float8E5M2
      else if s = ''none'' \<or> s = '''' then Inr DTypeNone
      else Inl (ConfigErr ''unknown save_dtype''))"

fun dtype_str :: "dtype \<Rightarrow> string" where
  "dtype_str Float64 = ''float64''"
| "dtype_str Float32 = ''float32''"
| "dtype_str BFloat16 = ''bfloat16''"
| "dtype_str Float16 = ''float16''"
| "dtype_str Float8E4M3 = ''float8_e4m3fn''"
| "dtype_str Float8E5M2 = ''float8_e5m2''"
| "dtype_str DTypeNone = ''none''"

fun dtype_element_size :: "dtype \<Rightarrow> nat" where
  "dtype_element_size Float64 = 8"
| "dtype_element_size Float32 = 4"
| "dtype_element_size BFloat16 = 2"
| "dtype_element_size Float16 = 2"
| "dtype_element_size Float8E4M3 = 1"
| "dtype_element_size Float8E5M2 = 1"
| "dtype_element_size DTypeNone = 0"

lemma parse_dtype_str: "parse_dtype (dtype_str d) = Inr d"
  by (cases d) (simp_all add: parse_dtype_def lower_char_def Let_def)

lemma dtype_str_inj [simp]: "dtype_str a = dtype_str b \<longleftrightarrow> a = b"
  by (cases a; cases b) simp_all

section \<open>The glob\<close>

definition star :: char where
  "star = CHR ''*''"

text \<open>
  The loop of \<^verbatim>\<open>glob_match\<close>: \<open>pi\<close> and \<open>ni\<close> index the pattern and the name, \<open>st\<close> is the last star
  and \<open>resume\<close> where in the name it was met. As a partial function, so that ending is something
  to prove.
\<close>

partial_function (option) glob_loop ::
    "string \<Rightarrow> string \<Rightarrow> nat \<Rightarrow> nat \<Rightarrow> nat option \<Rightarrow> nat \<Rightarrow> bool option" where
  "glob_loop p n pi ni st resume =
     (if ni < length n then
        if pi < length p \<and> p ! pi = star then glob_loop p n (pi + 1) ni (Some pi) ni
        else if pi < length p \<and> p ! pi = n ! ni then glob_loop p n (pi + 1) (ni + 1) st resume
        else case st of
          Some s \<Rightarrow> glob_loop p n (s + 1) (resume + 1) st (resume + 1)
        | None \<Rightarrow> Some False
      else Some (list_all (\<lambda>c. c = star) (drop pi p)))"

definition glob_match :: "string \<Rightarrow> string \<Rightarrow> bool" where
  "glob_match pattern name = (glob_loop pattern name 0 0 None 0 = Some True)"

text \<open>What a pattern means: a star stands for any run of characters, all else for itself.\<close>

fun glob_spec :: "string \<Rightarrow> string \<Rightarrow> bool" where
  "glob_spec [] n = (n = [])"
| "glob_spec (c # p) n =
     (if c = star then list_ex (\<lambda>k. glob_spec p (drop k n)) [0..<Suc (length n)]
      else n \<noteq> [] \<and> hd n = c \<and> glob_spec p (tl n))"

lemma glob_spec_star: "glob_spec (star # p) n \<longleftrightarrow> (\<exists>k \<le> length n. glob_spec p (drop k n))"
  by (simp add: list_ex_iff less_Suc_eq_le Bex_def del: upt_Suc)

declare glob_spec.simps(2) [simp del]

lemma glob_spec_lit: "c \<noteq> star \<Longrightarrow> glob_spec (c # p) n \<longleftrightarrow> n \<noteq> [] \<and> hd n = c \<and> glob_spec p (tl n)"
  by (simp add: glob_spec.simps)

lemma glob_spec_Nil: "glob_spec p [] \<longleftrightarrow> list_all (\<lambda>c. c = star) p"
proof (induction p)
  case (Cons c p)
  then show ?case by (cases "c = star") (simp_all add: glob_spec_star glob_spec_lit)
qed simp

text \<open>A stretch of pattern without stars takes exactly its own length.\<close>

lemma glob_spec_literal:
  "star \<notin> set lit \<Longrightarrow> glob_spec (lit @ p) n \<Longrightarrow> length lit \<le> length n \<and> glob_spec p (drop (length lit) n)"
proof (induction lit arbitrary: n)
  case (Cons c lit)
  then have c: "c \<noteq> star" and "n \<noteq> []" "glob_spec (lit @ p) (tl n)"
    by (auto simp: glob_spec_lit)
  with Cons.IH [of "tl n"] Cons.prems show ?case
    by (cases n) auto
qed simp

lemma glob_spec_star_drop: "glob_spec (star # p) (drop j n) \<Longrightarrow> i \<le> j \<Longrightarrow> j \<le> length n \<Longrightarrow> glob_spec (star # p) (drop i n)"
proof -
  assume "glob_spec (star # p) (drop j n)" and le: "i \<le> j" "j \<le> length n"
  then obtain k where "k \<le> length n - j" "glob_spec p (drop (k + j) n)"
    by (auto simp: glob_spec_star)
  with le have "k + (j - i) \<le> length (drop i n)" "glob_spec p (drop (k + (j - i)) (drop i n))"
    by simp_all
  then show ?thesis by (auto simp: glob_spec_star)
qed

text \<open>
  What the loop keeps: since the last star, pattern and name advanced together through
  characters that are no stars.
\<close>

definition glob_inv :: "string \<Rightarrow> string \<Rightarrow> nat \<Rightarrow> nat \<Rightarrow> nat option \<Rightarrow> nat \<Rightarrow> bool" where
  "glob_inv p n pi ni st resume \<longleftrightarrow> pi \<le> length p \<and> ni \<le> length n
     \<and> (case st of None \<Rightarrow> True
        | Some s \<Rightarrow> s < pi \<and> resume \<le> ni \<and> pi - Suc s = ni - resume
            \<and> star \<notin> set (take (pi - Suc s) (drop (Suc s) p)))"

text \<open>What is left to decide: the rest as it stands, or a longer run for the last star.\<close>

definition glob_rest :: "string \<Rightarrow> string \<Rightarrow> nat \<Rightarrow> nat \<Rightarrow> nat option \<Rightarrow> nat \<Rightarrow> bool" where
  "glob_rest p n pi ni st resume \<longleftrightarrow> glob_spec (drop pi p) (drop ni n)
     \<or> (case st of None \<Rightarrow> False
        | Some s \<Rightarrow> \<exists>k. resume < k \<and> k \<le> length n \<and> glob_spec (drop (Suc s) p) (drop k n))"

lemma glob_alternative:
  assumes "glob_inv p n pi ni (Some s) resume" and "glob_spec (drop (Suc s) p) (drop k n)"
    and "resume < k" and "k \<le> length n"
  shows "k + (ni - resume) \<le> length n \<and> glob_spec (drop pi p) (drop (k + (ni - resume)) n)"
proof -
  let ?lit = "take (pi - Suc s) (drop (Suc s) p)"
  from assms(1) have inv: "s < pi" "pi \<le> length p" "pi - Suc s = ni - resume" "star \<notin> set ?lit"
    by (auto simp: glob_inv_def)
  have "drop (pi - Suc s) (drop (Suc s) p) = drop pi p" using inv(1) by simp
  then have "drop (Suc s) p = ?lit @ drop pi p" by (metis append_take_drop_id)
  with assms(2) glob_spec_literal [OF inv(4), of "drop pi p" "drop k n"]
  have "length ?lit \<le> length n - k" "glob_spec (drop pi p) (drop (length ?lit) (drop k n))"
    by simp_all
  moreover have "length ?lit = ni - resume" using inv by simp
  ultimately show ?thesis using assms(4) by (simp add: add.commute)
qed

text \<open>The four ways a turn of the loop can go, and its end.\<close>

lemma glob_step_star:
  assumes "glob_inv p n pi ni st resume" and "ni < length n" "pi < length p" "p ! pi = star"
  shows "glob_inv p n (pi + 1) ni (Some pi) ni
    \<and> glob_rest p n pi ni st resume = glob_rest p n (pi + 1) ni (Some pi) ni"
proof
  show "glob_inv p n (pi + 1) ni (Some pi) ni" using assms by (simp add: glob_inv_def)
  have cons: "drop pi p = star # drop (Suc pi) p"
    using assms(3,4) by (metis Cons_nth_drop_Suc)
  have old: "glob_spec (drop pi p) (drop ni n)"
    if "st = Some s" "resume < k" "k \<le> length n" "glob_spec (drop (Suc s) p) (drop k n)" for s k
  proof -
    from assms(1) that(1) have inv: "glob_inv p n pi ni (Some s) resume" by simp
    have "k + (ni - resume) \<le> length n \<and> glob_spec (drop pi p) (drop (k + (ni - resume)) n)"
      using glob_alternative [OF inv that(4,2,3)] .
    moreover have "ni \<le> k + (ni - resume)" using that(2) by simp
    ultimately show ?thesis unfolding cons by (blast intro: glob_spec_star_drop)
  qed
  have "glob_rest p n pi ni st resume \<longleftrightarrow> glob_spec (drop pi p) (drop ni n)"
    using old by (auto simp: glob_rest_def split: option.splits)
  also have "\<dots> \<longleftrightarrow> (\<exists>k. ni \<le> k \<and> k \<le> length n \<and> glob_spec (drop (Suc pi) p) (drop k n))"
  proof
    assume "glob_spec (drop pi p) (drop ni n)"
    then obtain k where "k \<le> length n - ni" "glob_spec (drop (Suc pi) p) (drop (k + ni) n)"
      by (auto simp: cons glob_spec_star)
    with assms(2) show "\<exists>k. ni \<le> k \<and> k \<le> length n \<and> glob_spec (drop (Suc pi) p) (drop k n)"
      by (intro exI [of _ "k + ni"]) simp
  next
    assume "\<exists>k. ni \<le> k \<and> k \<le> length n \<and> glob_spec (drop (Suc pi) p) (drop k n)"
    then obtain k where "ni \<le> k" "k \<le> length n" "glob_spec (drop (Suc pi) p) (drop k n)" by blast
    then have "k - ni \<le> length (drop ni n) \<and> glob_spec (drop (Suc pi) p) (drop (k - ni) (drop ni n))"
      by simp
    then show "glob_spec (drop pi p) (drop ni n)" unfolding cons glob_spec_star by blast
  qed
  also have "\<dots> \<longleftrightarrow> glob_rest p n (pi + 1) ni (Some pi) ni"
    using assms(2) by (auto simp: glob_rest_def le_less)
  finally show "glob_rest p n pi ni st resume = glob_rest p n (pi + 1) ni (Some pi) ni" .
qed

lemma glob_step_literal:
  assumes "glob_inv p n pi ni st resume" and "ni < length n" "pi < length p" "p ! pi \<noteq> star" "p ! pi = n ! ni"
  shows "glob_inv p n (pi + 1) (ni + 1) st resume
    \<and> glob_rest p n pi ni st resume = glob_rest p n (pi + 1) (ni + 1) st resume"
proof
  show "glob_inv p n (pi + 1) (ni + 1) st resume"
  proof (cases st)
    case None
    with assms show ?thesis by (simp add: glob_inv_def)
  next
    case (Some s)
    with assms(1) have inv: "s < pi" "pi - Suc s = ni - resume" "resume \<le> ni"
        "star \<notin> set (take (pi - Suc s) (drop (Suc s) p))" by (auto simp: glob_inv_def)
    then have "Suc pi - Suc s = Suc (pi - Suc s)" by simp
    moreover have "take (Suc (pi - Suc s)) (drop (Suc s) p)
        = take (pi - Suc s) (drop (Suc s) p) @ [p ! pi]"
      using inv(1) assms(3) by (simp add: take_Suc_conv_app_nth)
    ultimately show ?thesis
      using inv assms(2-4) Some by (simp add: glob_inv_def)
  qed
  have "drop pi p = p ! pi # drop (Suc pi) p" "drop ni n = n ! ni # drop (Suc ni) n"
    using assms(2,3) by (simp_all add: Cons_nth_drop_Suc)
  with assms(4,5) show "glob_rest p n pi ni st resume = glob_rest p n (pi + 1) (ni + 1) st resume"
    by (simp add: glob_rest_def glob_spec_lit)
qed

lemma glob_mismatch:
  assumes "ni < length n" and "\<not> (pi < length p \<and> (p ! pi = star \<or> p ! pi = n ! ni))"
  shows "\<not> glob_spec (drop pi p) (drop ni n)"
proof (cases "pi < length p")
  case True
  then have "drop pi p = p ! pi # drop (Suc pi) p" by (simp add: Cons_nth_drop_Suc)
  with assms True show ?thesis by (auto simp: glob_spec_lit hd_drop_conv_nth)
next
  case False
  with assms(1) show ?thesis by simp
qed

lemma glob_step_back:
  assumes "glob_inv p n pi ni (Some s) resume" and "ni < length n"
    and "\<not> (pi < length p \<and> (p ! pi = star \<or> p ! pi = n ! ni))"
  shows "glob_inv p n (s + 1) (resume + 1) (Some s) (resume + 1)
    \<and> glob_rest p n pi ni (Some s) resume = glob_rest p n (s + 1) (resume + 1) (Some s) (resume + 1)"
proof
  from assms(1) have inv: "s < pi" "pi \<le> length p" "resume \<le> ni" by (auto simp: glob_inv_def)
  then show "glob_inv p n (s + 1) (resume + 1) (Some s) (resume + 1)"
    using assms(2) by (simp add: glob_inv_def)
  have "resume < length n" using inv assms(2) by simp
  then show "glob_rest p n pi ni (Some s) resume
      = glob_rest p n (s + 1) (resume + 1) (Some s) (resume + 1)"
    using glob_mismatch [OF assms(2,3)]
    by (auto simp: glob_rest_def Suc_le_eq) (metis Suc_lessI, metis Suc_lessD)
qed

lemma glob_end:
  assumes "glob_inv p n pi ni st resume" and "\<not> ni < length n"
  shows "glob_rest p n pi ni st resume = list_all (\<lambda>c. c = star) (drop pi p)"
proof -
  from assms have ni: "ni = length n" by (simp add: glob_inv_def)
  have "\<not> glob_spec (drop (Suc s) p) (drop k n)"
    if "st = Some s" "resume < k" "k \<le> length n" for s k
  proof
    assume "glob_spec (drop (Suc s) p) (drop k n)"
    with glob_alternative [of p n pi ni s resume k] assms(1) that ni
    have "k + (length n - resume) \<le> length n" by simp
    with that assms(1) ni show False by (simp add: glob_inv_def)
  qed
  then show ?thesis
    using ni by (auto simp: glob_rest_def glob_spec_Nil split: option.splits)
qed

lemma glob_loop_total:
  "glob_inv p n pi ni st resume \<Longrightarrow> glob_loop p n pi ni st resume = Some (glob_rest p n pi ni st resume)"
proof (induction "(pi, ni, st, resume)" arbitrary: pi ni st resume
    rule: wf_induct_rule [OF wf_measures [of "[\<lambda>(pi, ni, st, resume). length p - (case st of None \<Rightarrow> 0 | Some s \<Rightarrow> Suc s),
      \<lambda>(pi, ni, st, resume). length n - resume, \<lambda>(pi, ni, st, resume). length n - ni]"]])
  case (1 pi ni st resume)
  note inv = "1.prems"
  show ?case
  proof (cases "ni < length n")
    case False
    with glob_end [OF inv] show ?thesis by (simp add: glob_loop.simps [of p n pi ni])
  next
    case ni: True
    consider (star) "pi < length p" "p ! pi = star"
      | (lit) "pi < length p" "p ! pi \<noteq> star" "p ! pi = n ! ni"
      | (again) s where "\<not> (pi < length p \<and> (p ! pi = star \<or> p ! pi = n ! ni))" "st = Some s"
      | (fail) "\<not> (pi < length p \<and> (p ! pi = star \<or> p ! pi = n ! ni))" "st = None"
      by (cases st) blast+
    then show ?thesis
    proof cases
      case star
      have "((pi + 1, ni, Some pi, ni), (pi, ni, st, resume)) \<in> measures
        [\<lambda>(pi, ni, st, resume). length p - (case st of None \<Rightarrow> 0 | Some s \<Rightarrow> Suc s),
          \<lambda>(pi, ni, st, resume). length n - resume, \<lambda>(pi, ni, st, resume). length n - ni]"
        using star inv by (auto simp: glob_inv_def split: option.splits)
      from "1.hyps" [OF this] glob_step_star [OF inv ni star] star ni show ?thesis
        by (simp add: glob_loop.simps [of p n pi ni])
    next
      case lit
      have "((pi + 1, ni + 1, st, resume), (pi, ni, st, resume)) \<in> measures
        [\<lambda>(pi, ni, st, resume). length p - (case st of None \<Rightarrow> 0 | Some s \<Rightarrow> Suc s),
          \<lambda>(pi, ni, st, resume). length n - resume, \<lambda>(pi, ni, st, resume). length n - ni]"
        using ni by auto
      from "1.hyps" [OF this] glob_step_literal [OF inv ni lit] lit ni show ?thesis
        by (simp add: glob_loop.simps [of p n pi ni])
    next
      case again
      from again(2) inv have inv': "glob_inv p n pi ni (Some s) resume" by simp
      have "((s + 1, resume + 1, st, resume + 1), (pi, ni, st, resume)) \<in> measures
        [\<lambda>(pi, ni, st, resume). length p - (case st of None \<Rightarrow> 0 | Some s \<Rightarrow> Suc s),
          \<lambda>(pi, ni, st, resume). length n - resume, \<lambda>(pi, ni, st, resume). length n - ni]"
        using inv' ni by (auto simp: glob_inv_def)
      from "1.hyps" [OF this] glob_step_back [OF inv' ni again(1)] again ni show ?thesis
        by (auto simp: glob_loop.simps [of p n pi ni])
    next
      case fail
      with glob_mismatch [OF ni fail(1)] ni show ?thesis
        by (auto simp: glob_loop.simps [of p n pi ni] glob_rest_def)
    qed
  qed
qed

text \<open>
  C27. The matcher ends on every pattern and every name, and answers what the pattern means: a
  star takes any run of characters and every other character itself, although the loop keeps
  only one point to come back to.
\<close>

theorem glob_loop_spec: "glob_loop pattern name 0 0 None 0 = Some (glob_spec pattern name)"
  using glob_loop_total [of pattern name 0 0 None 0] by (simp add: glob_inv_def glob_rest_def)

lemma glob_match_spec: "glob_match pattern name = glob_spec pattern name"
  using glob_loop_total [of pattern name 0 0 None 0]
  by (simp add: glob_match_def glob_inv_def glob_rest_def)

section \<open>The policy\<close>

type_synonym dtype_policy = "(string \<times> dtype) list"

definition policy_uniform :: "dtype \<Rightarrow> dtype_policy" where
  "policy_uniform d = (if d = DTypeNone then [] else [([star], d)])"

definition policy_parse :: "string \<Rightarrow> dtype_policy result" where
  "policy_parse s = bind_res (parse_dtype s) (\<lambda>d. Inr (policy_uniform d))"

definition policy_from_rules :: "(string \<times> string) list \<Rightarrow> dtype_policy result" where
  "policy_from_rules rules = map_res (\<lambda>(pattern, d).
     if pattern = [] then Inl (ConfigErr ''save_dtype has an empty pattern'')
     else bind_res (parse_dtype d) (\<lambda>t. Inr (pattern, t))) rules"

fun for_tensor :: "dtype_policy \<Rightarrow> string \<Rightarrow> dtype" where
  "for_tensor [] name = DTypeNone"
| "for_tensor ((pattern, d) # rules) name =
     (if glob_match pattern name then d else for_tensor rules name)"

definition casts_anything :: "dtype_policy \<Rightarrow> bool" where
  "casts_anything rules = list_ex (\<lambda>(_, d). d \<noteq> DTypeNone) rules"

definition dead_patterns :: "dtype_policy \<Rightarrow> string list \<Rightarrow> string list" where
  "dead_patterns rules names =
     filter (\<lambda>pattern. \<not> list_ex (glob_match pattern) names) (map fst rules)"

lemma for_tensor_uniform: "for_tensor (policy_uniform d) name = d"
proof -
  have "glob_spec [star] name" by (auto simp: glob_spec_star intro: exI [of _ "length name"])
  then show ?thesis by (simp add: policy_uniform_def glob_match_spec)
qed

lemma for_tensor_no_cast: "\<not> casts_anything rules \<Longrightarrow> for_tensor rules name = DTypeNone"
  by (induction rules) (auto simp: casts_anything_def split: if_splits)

text \<open>
  The first rule that matches decides, and a rule reported as dead decides nothing: the target
  of a tensor is unchanged by dropping the patterns that match none of the names.
\<close>

theorem dead_patterns_unused:
  assumes "name \<in> set names"
  shows "for_tensor (filter (\<lambda>(pattern, _). pattern \<notin> set (dead_patterns rules names)) rules) name
    = for_tensor rules name"
proof -
  have "pattern \<notin> set (dead_patterns rules names)" if "glob_match pattern name" for pattern
    using assms that by (auto simp: dead_patterns_def list_ex_iff)
  then have "for_tensor (filter (\<lambda>(pattern, _). pattern \<notin> set (dead_patterns rules names)) rs) name
      = for_tensor rs name" for rs
    by (induction rs) (auto split: if_splits)
  then show ?thesis .
qed

theorem dead_patterns_unused_witness:
  "for_tensor (filter (\<lambda>(pattern, _). pattern \<notin> set (dead_patterns [(''model'', BFloat16), (''*'', Float16)] [''model/w'']))
     [(''model'', BFloat16), (''*'', Float16)]) ''model/w'' = Float16"
proof -
  have g: "\<not> glob_match ''model'' ''model/w''" "glob_match ''*'' ''model/w''"
    by (simp_all add: glob_match_spec glob_spec_lit glob_spec_star [unfolded star_def] star_def exI [of _ 7])
  have "for_tensor [(''model'', BFloat16), (''*'', Float16)] ''model/w'' = Float16" using g by simp
  with dead_patterns_unused [of "''model/w''" "[''model/w'']" "[(''model'', BFloat16), (''*'', Float16)]"]
  show ?thesis by simp
qed

end
