(* ===== verification/CastBits.thy ===== *)
theory CastBits
  imports Fp
begin

text \<open>
  The bit manipulation of \<^verbatim>\<open>src/src/cast.rs\<close>: float32 patterns to and from bfloat16, float16 and
  the two float8 layouts, word by word as the code does it, and what each makes of a value.
\<close>

section \<open>bfloat16\<close>

definition fp32_bits_to_bf16_bits :: "32 word \<Rightarrow> 16 word" where
  "fp32_bits_to_bf16_bits bits =
     (if 0x7F800000 < and bits 0x7FFFFFFF then or (ucast (drop_bit 16 bits)) 0x0040
      else let rounding_bias = and (drop_bit 16 bits) 1 + 0x7FFF
        in ucast (drop_bit 16 (bits + rounding_bias)))"

definition bf16_bits_to_fp32_bits :: "16 word \<Rightarrow> 32 word" where
  "bf16_bits_to_fp32_bits w = push_bit 16 (ucast w)"

section \<open>float16\<close>

text \<open>\<open>mantissa >> n\<close> on the \<^verbatim>\<open>u32\<close> values below is \<open>drop_bit\<close>, the exponents are \<^verbatim>\<open>i32\<close>.\<close>

definition fp32_bits_to_fp16_bits :: "32 word \<Rightarrow> 16 word" where
  "fp32_bits_to_fp16_bits bits =
     (let sign = ucast (and (drop_bit 16 bits) 0x8000) :: 16 word;
          exp = uint (and (drop_bit 23 bits) 0xFF);
          mantissa = and bits 0x7FFFFF
      in if exp = 255 then (if mantissa \<noteq> 0 then or sign 0x7E00 else or sign 0x7C00)
         else let new_exp = exp - 127 + 15 in
           if 31 \<le> new_exp then or sign 0x7C00
           else if new_exp \<le> 0 then
             if new_exp < - 10 then sign
             else let m = drop_bit (nat (1 - new_exp)) (or mantissa 0x800000);
                      round = and (drop_bit 12 m) 1
               in or sign (ucast (drop_bit 13 m + round))
           else let round = and (drop_bit 12 mantissa) 1;
                    fp16 = or (or sign (push_bit 10 (word_of_int new_exp))) (ucast (drop_bit 13 mantissa))
             in fp16 + ucast round)"

text \<open>The loop that normalises a denormal, as a partial function: that it ends is proved below.\<close>

partial_function (option) fp16_normalise :: "int \<Rightarrow> 32 word \<Rightarrow> (int \<times> 32 word) option" where
  "fp16_normalise e m =
     (if and m 0x400 = 0 then fp16_normalise (e + 1) (push_bit 1 m) else Some (e, m))"

definition fp16_bits_to_fp32_bits :: "16 word \<Rightarrow> 32 word" where
  "fp16_bits_to_fp32_bits bits =
     (let sign = push_bit 16 (and (ucast bits) 0x8000) :: 32 word;
          exp = and (ucast (drop_bit 10 bits)) 0x1F :: 32 word;
          mantissa = and (ucast bits) 0x3FF :: 32 word
      in if exp = 0 then
           if mantissa = 0 then sign
           else (case the (fp16_normalise 0 mantissa) of (e, m) \<Rightarrow>
             let new_exp = word_of_int (127 - 15 - e) :: 32 word;
                 new_mantissa = push_bit 13 (and m 0x3FF)
             in or (or sign (push_bit 23 new_exp)) new_mantissa)
         else if exp = 31 then or (or sign 0x7F800000) (push_bit 13 mantissa)
         else let new_exp = exp + 127 - 15
           in or (or sign (push_bit 23 new_exp)) (push_bit 13 mantissa))"

section \<open>float8\<close>

record fp8_format =
  f8_name :: string
  f8_exp_bits :: nat
  f8_mant_bits :: nat
  f8_bias :: int
  f8_has_inf :: bool
  f8_max_finite :: "32 word"
  f8_subnormal_step :: "32 word"
  f8_nan_bits :: "8 word"
  f8_inf_bits :: "8 word"
  f8_max_finite_bits :: "8 word"
  f8_max_normal_exp :: int
  f8_max_normal_mant :: "32 word"

text \<open>448, 2^-9, 57344 and 2^-16 as float32 patterns.\<close>

definition e4m3fn :: fp8_format where
  "e4m3fn = \<lparr>f8_name = ''float8_e4m3fn'', f8_exp_bits = 4, f8_mant_bits = 3, f8_bias = 7,
     f8_has_inf = False, f8_max_finite = f32_of (FFin False 448),
     f8_subnormal_step = f32_of (FFin False (1 / 512)), f8_nan_bits = 0x7F, f8_inf_bits = 0x7F,
     f8_max_finite_bits = 0x7E, f8_max_normal_exp = 15, f8_max_normal_mant = 6\<rparr>"

definition e5m2 :: fp8_format where
  "e5m2 = \<lparr>f8_name = ''float8_e5m2'', f8_exp_bits = 5, f8_mant_bits = 2, f8_bias = 15,
     f8_has_inf = True, f8_max_finite = f32_of (FFin False 57344),
     f8_subnormal_step = f32_of (FFin False (1 / 65536)), f8_nan_bits = 0x7E, f8_inf_bits = 0x7C,
     f8_max_finite_bits = 0x7B, f8_max_normal_exp = 30, f8_max_normal_mant = 3\<rparr>"

definition shift_round_even :: "32 word \<Rightarrow> nat \<Rightarrow> 32 word" where
  "shift_round_even value n =
     (if n = 0 then value
      else if 31 < n then 0
      else let keep = drop_bit n value; rem = and value (push_bit n 1 - 1); half = push_bit (n - 1) 1
        in if half < rem \<or> (rem = half \<and> and keep 1 = 1) then keep + 1 else keep)"

definition fp32_bits_to_fp8_bits :: "32 word \<Rightarrow> fp8_format \<Rightarrow> 8 word" where
  "fp32_bits_to_fp8_bits bits fmt =
     (let sign = ucast (and (drop_bit 24 bits) 0x80) :: 8 word; abs = and bits 0x7FFFFFFF in
      if 0x7F800000 < abs then or sign (f8_nan_bits fmt)
      else if abs = 0x7F800000 then
        or sign (if f8_has_inf fmt then f8_inf_bits fmt else f8_nan_bits fmt)
      else if abs = 0 then sign
      else let exp = uint (drop_bit 23 abs) - 127;
               mant = and abs 0x007FFFFF;
               new_exp = exp + f8_bias fmt;
               dropped = 23 - f8_mant_bits fmt;
               significand = or 0x00800000 mant
        in if 1 \<le> new_exp then
             let rounded = shift_round_even significand dropped;
                 (e, m) = (if drop_bit (f8_mant_bits fmt + 1) rounded \<noteq> 0 then (new_exp + 1, 0)
                   else (new_exp, and rounded (push_bit (f8_mant_bits fmt) 1 - 1)))
             in if f8_max_normal_exp fmt < e \<or> (e = f8_max_normal_exp fmt \<and> f8_max_normal_mant fmt < m)
                then or sign (f8_max_finite_bits fmt)
                else or (or sign (push_bit (f8_mant_bits fmt) (word_of_int e))) (ucast m)
           else
             let m = shift_round_even significand (dropped + nat (1 - new_exp))
             in or sign (ucast m))"

text \<open>One entry of \<^verbatim>\<open>fp8_decode_table\<close>: the value of a pattern, times the scale.\<close>

definition fp8_magnitude :: "fp8_format \<Rightarrow> nat \<Rightarrow> fval" where
  "fp8_magnitude fmt b =
     (let max_e = 2 ^ f8_exp_bits fmt - 1;
          e = b div 2 ^ f8_mant_bits fmt mod 2 ^ f8_exp_bits fmt;
          m = b mod 2 ^ f8_mant_bits fmt
      in if e = max_e \<and> f8_has_inf fmt then if m = 0 then FInf False else FNaN
         else if e = max_e \<and> \<not> f8_has_inf fmt \<and> m = 2 ^ f8_mant_bits fmt - 1 then FNaN
         else if e = 0 then f32_val (f32_mul (f32_of (FFin False (of_nat m))) (f8_subnormal_step fmt))
         else FFin False ((1 + of_nat m / 2 ^ f8_mant_bits fmt) * pow2 (int e - f8_bias fmt)))"

section \<open>bfloat16 rounds to nearest even\<close>

definition bf16_is_nan :: "16 word \<Rightarrow> bool" where
  "bf16_is_nan w \<longleftrightarrow> 0x7F80 < and w 0x7FFF"

lemma uint_ucast_16: "uint (ucast (w :: 32 word) :: 16 word) = uint w mod 2 ^ 16"
  by (simp add: unsigned_ucast_eq take_bit_eq_mod)

lemma uint_drop_bit: "uint (drop_bit n w) = uint (w :: 'a::len word) div 2 ^ n"
proof -
  have "uint (drop_bit n w) = drop_bit n (uint w)"
    by (rule bit_eqI) (simp add: bit_unsigned_iff bit_drop_bit_eq)
  then show ?thesis by (simp only: drop_bit_eq_div)
qed

lemma uint_and_mask: "uint (and w (mask n)) = uint (w :: 'a::len word) mod 2 ^ n"
  by (subst take_bit_eq_mask [symmetric], subst unsigned_take_bit_eq) (simp add: take_bit_eq_mod)

lemma mask_numerals:
  "(0x7FFFFFFF :: 32 word) = mask 31" "(0x7FFF :: 16 word) = mask 15" "(0x7FFFFF :: 32 word) = mask 23"
  "(0xFF :: 32 word) = mask 8" "(1 :: 32 word) = mask 1" "(0x3FF :: 32 word) = mask 10"
  "(0x1F :: 32 word) = mask 5"
  by (simp_all add: mask_eq_exp_minus_1)

text \<open>Halves round to even: the carry the code adds is the rounding of the quotient.\<close>

lemma round_even_quot:
  assumes "0 < h"
  shows "round_even (of_int u / of_int (2 * h))
    = u div (2 * h) + (if h < u mod (2 * h) \<or> (u mod (2 * h) = h \<and> odd (u div (2 * h))) then 1 else 0)"
proof -
  obtain q r where qd: "q = u div (2 * h)" and rd: "r = u mod (2 * h)" by simp
  have u: "u = q * (2 * h) + r" by (simp only: qd rd div_mult_mod_eq)
  have r: "0 \<le> r" "r < 2 * h" using assms by (simp_all add: rd)
  have hr: "(0 :: rat) < of_int h" using assms by simp
  have rr: "(of_int r :: rat) < 2 * of_int h"
    using r(2) by (metis of_int_less_iff of_int_mult of_int_numeral)
  define x d :: rat where "x = of_int u / of_int (2 * h)" and "d = of_int r / of_int (2 * h)"
  have x: "x = of_int q + d" using assms by (simp add: x_def d_def u add_divide_distrib)
  have "0 \<le> d" "d < 1" using r hr rr by (simp_all add: d_def divide_less_eq)
  then have fl: "\<lfloor>x\<rfloor> = q" unfolding x by (simp add: floor_unique)
  have "1 / 2 < d \<longleftrightarrow> h < r" "d = 1 / 2 \<longleftrightarrow> r = h"
    using hr by (auto simp: d_def field_simps)
  then have "round_even x = q + (if h < r \<or> (r = h \<and> odd q) then 1 else 0)"
    by (simp add: round_even_def Let_def fl) (simp add: x)
  then show ?thesis unfolding x_def [symmetric] qd [symmetric] rd [symmetric] .
qed

lemma round_even_carry:
  assumes "0 < h"
  shows "round_even (of_int u / of_int (2 * h)) = (u + h - 1 + u div (2 * h) mod 2) div (2 * h)"
proof -
  obtain q r where qd: "q = u div (2 * h)" and rd: "r = u mod (2 * h)" by simp
  have u: "u = q * (2 * h) + r" by (simp only: qd rd div_mult_mod_eq)
  have r: "0 \<le> r" "r < 2 * h" using assms by (simp_all add: rd)
  let ?c = "(r + h - 1 + q mod 2) div (2 * h)"
  have "u + h - 1 + q mod 2 = (r + h - 1 + q mod 2) + q * (2 * h)" using u by simp
  then have rhs: "(u + h - 1 + q mod 2) div (2 * h) = q + ?c"
    using assms by (simp only: div_mult_self1 zero_less_mult_iff)
  have "q mod 2 = 0 \<or> q mod 2 = 1" by auto
  moreover have "?c = 1" if "2 * h \<le> r + h - 1 + q mod 2"
    using that r assms by (intro int_div_pos_eq [of _ _ _ "r + h - 1 + q mod 2 - 2 * h"]) (auto intro: pos_mod_bound)
  moreover have "?c = 0" if "r + h - 1 + q mod 2 < 2 * h"
    using that r assms by (intro div_pos_pos_trivial) (auto simp: add_nonneg_nonneg)
  ultimately have "?c = (if h < r \<or> (r = h \<and> odd q) then 1 else 0)"
    by (auto simp: odd_iff_mod_2_eq_one even_iff_mod_2_eq_zero)
  then show ?thesis
    unfolding round_even_quot [OF assms] qd [symmetric] rd [symmetric] rhs by simp
qed

lemma f32_abs_uint: "uint (f32_abs w) = uint w mod 2 ^ 31"
  unfolding f32_abs_def mask_numerals uint_and_mask ..

lemma f32_is_nan_uint: "f32_is_nan w \<longleftrightarrow> 0x7F800000 < uint w mod 2 ^ 31"
  by (simp add: f32_is_nan_def word_less_def f32_abs_uint)

lemma bf16_is_nan_uint: "bf16_is_nan w \<longleftrightarrow> 0x7F80 < uint w mod 2 ^ 15"
  unfolding bf16_is_nan_def word_less_def mask_numerals uint_and_mask by simp

lemma uint_low_bit: "uint (and w 1 :: 32 word) = uint w mod 2"
  unfolding mask_numerals(5) uint_and_mask by simp

lemma bf16_value:
  assumes "\<not> f32_is_nan bits"
  shows "uint (fp32_bits_to_bf16_bits bits) = round_even (of_int (uint bits) / 65536)"
proof -
  let ?u = "uint bits"
  have u: "0 \<le> ?u" "?u < 2 ^ 32" by (simp_all add: uint_lt2p [where 'a = 32, simplified])
  obtain q r where q: "q = ?u div 2 ^ 31" and r: "r = ?u mod 2 ^ 31" by simp
  have split: "?u = q * 2 ^ 31 + r" by (simp only: q r div_mult_mod_eq)
  have "q < 2" using u(2) by (simp add: q div_less_iff_less_mult)
  moreover have "r \<le> 0x7F800000" using assms by (simp add: r f32_is_nan_uint)
  ultimately have le: "?u \<le> 0xFF800000" using split by simp
  let ?b = "and (drop_bit 16 bits) 1 + 0x7FFF :: 32 word"
  have low: "uint (and (drop_bit 16 bits) 1) = ?u div 65536 mod 2"
    unfolding uint_low_bit uint_drop_bit by simp
  have "?u div 65536 mod 2 < 2" by (rule pos_mod_bound) simp
  then have small: "?u div 65536 mod 2 < 4294934529" by linarith
  have bias: "uint ?b = ?u div 65536 mod 2 + 0x7FFF"
    using uint_add_lem [of "and (drop_bit 16 bits) 1" "0x7FFF :: 32 word"] low small by simp
  have "?u + uint ?b < 2 ^ 32" using le bias \<open>?u div 65536 mod 2 < 2\<close> by simp
  then have sum: "uint (bits + ?b) = ?u + (?u div 65536 mod 2 + 0x7FFF)"
    using uint_add_lem [of bits ?b] bias by simp
  then have "uint (fp32_bits_to_bf16_bits bits) = (?u + (?u div 65536 mod 2 + 0x7FFF)) div 65536 mod 65536"
    using assms
    by (simp add: fp32_bits_to_bf16_bits_def f32_is_nan_def f32_abs_def uint_ucast_16 uint_drop_bit)
  also have "\<dots> = (?u + (?u div 65536 mod 2 + 0x7FFF)) div 65536"
    using le u by (intro mod_pos_pos_trivial) (simp_all add: div_less_iff_less_mult pos_imp_zdiv_nonneg_iff)
  finally show ?thesis
    using round_even_carry [of 32768 ?u] by (simp add: algebra_simps)
qed

lemma bf16_nan:
  assumes "f32_is_nan bits"
  shows "bf16_is_nan (fp32_bits_to_bf16_bits bits)"
proof -
  let ?h = "ucast (drop_bit 16 bits) :: 16 word"
  have conv: "fp32_bits_to_bf16_bits bits = or ?h 0x40"
    using assms by (simp add: fp32_bits_to_bf16_bits_def f32_is_nan_def f32_abs_def)
  have "uint bits mod 2 ^ 31 div 2 ^ 16 = uint bits div 2 ^ 16 mod 2 ^ 15"
    using drop_bit_take_bit [of 16 31 "uint bits"] by (simp add: take_bit_eq_mod drop_bit_eq_div)
  moreover have "0x7F80 \<le> uint bits mod 2 ^ 31 div 2 ^ 16"
    using assms by (simp add: f32_is_nan_uint)
  moreover have "uint bits div 2 ^ 16 mod 2 ^ 15 = uint ?h mod 2 ^ 15"
    by (simp add: uint_ucast_16 uint_drop_bit mod_mod_cancel)
  ultimately have h: "0x7F80 \<le> uint (and ?h 0x7FFF)"
    unfolding mask_numerals uint_and_mask by simp
  have eq: "and (or ?h 0x40) 0x7FFF = or (and ?h 0x7FFF) 0x40"
    by (simp add: bit.conj_disj_distrib2)
  have "uint (and ?h 0x7FFF) \<le> uint (or (and ?h 0x7FFF) 0x40)"
    by (simp add: unsigned_or_eq or_greater_eq)
  with h have ge: "0x7F80 \<le> uint (or (and ?h 0x7FFF) 0x40)" by linarith
  have "bit (or (and ?h 0x7FFF) 0x40) 6" "\<not> bit (0x7F80 :: 16 word) 6"
    by (simp_all add: bit_or_iff)
  then have "or (and ?h 0x7FFF) 0x40 \<noteq> 0x7F80" by metis
  then have "uint (or (and ?h 0x7FFF) 0x40) \<noteq> 0x7F80" by (metis word_of_int_numeral word_of_int_uint)
  with ge have "0x7F80 < uint (or (and ?h 0x7FFF) 0x40)" by linarith
  then show ?thesis unfolding bf16_is_nan_def word_less_def conv eq by simp
qed

text \<open>
  The cast to bfloat16 is the correctly rounded one, ties to even, for every float32 that is
  a number, infinities and overflow included; and a NaN stays a NaN with its sign, whatever its
  payload: no diverged run is saved as an infinity.
\<close>

theorem bf16_rounds:
  "if f32_is_nan bits
   then bf16_is_nan (fp32_bits_to_bf16_bits bits) \<and> bit (fp32_bits_to_bf16_bits bits) 15 = bit bits 31
   else uint (fp32_bits_to_bf16_bits bits) = round_even (of_int (uint bits) / 65536)"
proof (cases "f32_is_nan bits")
  case True
  then have "fp32_bits_to_bf16_bits bits = or (ucast (drop_bit 16 bits)) 0x40"
    by (simp add: fp32_bits_to_bf16_bits_def f32_is_nan_def f32_abs_def)
  then have "bit (fp32_bits_to_bf16_bits bits) 15 = bit bits 31"
    by (simp add: bit_or_iff bit_ucast_iff bit_drop_bit_eq)
  with True bf16_nan show ?thesis by simp
qed (simp add: bf16_value)

text \<open>A number never becomes a NaN either.\<close>

lemma bf16_nan_iff: "bf16_is_nan (fp32_bits_to_bf16_bits bits) \<longleftrightarrow> f32_is_nan bits"
proof
  show "bf16_is_nan (fp32_bits_to_bf16_bits bits)" if "f32_is_nan bits" using that by (rule bf16_nan)
next
  assume nan: "bf16_is_nan (fp32_bits_to_bf16_bits bits)"
  show "f32_is_nan bits"
  proof (rule ccontr)
    assume n: "\<not> f32_is_nan bits"
    obtain q r where q: "q = uint bits div 2 ^ 31" and r: "r = uint bits mod 2 ^ 31" by simp
    have u: "uint bits = q * 2 ^ 31 + r" by (simp only: q r div_mult_mod_eq)
    have rb: "0 \<le> r" "r \<le> 0x7F800000" using n by (simp_all add: r f32_is_nan_uint)
    have "(of_int (q * 2 ^ 15) :: rat) \<le> of_int (uint bits) / 65536"
      using rb(1) unfolding u by (simp add: pos_le_divide_eq)
    moreover have "(of_int (uint bits) / 65536 :: rat) \<le> of_int (q * 2 ^ 15 + 0x7F80)"
    proof -
      have "(of_int r :: rat) \<le> of_int 0x7F800000" using rb(2) by (simp only: of_int_le_iff)
      then show ?thesis unfolding u by (simp add: pos_divide_le_eq)
    qed
    ultimately have "q * 2 ^ 15 \<le> uint (fp32_bits_to_bf16_bits bits)"
        "uint (fp32_bits_to_bf16_bits bits) \<le> q * 2 ^ 15 + 0x7F80"
      unfolding bf16_value [OF n] using round_even_mono round_even_int by metis+
    then have "uint (fp32_bits_to_bf16_bits bits) mod 2 ^ 15 = uint (fp32_bits_to_bf16_bits bits) - q * 2 ^ 15"
      by (intro int_mod_pos_eq [of _ _ q]) simp_all
    with nan \<open>uint (fp32_bits_to_bf16_bits bits) \<le> q * 2 ^ 15 + 0x7F80\<close> show False
      unfolding bf16_is_nan_uint by simp
  qed
qed

lemma bf16_quiet: "f32_is_nan bits \<Longrightarrow> or (fp32_bits_to_bf16_bits bits) 0x40 = fp32_bits_to_bf16_bits bits"
  by (simp add: fp32_bits_to_bf16_bits_def f32_is_nan_def f32_abs_def or.assoc)

lemma bf16_widen_uint: "uint (bf16_bits_to_fp32_bits w) = uint w * 65536"
proof -
  have "0 \<le> uint w" "uint w < 65536" using uint_lt2p [of w] by simp_all
  then show ?thesis
    unfolding bf16_bits_to_fp32_bits_def
    by (subst unsigned_push_bit_eq)
      (simp add: unsigned_ucast_eq take_bit_eq_mod push_bit_eq_mult)
qed

lemma bf16_widen_nan: "f32_is_nan (bf16_bits_to_fp32_bits w) \<longleftrightarrow> bf16_is_nan w"
proof -
  have "uint w * 65536 mod 2 ^ 31 = uint w mod 2 ^ 15 * 65536"
    using mult_mod_left [of "uint w" "2 ^ 15" 65536] by simp
  then show ?thesis unfolding f32_is_nan_uint bf16_is_nan_uint bf16_widen_uint by simp
qed

lemma bf16_narrow_widen:
  "fp32_bits_to_bf16_bits (bf16_bits_to_fp32_bits w) = (if bf16_is_nan w then or w 0x40 else w)"
proof (cases "bf16_is_nan w")
  case True
  have "ucast (drop_bit 16 (bf16_bits_to_fp32_bits w)) = w"
    by (rule bit_word_eqI) (auto simp: bf16_bits_to_fp32_bits_def bit_ucast_iff bit_drop_bit_eq bit_push_bit_iff)
  with True bf16_widen_nan show ?thesis
    by (simp add: fp32_bits_to_bf16_bits_def f32_is_nan_def f32_abs_def)
next
  case False
  with bf16_widen_nan have "uint (fp32_bits_to_bf16_bits (bf16_bits_to_fp32_bits w))
      = round_even (of_int (uint w * 65536) / 65536)" by (simp add: bf16_value flip: bf16_widen_uint)
  also have "(of_int (uint w * 65536) / 65536 :: rat) = of_int (uint w)" by simp
  finally show ?thesis using False by (simp only: round_even_int if_False word_uint_eq_iff)
qed

section \<open>Fields put together\<close>

lemma bit_single:
  "bit (0x80000000 :: int) k \<longleftrightarrow> k = 31" "bit (0x8000 :: int) k \<longleftrightarrow> k = 15"
  "bit (0x400 :: int) k \<longleftrightarrow> k = 10" "bit (0x80 :: int) k \<longleftrightarrow> k = 7"
proof -
  have "(0x80000000 :: int) = push_bit 31 1" "(0x8000 :: int) = push_bit 15 1"
    "(0x400 :: int) = push_bit 10 1" "(0x80 :: int) = push_bit 7 1" by simp_all
  then show "bit (0x80000000 :: int) k \<longleftrightarrow> k = 31" "bit (0x8000 :: int) k \<longleftrightarrow> k = 15"
      "bit (0x400 :: int) k \<longleftrightarrow> k = 10" "bit (0x80 :: int) k \<longleftrightarrow> k = 7"
    by (simp_all only: bit_push_bit_iff bit_1_iff) auto
qed

lemma int_or_push:
  assumes "0 \<le> m" and "m < 2 ^ n"
  shows "or (push_bit n e) m = e * 2 ^ n + (m :: int)"
proof -
  have m: "m = take_bit n m" using assms by (simp add: take_bit_int_eq_self)
  have "and (push_bit n e) (take_bit n m) = 0"
    by (rule bit_eqI) (auto simp: bit_and_iff bit_push_bit_iff bit_take_bit_iff)
  with m have "push_bit n e + m = or (push_bit n e) m" by (metis disjunctive_add_eq_or)
  then show ?thesis by (simp add: push_bit_eq_mult)
qed

lemma uint_or_push:
  fixes e m :: "'a::len word"
  assumes "uint m < 2 ^ n" and "uint e * 2 ^ n < 2 ^ LENGTH('a)"
  shows "uint (or (push_bit n e) m) = uint e * 2 ^ n + uint m"
proof -
  have "uint (push_bit n e) = take_bit LENGTH('a) (push_bit n (uint e))"
    by (simp only: unsigned_push_bit_eq)
  also have "\<dots> = push_bit n (uint e)"
    using assms(2) by (simp add: take_bit_int_eq_self push_bit_eq_mult)
  finally have "uint (push_bit n e) = push_bit n (uint e)" .
  then show ?thesis
    using int_or_push [of "uint m" n "uint e"] assms(1) by (simp only: uint_or uint_ge_0)
qed

lemma uint_push:
  fixes e :: "'a::len word"
  assumes "uint e * 2 ^ n < 2 ^ LENGTH('a)"
  shows "uint (push_bit n e) = uint e * 2 ^ n"
  using uint_or_push [of "0 :: 'a word" n e] assms by simp

definition sign32 :: "bool \<Rightarrow> 32 word" where
  "sign32 s = (if s then 0x80000000 else 0)"

lemma sign32_fields:
  assumes "uint x < 2 ^ 31"
  shows "f32_abs (or (sign32 s) x) = x" and "bit (or (sign32 s) x) 31 = s"
proof -
  have x: "take_bit 31 x = x"
    using assms by (simp only: word_uint_eq_iff unsigned_take_bit_eq take_bit_int_eq_self_iff uint_ge_0)
  have hi: "\<not> bit x 31"
  proof
    assume "bit x 31"
    then have "bit (take_bit 31 x) 31" by (simp add: x)
    then show False by (simp add: bit_take_bit_iff)
  qed
  have s: "take_bit 31 (sign32 s) = 0"
    by (rule bit_word_eqI) (simp add: sign32_def bit_take_bit_iff bit_single)
  show "f32_abs (or (sign32 s) x) = x"
    by (simp add: f32_abs_take_bit x s)
  show "bit (or (sign32 s) x) 31 = s"
    using hi by (simp add: bit_or_iff sign32_def bit_sign32)
qed

lemma f32_val_fields:
  assumes "uint x < 2 ^ 31"
  shows "f32_val (or (sign32 s) x) =
     (if uint x > 0x7F800000 then FNaN else if uint x = 0x7F800000 then FInf s
      else FFin s (fp_value 23 (- 126) (uint x)))"
  using sign32_fields [OF assms, of s] by (simp add: f32_val_def f32_abs_def Let_def)

lemma fp_value_normal:
  assumes "0 < e" "0 \<le> m" "m < 2 ^ mb"
  shows "fp_value mb emin (e * 2 ^ mb + m) = of_int (2 ^ mb + m) * pow2 (emin + e - 1 - int mb)"
proof -
  have "(e * 2 ^ mb + m) div 2 ^ mb = e" "(e * 2 ^ mb + m) mod 2 ^ mb = m"
    using assms by simp_all
  with assms(1) show ?thesis by (simp add: fp_value_def)
qed

section \<open>float16 to float32\<close>

lemma fp16_sign: "push_bit 16 (and (ucast w) 0x8000) = sign32 (bit (w :: 16 word) 15)"
proof (rule bit_word_eqI)
  fix k assume "k < LENGTH(32)"
  then show "bit (push_bit 16 (and (ucast w) 0x8000) :: 32 word) k = bit (sign32 (bit w 15)) k"
    by (auto simp: bit_push_bit_iff bit_and_iff bit_ucast_iff sign32_def bit_single)
qed

lemma fp16_fields:
  fixes w :: "16 word"
  defines "n \<equiv> uint (and w 0x7FFF)"
  shows "uint (and (ucast (drop_bit 10 w)) 0x1F :: 32 word) = n div 1024"
    and "uint (and (ucast w) 0x3FF :: 32 word) = n mod 1024" and "0 \<le> n" and "n < 32768"
proof -
  have n: "n = uint w mod 2 ^ 15" unfolding n_def mask_numerals uint_and_mask ..
  have uw: "uint w < 2 ^ 16" using uint_lt2p [of w] by simp
  have u: "uint (ucast w :: 32 word) = uint w"
    using uw by (simp add: unsigned_ucast_eq take_bit_int_eq_self)
  have d: "uint (ucast (drop_bit 10 w) :: 32 word) = uint w div 2 ^ 10"
  proof -
    have "uint w div 2 ^ 10 < 2 ^ 32" using uw by (simp add: div_less_iff_less_mult)
    then show ?thesis
      using uint_drop_bit [of 10 w]
      by (simp add: unsigned_ucast_eq take_bit_int_eq_self pos_imp_zdiv_nonneg_iff)
  qed
  have "uint w div 2 ^ 10 mod 2 ^ 5 = uint w mod 2 ^ 15 div 2 ^ 10"
    using drop_bit_take_bit [of 10 15 "uint w"] by (simp add: take_bit_eq_mod drop_bit_eq_div)
  then show "uint (and (ucast (drop_bit 10 w)) 0x1F :: 32 word) = n div 1024"
    unfolding mask_numerals uint_and_mask d n by simp
  show "uint (and (ucast w) 0x3FF :: 32 word) = n mod 1024"
    unfolding mask_numerals uint_and_mask u n by (simp add: mod_mod_cancel)
  show "0 \<le> n" "n < 32768" by (simp_all add: n)
qed

text \<open>The loop shifts a denormal's mantissa until its top bit is the implicit one.\<close>

lemma fp16_normalise_shift:
  "0 < uint m \<Longrightarrow> uint m < 0x800 \<Longrightarrow>
     \<exists>k. fp16_normalise e m = Some (e + int k, push_bit k m) \<and> 0x400 \<le> uint m * 2 ^ k
       \<and> uint m * 2 ^ k < 0x800"
proof (induction "nat (0x800 - uint m)" arbitrary: e m rule: less_induct)
  case less
  have b10: "and m 0x400 = 0 \<longleftrightarrow> uint m < 0x400"
  proof -
    have "and m 0x400 = 0 \<longleftrightarrow> \<not> bit m 10"
    proof
      assume "and m 0x400 = 0"
      then have "\<not> bit (and m 0x400) 10" by simp
      then show "\<not> bit m 10" by (simp add: bit_and_iff bit_single)
    next
      assume "\<not> bit m 10"
      then show "and m 0x400 = 0" by (intro bit_word_eqI) (auto simp: bit_and_iff bit_single)
    qed
    also have "\<dots> \<longleftrightarrow> \<not> bit (uint m) 10" by (simp add: bit_uint_iff)
    also have "\<dots> \<longleftrightarrow> even (uint m div 2 ^ 10)" by (simp only: bit_iff_odd not_not)
    also have "\<dots> \<longleftrightarrow> uint m < 0x400"
    proof (cases "uint m < 0x400")
      case False
      with less.prems have "uint m div 2 ^ 10 = 1"
        by (intro int_div_pos_eq [of _ _ _ "uint m - 0x400"]) auto
      with False show ?thesis by simp
    qed simp
    finally show ?thesis .
  qed
  show ?case
  proof (cases "uint m < 0x400")
    case False
    with b10 less.prems show ?thesis
      by (intro exI [of _ 0]) (simp add: fp16_normalise.simps [of e m])
  next
    case True
    have u: "uint (push_bit 1 m) = uint m * 2" using uint_push [of m 1] True by simp
    with True less.prems have "nat (0x800 - uint (push_bit 1 m)) < nat (0x800 - uint m)"
        "0 < uint (push_bit 1 m)" "uint (push_bit 1 m) < 0x800" by auto
    from less.hyps [OF this, of "e + 1"] obtain k where k:
        "fp16_normalise (e + 1) (push_bit 1 m) = Some (e + 1 + int k, push_bit k (push_bit 1 m))"
        "0x400 \<le> uint (push_bit 1 m) * 2 ^ k" "uint (push_bit 1 m) * 2 ^ k < 0x800" by blast
    have pp: "push_bit k (push_bit 1 m) = push_bit (Suc k) m" by (simp add: push_bit_push_bit)
    have "fp16_normalise e m = Some (e + int (Suc k), push_bit (Suc k) m)"
      using k(1) True b10 unfolding pp by (simp add: fp16_normalise.simps [of e m] add.assoc)
    moreover have "0x400 \<le> uint m * 2 ^ Suc k" "uint m * 2 ^ Suc k < 0x800"
      using k(2,3) unfolding u by (simp_all add: mult.assoc)
    ultimately show ?thesis by blast
  qed
qed

lemma fp16_subnormal:
  fixes w :: "16 word"
  assumes "0 < n" "n < 1024" and n: "n = uint (and w 0x7FFF)"
  obtains x where "fp16_bits_to_fp32_bits w = or (sign32 (bit w 15)) x" "uint x < 0x7F800000"
    "fp_value 23 (- 126) (uint x) = fp_value 10 (- 14) n / 2"
proof -
  define M where "M = (and (ucast w) 0x3FF :: 32 word)"
  have m: "uint M = n" using fp16_fields(2) [of w] assms by (simp add: M_def)
  then have mne: "M \<noteq> 0" using assms(1) by (metis less_irrefl unsigned_0)
  have "uint (and (ucast (drop_bit 10 w)) 0x1F :: 32 word) = 0"
    using fp16_fields(1) [of w] assms by simp
  then have e0: "(and (ucast (drop_bit 10 w)) 0x1F :: 32 word) = 0" by (simp add: unsigned_eq_0_iff)
  obtain k where k: "fp16_normalise 0 M = Some (int k, push_bit k M)"
      "0x400 \<le> n * 2 ^ k" "n * 2 ^ k < 0x800"
    using fp16_normalise_shift [of M 0] assms m by auto
  have k10: "k \<le> 10"
  proof (rule ccontr)
    assume "\<not> k \<le> 10"
    then have "(2 :: int) ^ 11 \<le> 2 ^ k" by (intro power_increasing) simp_all
    also have "\<dots> \<le> n * 2 ^ k" using assms(1) by simp
    finally show False using k(3) by simp
  qed
  have pk: "uint (push_bit k M) = n * 2 ^ k" using uint_push [of M k] m k(3) by simp
  define f where "f = and (push_bit k M) 0x3FF"
  have f: "uint f = n * 2 ^ k - 1024"
  proof -
    have "uint f = n * 2 ^ k mod 1024" unfolding f_def mask_numerals uint_and_mask pk by simp
    also have "\<dots> = (n * 2 ^ k - 1024) mod 1024" by (metis minus_mod_self2)
    also have "\<dots> = n * 2 ^ k - 1024" using k by (intro mod_pos_pos_trivial) simp_all
    finally show ?thesis .
  qed
  define E where "E = (word_of_int (127 - 15 - int k) :: 32 word)"
  have E: "uint E = 112 - int k"
  proof -
    have "uint E = (127 - 15 - int k) mod 2 ^ LENGTH(32)" by (simp only: E_def uint_word_of_int)
    also have "\<dots> = 127 - 15 - int k" using k10 by (intro mod_pos_pos_trivial) simp_all
    finally show ?thesis by simp
  qed
  define x where "x = or (push_bit 23 E) (push_bit 13 f)"
  have pf: "uint (push_bit 13 f) = (n * 2 ^ k - 1024) * 2 ^ 13"
    using uint_push [of f 13] f k(3) by simp
  have x: "uint x = (112 - int k) * 2 ^ 23 + (n * 2 ^ k - 1024) * 2 ^ 13"
    using uint_or_push [of "push_bit 13 f" 23 E] pf k E by (simp add: x_def)
  have "fp16_bits_to_fp32_bits w = or (sign32 (bit w 15)) x"
    using e0 mne k(1)
    unfolding fp16_bits_to_fp32_bits_def Let_def fp16_sign x_def E_def f_def M_def [symmetric]
    by (simp add: or.assoc)
  moreover have "uint x < 0x7F800000" using x k k10 by simp
  moreover have "fp_value 23 (- 126) (uint x) = fp_value 10 (- 14) n / 2"
  proof -
    have ex: "- 126 + (112 - int k) - 1 - 23 = - 38 - int k" by simp
    have sg: "2 ^ 23 + (n * 2 ^ k - 1024) * 2 ^ 13 = n * 2 ^ k * 2 ^ 13" by (simp add: algebra_simps)
    have "fp_value 23 (- 126) (uint x)
        = of_int (2 ^ 23 + (n * 2 ^ k - 1024) * 2 ^ 13) * pow2 (- 126 + (112 - int k) - 1 - 23)"
      unfolding x using k k10 by (subst fp_value_normal) simp_all
    also have "\<dots> = of_int (n * 2 ^ k * 2 ^ 13) * pow2 (- 38 - int k)" unfolding ex sg ..
    also have "\<dots> = of_int n * (pow2 (- 38 - int k) * 2 ^ (k + 13))" by (simp add: power_add)
    also have "pow2 (- 38 - int k) * 2 ^ (k + 13) = pow2 (- 25)"
      using pow2_add_nat [of "- 38 - int k" "k + 13"] by simp
    finally have "fp_value 23 (- 126) (uint x) = of_int n * pow2 (- 25)" .
    moreover have "fp_value 10 (- 14) n = of_int n * pow2 (- 24)"
      using assms by (simp add: fp_value_def)
    moreover have "pow2 (- 24) = 2 * pow2 (- 25)" using pow2_Suc [of "- 25"] by simp
    ultimately show ?thesis by simp
  qed
  ultimately show ?thesis using that by blast
qed

lemma fp16_normal:
  fixes w :: "16 word"
  assumes "1024 \<le> n" "n < 0x7C00" and n: "n = uint (and w 0x7FFF)"
  obtains x where "fp16_bits_to_fp32_bits w = or (sign32 (bit w 15)) x"
    "uint x = (n div 1024 + 112) * 2 ^ 23 + n mod 1024 * 2 ^ 13"
proof -
  define e m :: "32 word" where "e = and (ucast (drop_bit 10 w)) 0x1F" and "m = and (ucast w) 0x3FF"
  have em: "uint e = n div 1024" "uint m = n mod 1024"
    using fp16_fields [of w] n by (simp_all add: e_def m_def)
  have eb: "1 \<le> uint e" "uint e < 31" using assms(1,2) by (simp_all add: em div_less_iff_less_mult)
  then have ne: "e \<noteq> 0" "e \<noteq> 31" by auto
  have mb: "0 \<le> uint m" "uint m < 1024" by (simp_all add: em)
  have e2: "uint (e + 127 - 15) = uint e + 112"
  proof -
    have "uint (e + 112) = uint e + 112" using uint_add_lem [of e 112] eb by simp
    moreover have "e + 127 - 15 = e + 112" by simp
    ultimately show ?thesis by (simp only:)
  qed
  define x where "x = or (push_bit 23 (e + 127 - 15)) (push_bit 13 m)"
  have pm: "uint (push_bit 13 m) = uint m * 2 ^ 13" using uint_push [of m 13] mb by simp
  have "uint x = (uint e + 112) * 2 ^ 23 + uint m * 2 ^ 13"
    using uint_or_push [of "push_bit 13 m" 23 "e + 127 - 15"] mb eb unfolding x_def e2 pm by simp
  moreover have "fp16_bits_to_fp32_bits w = or (sign32 (bit w 15)) x"
    using ne
    unfolding fp16_bits_to_fp32_bits_def Let_def fp16_sign x_def e_def [symmetric] m_def [symmetric]
    by (simp add: or.assoc)
  ultimately show ?thesis using that em by simp
qed

lemma fp16_special:
  fixes w :: "16 word"
  assumes "0x7C00 \<le> n" and n: "n = uint (and w 0x7FFF)"
  obtains x where "fp16_bits_to_fp32_bits w = or (sign32 (bit w 15)) x"
    "uint x = 0x7F800000 + (n - 0x7C00) * 2 ^ 13" "uint x < 2 ^ 31"
proof -
  define e m :: "32 word" where "e = and (ucast (drop_bit 10 w)) 0x1F" and "m = and (ucast w) 0x3FF"
  have n31: "n div 1024 = 31" "n mod 1024 = n - 0x7C00" "n < 32768"
    using assms(1) fp16_fields(4) [of w] n
    by (auto intro!: int_div_pos_eq [of _ _ _ "n - 0x7C00"] int_mod_pos_eq [of _ _ 31])
  have "uint e = 31" using fp16_fields(1) [of w] n n31 by (simp add: e_def)
  then have e: "e = 31" by (metis word_of_int_uint word_of_int_numeral)
  have m: "uint m = n - 0x7C00" using fp16_fields(2) [of w] n n31 by (simp add: m_def)
  define x where "x = or (0x7F800000 :: 32 word) (push_bit 13 m)"
  have pm: "uint (push_bit 13 m) = uint m * 2 ^ 13" using uint_push [of m 13] m n31 by simp
  have "(0x7F800000 :: 32 word) = push_bit 23 0xFF" by simp
  then have "uint x = 255 * 2 ^ 23 + uint m * 2 ^ 13"
    using uint_or_push [of "push_bit 13 m" 23 "0xFF :: 32 word"] m n31 pm unfolding x_def by simp
  moreover have "fp16_bits_to_fp32_bits w = or (sign32 (bit w 15)) x"
    using e unfolding fp16_bits_to_fp32_bits_def Let_def fp16_sign x_def e_def [symmetric] m_def [symmetric]
    by (simp add: or.assoc)
  ultimately show ?thesis using that m n31 by simp
qed

lemma fp16_zero:
  fixes w :: "16 word"
  assumes "uint (and w 0x7FFF) = 0"
  shows "fp16_bits_to_fp32_bits w = or (sign32 (bit w 15)) 0"
proof -
  have "(and (ucast (drop_bit 10 w)) 0x1F :: 32 word) = 0" "(and (ucast w) 0x3FF :: 32 word) = 0"
    using fp16_fields [of w] assms by (simp_all add: unsigned_eq_0_iff)
  then show ?thesis unfolding fp16_bits_to_fp32_bits_def Let_def fp16_sign by simp
qed

text \<open>
  C36. What widening a float16 gives, for every pattern: infinities, NaNs, zeros and normal numbers
  keep their sign and value exactly. A subnormal comes out as half its value: the code takes the
  exponent of the normalised mantissa one too low.
\<close>

theorem fp16_decode_value:
  "f32_val (fp16_bits_to_fp32_bits w) =
     (let s = bit w 15; n = uint (and w 0x7FFF) in
      if n > 0x7C00 then FNaN
      else if n = 0x7C00 then FInf s
      else if 0 < n \<and> n < 0x400 then FFin s (fp_value 10 (- 14) n / 2)
      else FFin s (fp_value 10 (- 14) n))"
proof -
  define n where "n = uint (and w 0x7FFF)"
  have nn: "0 \<le> n" "n < 32768" unfolding n_def by (rule fp16_fields)+
  consider "n = 0" | "0 < n" "n < 1024" | "1024 \<le> n" "n < 0x7C00" | "0x7C00 \<le> n"
    using nn by linarith
  then show ?thesis
  proof cases
    case 1
    with fp16_zero [of w] f32_val_fields [of 0 "bit w 15"] show ?thesis
      by (simp add: n_def fp_value_def)
  next
    case 2
    obtain x where "fp16_bits_to_fp32_bits w = or (sign32 (bit w 15)) x" "uint x < 0x7F800000"
        "fp_value 23 (- 126) (uint x) = fp_value 10 (- 14) n / 2"
      by (rule fp16_subnormal [OF 2 n_def])
    with 2 show ?thesis by (simp add: f32_val_fields flip: n_def)
  next
    case 3
    obtain x where x: "fp16_bits_to_fp32_bits w = or (sign32 (bit w 15)) x"
        "uint x = (n div 1024 + 112) * 2 ^ 23 + n mod 1024 * 2 ^ 13"
      by (rule fp16_normal [OF 3 n_def])
    have e: "1 \<le> n div 1024" "n div 1024 \<le> 30" and m: "0 \<le> n mod 1024" "n mod 1024 < 1024"
      using 3 zdiv_mono1 [of 1024 n 1024] zdiv_mono1 [of n "0x7BFF" 1024] by simp_all
    have "fp_value 23 (- 126) (uint x)
        = of_int (2 ^ 23 + n mod 1024 * 2 ^ 13) * pow2 (- 126 + (n div 1024 + 112) - 1 - 23)"
      unfolding x(2) using e m by (subst fp_value_normal) simp_all
    also have "\<dots> = of_int (2 ^ 10 + n mod 1024) * (pow2 (n div 1024 - 38) * 2 ^ 13)"
      by (simp add: algebra_simps)
    also have "pow2 (n div 1024 - 38) * 2 ^ 13 = pow2 (n div 1024 - 25)"
      using pow2_add_nat [of "n div 1024 - 38" 13] by simp
    also have "of_int (2 ^ 10 + n mod 1024) * pow2 (n div 1024 - 25) = fp_value 10 (- 14) n"
    proof -
      have "fp_value 10 (- 14) (n div 1024 * 2 ^ 10 + n mod 1024)
          = of_int (2 ^ 10 + n mod 1024) * pow2 (- 14 + n div 1024 - 1 - 10)"
        using e m by (subst fp_value_normal) simp_all
      moreover have "- 14 + n div 1024 - 1 - 10 = n div 1024 - 25" by simp
      moreover have "n div 1024 * 2 ^ 10 + n mod 1024 = n" by simp
      ultimately show ?thesis by (simp only:)
    qed
    finally have "fp_value 23 (- 126) (uint x) = fp_value 10 (- 14) n" .
    moreover have "uint x < 0x7F800000" using x(2) e m by simp
    ultimately show ?thesis using 3 x(1) by (simp add: f32_val_fields flip: n_def)
  next
    case 4
    obtain x where "fp16_bits_to_fp32_bits w = or (sign32 (bit w 15)) x"
        "uint x = 0x7F800000 + (n - 0x7C00) * 2 ^ 13" "uint x < 2 ^ 31"
      by (rule fp16_special [OF 4 n_def])
    with 4 show ?thesis by (simp add: f32_val_fields flip: n_def)
  qed
qed

section \<open>float32 to float16\<close>

definition sign16 :: "bool \<Rightarrow> 16 word" where
  "sign16 s = (if s then 0x8000 else 0)"

lemma fp16_encode_sign: "(ucast (and (drop_bit 16 (w :: 32 word)) 0x8000) :: 16 word) = sign16 (bit w 31)"
  by (rule bit_word_eqI)
    (auto simp: bit_ucast_iff bit_and_iff bit_drop_bit_eq sign16_def bit_single)

lemma fp16_word_eqI:
  fixes v w :: "16 word"
  assumes "bit v 15 = bit w 15" and "uint (and v 0x7FFF) = uint (and w 0x7FFF)"
  shows "v = w"
proof (rule bit_word_eqI)
  from assms(2) have eq: "and v 0x7FFF = and w 0x7FFF" by (simp only: word_uint_eq_iff)
  fix k assume "k < LENGTH(16)"
  then consider "k = 15" | "k < 15" by fastforce
  then show "bit v k = bit w k"
  proof cases
    case 2
    have "bit (and u (mask 15)) k \<longleftrightarrow> bit u k" for u :: "16 word"
      using 2 by (simp add: bit_and_iff bit_mask_iff)
    with eq show ?thesis unfolding mask_numerals by metis
  qed (simp add: assms(1))
qed

lemma sign16_fields:
  assumes "uint x < 2 ^ 15"
  shows "uint (or (sign16 s) x) = (if s then 2 ^ 15 else 0) + uint x"
    and "bit (or (sign16 s) x) 15 = s"
proof -
  have "(sign16 s) = push_bit 15 (if s then 1 else 0)" by (simp add: sign16_def)
  then show u: "uint (or (sign16 s) x) = (if s then 2 ^ 15 else 0) + uint x"
    using uint_or_push [of x 15 "if s then 1 else 0"] assms by simp
  have "bit (or (sign16 s) x) 15 = bit (uint (or (sign16 s) x)) 15" by (simp add: bit_uint_iff)
  also have "\<dots> = odd (((if s then 1 else 0) * 2 ^ 15 + uint x) div 2 ^ 15)"
    unfolding u bit_iff_odd by simp
  also have "((if s then 1 else 0) * 2 ^ 15 + uint x) div 2 ^ 15 = (if s then 1 else 0)"
    using assms by simp
  finally show "bit (or (sign16 s) x) 15 = s" by simp
qed

text \<open>In the range of normal float16 numbers the cast rounds the pattern to nearest, halves up.\<close>

lemma fp16_encode_normal:
  assumes a: "uint (f32_abs bits) = (e + 112) * 2 ^ 23 + m" and e: "1 \<le> e" "e \<le> 30"
    and m: "0 \<le> m" "m < 2 ^ 23"
  shows "uint (and (fp32_bits_to_fp16_bits bits) 0x7FFF) = (e * 2 ^ 23 + m + 2 ^ 12) div 2 ^ 13"
    and "bit (fp32_bits_to_fp16_bits bits) 15 = bit bits 31"
proof -
  let ?u = "uint bits"
  have a': "?u mod 2 ^ 31 = (e + 112) * 2 ^ 23 + m" using a by (simp add: f32_abs_uint)
  have "?u div 2 ^ 23 mod 2 ^ 8 = ?u mod 2 ^ 31 div 2 ^ 23"
    using drop_bit_take_bit [of 23 31 ?u] by (simp add: take_bit_eq_mod drop_bit_eq_div)
  then have ex: "uint (and (drop_bit 23 bits) 0xFF) = e + 112"
    unfolding mask_numerals uint_and_mask uint_drop_bit a' using m by simp
  have "?u mod 2 ^ 23 = ?u mod 2 ^ 31 mod 2 ^ 23" by (simp add: mod_mod_cancel)
  moreover have "((e + 112) * 2 ^ 23 + m) mod 2 ^ 23 = m"
    using m by (simp only: mod_mult_self3 mod_pos_pos_trivial)
  ultimately have ma: "uint (and bits 0x7FFFFF) = m"
    unfolding mask_numerals uint_and_mask a' by simp
  define r where "r = and (drop_bit 12 (and bits 0x7FFFFF)) 1"
  have r: "uint r = m div 2 ^ 12 mod 2" unfolding r_def uint_low_bit uint_drop_bit ma by simp
  have rb: "0 \<le> uint r" "uint r \<le> 1" using r by simp_all
  define hi where "hi = (ucast (drop_bit 13 (and bits 0x7FFFFF)) :: 16 word)"
  have mh: "0 \<le> m div 2 ^ 13" "m div 2 ^ 13 < 1024"
    using m by (simp_all add: div_less_iff_less_mult pos_imp_zdiv_nonneg_iff)
  have hi: "uint hi = m div 2 ^ 13"
    unfolding hi_def uint_ucast_16 uint_drop_bit ma using mh by simp
  have we: "uint (word_of_int e :: 16 word) = e"
    unfolding uint_word_of_int using e by (intro mod_pos_pos_trivial) simp_all
  define x where "x = or (push_bit 10 (word_of_int e)) hi"
  have x: "uint x = e * 2 ^ 10 + m div 2 ^ 13"
    using uint_or_push [of hi 10 "word_of_int e"] we hi mh e by (simp add: x_def)
  have xb: "uint x < 0x7C00" using x mh e by simp
  have conv: "fp32_bits_to_fp16_bits bits = or (sign16 (bit bits 31)) x + ucast r"
    using e unfolding fp32_bits_to_fp16_bits_def Let_def fp16_encode_sign ex x_def hi_def r_def [symmetric]
    by (simp add: or.assoc)
  have ur: "uint (ucast r :: 16 word) = uint r" unfolding uint_ucast_16 using rb by simp
  have sx: "uint (or (sign16 (bit bits 31)) x) = (if bit bits 31 then 2 ^ 15 else 0) + uint x"
    using sign16_fields(1) [of x] xb by simp
  have total: "uint (fp32_bits_to_fp16_bits bits) = (if bit bits 31 then 2 ^ 15 else 0) + (uint x + uint r)"
    using uint_add_lem [of "or (sign16 (bit bits 31)) x" "ucast r"] xb rb
    unfolding conv sx ur by (cases "bit bits 31") simp_all
  have "(e * 2 ^ 23 + m + 2 ^ 12) div 2 ^ 13 = e * 2 ^ 10 + (m + 2 ^ 12) div 2 ^ 13" by simp
  also have "(m + 2 ^ 12) div 2 ^ 13 = m div 2 ^ 13 + m div 2 ^ 12 mod 2"
  proof -
    have "(k + 1) div 2 = k div 2 + k mod 2" for k :: int by presburger
    from this [of "m div 4096"] show ?thesis
      using zdiv_zmult2_eq [of 2 m 4096] zdiv_zmult2_eq [of 2 "m + 4096" 4096] by simp
  qed
  finally have goal: "uint x + uint r = (e * 2 ^ 23 + m + 2 ^ 12) div 2 ^ 13" using x r by simp
  have low: "0 \<le> uint x + uint r" "uint x + uint r < 2 ^ 15" using xb rb by simp_all
  then have "uint (and (fp32_bits_to_fp16_bits bits) 0x7FFF) = uint x + uint r"
    unfolding mask_numerals uint_and_mask total by simp
  with goal show "uint (and (fp32_bits_to_fp16_bits bits) 0x7FFF) = (e * 2 ^ 23 + m + 2 ^ 12) div 2 ^ 13"
    by simp
  have "bit (fp32_bits_to_fp16_bits bits) 15 = bit (uint (fp32_bits_to_fp16_bits bits)) 15"
    by (simp add: bit_uint_iff)
  also have "\<dots> = odd (((if bit bits 31 then 1 else 0) * 2 ^ 15 + (uint x + uint r)) div 2 ^ 15)"
    unfolding total bit_iff_odd by simp
  also have "((if bit bits 31 then 1 else 0) * 2 ^ 15 + (uint x + uint r)) div 2 ^ 15
      = (if bit bits 31 then 1 else 0)"
    using low by simp
  finally show "bit (fp32_bits_to_fp16_bits bits) 15 = bit bits 31" by simp
qed

text \<open>
  A float16 tensor of normal numbers survives being widened and cast back, bit for bit.
\<close>

theorem fp16_roundtrip:
  assumes "0x400 \<le> uint (and w 0x7FFF)" and "uint (and w 0x7FFF) < 0x7C00"
  shows "fp32_bits_to_fp16_bits (fp16_bits_to_fp32_bits w) = w"
proof -
  define n where "n = uint (and w 0x7FFF)"
  have n: "1024 \<le> n" "n < 0x7C00" using assms by (simp_all add: n_def)
  obtain x where x: "fp16_bits_to_fp32_bits w = or (sign32 (bit w 15)) x"
      "uint x = (n div 1024 + 112) * 2 ^ 23 + n mod 1024 * 2 ^ 13"
    by (rule fp16_normal [OF n n_def])
  have e: "1 \<le> n div 1024" "n div 1024 \<le> 30" and m: "0 \<le> n mod 1024" "n mod 1024 < 1024"
    using n zdiv_mono1 [of 1024 n 1024] zdiv_mono1 [of n "0x7BFF" 1024] by simp_all
  have xb: "uint x < 2 ^ 31" using x(2) e m by simp
  have abs: "uint (f32_abs (fp16_bits_to_fp32_bits w)) = (n div 1024 + 112) * 2 ^ 23 + n mod 1024 * 2 ^ 13"
    and sgn: "bit (fp16_bits_to_fp32_bits w) 31 = bit w 15"
    using sign32_fields [OF xb] x by simp_all
  have mb: "0 \<le> n mod 1024 * 2 ^ 13" "n mod 1024 * 2 ^ 13 < 2 ^ 23" using m by simp_all
  note enc = fp16_encode_normal [OF abs e mb]
  have "(n div 1024 * 2 ^ 23 + n mod 1024 * 2 ^ 13 + 2 ^ 12) div 2 ^ 13 = n div 1024 * 1024 + n mod 1024"
  proof -
    have "(q * 2 ^ 23 + r * 2 ^ 13 + 2 ^ 12) div 2 ^ 13 = q * 1024 + r" for q r :: int
      by (intro int_div_pos_eq [of _ _ _ "2 ^ 12"]) simp_all
    then show ?thesis .
  qed
  then have "uint (and (fp32_bits_to_fp16_bits (fp16_bits_to_fp32_bits w)) 0x7FFF) = uint (and w 0x7FFF)"
    using enc(1) n_def by simp
  moreover have "bit (fp32_bits_to_fp16_bits (fp16_bits_to_fp32_bits w)) 15 = bit w 15"
    using enc(2) sgn by simp
  ultimately show ?thesis by (intro fp16_word_eqI)
qed

theorem fp16_roundtrip_witness: "fp32_bits_to_fp16_bits (fp16_bits_to_fp32_bits 0xC248) = 0xC248"
  by (rule fp16_roundtrip) simp_all

section \<open>float8\<close>

lemma round_even_small: "0 \<le> y \<Longrightarrow> y < 1 / 2 \<Longrightarrow> round_even y = 0"
proof -
  assume y: "0 \<le> y" "y < 1 / 2"
  then have "\<lfloor>y\<rfloor> = 0" by (simp add: floor_unique)
  with y show ?thesis by (simp add: round_even_def)
qed

lemma shift_round_even_correct:
  assumes "uint v < 2 ^ 24"
  shows "uint (shift_round_even v n) = round_even (of_int (uint v) / 2 ^ n)"
proof -
  let ?u = "uint v"
  consider "n = 0" | "31 < n" | "0 < n" "n \<le> 31" by linarith
  then show ?thesis
  proof cases
    case 1
    with round_even_int [of ?u] show ?thesis by (simp add: shift_round_even_def del: round_even_int)
  next
    case 2
    have "(of_int ?u :: rat) < 2 ^ 24" using assms by (metis of_int_less_iff of_int_numeral of_int_power)
    moreover have "(2 :: rat) ^ 25 \<le> 2 ^ n" using 2 by (intro power_increasing) simp_all
    ultimately have "(of_int ?u / 2 ^ n :: rat) < 1 / 2" by (simp add: divide_less_eq)
    moreover have "(0 :: rat) \<le> of_int ?u" by (simp only: of_int_0_le_iff uint_ge_0)
    then have "(0 :: rat) \<le> of_int ?u / 2 ^ n" by (rule divide_nonneg_nonneg) simp
    ultimately have "round_even (of_int ?u / 2 ^ n) = 0" by (intro round_even_small)
    with 2 show ?thesis by (simp add: shift_round_even_def)
  next
    case 3
    define h :: int where "h = 2 ^ (n - 1)"
    have h2: "2 * h = 2 ^ n" using 3(1) by (simp add: h_def flip: power_Suc)
    have h: "0 < h" by (simp add: h_def)
    have keep: "uint (drop_bit n v) = ?u div (2 * h)" unfolding uint_drop_bit h2 ..
    have rem: "uint (and v (push_bit n 1 - 1)) = ?u mod (2 * h)"
    proof -
      have "push_bit n 1 - 1 = (mask n :: 32 word)" by (simp add: mask_eq_exp_minus_1)
      then show ?thesis unfolding h2 by (simp only: uint_and_mask)
    qed
    have half: "uint (push_bit (n - 1) (1 :: 32 word)) = h"
    proof -
      have "(2 :: int) ^ (n - 1) \<le> 2 ^ 30" using 3(2) by (intro power_increasing) simp_all
      then show ?thesis using uint_push [of "1 :: 32 word" "n - 1"] by (simp add: h_def)
    qed
    have odd: "and (drop_bit n v) 1 = 1 \<longleftrightarrow> odd (?u div (2 * h))"
    proof -
      have "uint (and (drop_bit n v) 1) = ?u div (2 * h) mod 2" unfolding uint_low_bit keep ..
      then show ?thesis by (simp only: word_uint_eq_iff unsigned_1 odd_iff_mod_2_eq_one)
    qed
    have kb: "?u div (2 * h) < 2 ^ 31"
    proof -
      have "?u div (2 * h) \<le> ?u div 1" using h by (intro zdiv_mono2) simp_all
      with assms show ?thesis by simp
    qed
    have k1: "uint (drop_bit n v + 1) = ?u div (2 * h) + 1"
      using uint_add_lem [of "drop_bit n v" 1] kb by (simp add: keep)
    have "uint (shift_round_even v n) = ?u div (2 * h)
        + (if h < ?u mod (2 * h) \<or> (?u mod (2 * h) = h \<and> odd (?u div (2 * h))) then 1 else 0)"
    proof -
      let ?C = "push_bit (n - 1) 1 < and v (push_bit n 1 - 1)
        \<or> (and v (push_bit n 1 - 1) = push_bit (n - 1) 1 \<and> and (drop_bit n v) 1 = 1)"
      let ?D = "h < ?u mod (2 * h) \<or> (?u mod (2 * h) = h \<and> odd (?u div (2 * h)))"
      have "n \<noteq> 0" "\<not> 31 < n" using 3 by auto
      then have sre: "shift_round_even v n = (if ?C then drop_bit n v + 1 else drop_bit n v)"
        by (simp only: shift_round_even_def Let_def if_False)
      have CD: "?C \<longleftrightarrow> ?D" unfolding word_less_def odd word_uint_eq_iff [of "and v (push_bit n 1 - 1)"] rem half ..
      show ?thesis unfolding sre CD by (cases ?D) (simp_all only: keep k1 if_True if_False add_0_right)
    qed
    also have "\<dots> = round_even (of_int ?u / of_int (2 * h))" by (rule round_even_quot [OF h, symmetric])
    finally show ?thesis by (simp add: h2)
  qed
qed

text \<open>What the encoder relies on in a format's constants; both formats have it.\<close>

definition fp8_sane :: "fp8_format \<Rightarrow> bool" where
  "fp8_sane fmt \<longleftrightarrow> 2 \<le> f8_mant_bits fmt \<and> f8_mant_bits fmt \<le> 3
     \<and> 1 \<le> f8_bias fmt \<and> f8_bias fmt \<le> 15 \<and> 1 \<le> f8_max_normal_exp fmt
     \<and> uint (f8_max_finite_bits fmt) < 128
     \<and> uint (f8_max_normal_mant fmt) < 2 ^ f8_mant_bits fmt
     \<and> uint (f8_max_finite_bits fmt)
        = f8_max_normal_exp fmt * 2 ^ f8_mant_bits fmt + uint (f8_max_normal_mant fmt)"

lemma fp8_formats_sane: "fp8_sane e4m3fn" "fp8_sane e5m2"
  by (simp_all add: fp8_sane_def e4m3fn_def e5m2_def)

definition sign8 :: "bool \<Rightarrow> 8 word" where
  "sign8 s = (if s then 0x80 else 0)"

lemma fp8_sign: "(ucast (and (drop_bit 24 (w :: 32 word)) 0x80) :: 8 word) = sign8 (bit w 31)"
  by (rule bit_word_eqI)
    (auto simp: bit_ucast_iff bit_and_iff bit_drop_bit_eq sign8_def bit_single)

text \<open>The reference: the sign, and the nearest pattern of the format, at most its largest finite one.\<close>

definition fp8_reference :: "fp8_format \<Rightarrow> fval \<Rightarrow> bool \<Rightarrow> 8 word" where
  "fp8_reference fmt v s = or (sign8 s)
     (case v of FNaN \<Rightarrow> f8_nan_bits fmt
      | FInf _ \<Rightarrow> if f8_has_inf fmt then f8_inf_bits fmt else f8_nan_bits fmt
      | FFin _ x \<Rightarrow> word_of_int (min (uint (f8_max_finite_bits fmt))
                     (fp_mag (f8_mant_bits fmt) (1 - f8_bias fmt) x)))"

text \<open>The value of a float32 with an exponent field: significand and exponent.\<close>

lemma f32_normal_value:
  assumes "1 \<le> E" "0 \<le> M" "M < 2 ^ 23"
  defines "x \<equiv> fp_value 23 (- 126) (E * 2 ^ 23 + M)"
  shows "x = of_int (2 ^ 23 + M) * pow2 (E - 150)" and "flog2 x = E - 127" and "x \<noteq> 0"
proof -
  have ex: "- 126 + E - 1 - int 23 = E - 150" by simp
  show x: "x = of_int (2 ^ 23 + M) * pow2 (E - 150)"
    using fp_value_normal [of E M 23 "- 126"] assms(1-3) unfolding x_def ex by simp
  have p: "pow2 (E - 127) = 2 ^ 23 * pow2 (E - 150)"
    using pow2_add_nat [of "E - 150" 23] by simp
  have p2: "pow2 (E - 127 + 1) = 2 ^ 24 * pow2 (E - 150)" unfolding pow2_Suc p by simp
  have Mr: "(0 :: rat) \<le> of_int M" "(of_int M :: rat) < 2 ^ 23"
    using assms(2,3) by (simp, metis of_int_less_iff of_int_numeral of_int_power)
  have "pow2 (E - 127) \<le> x"
    unfolding p x using Mr by (intro mult_right_mono) (simp_all add: less_imp_le)
  moreover have "x < pow2 (E - 127 + 1)"
    unfolding p2 x using Mr by (intro mult_strict_right_mono) simp_all
  ultimately show "flog2 x = E - 127" by (rule flog2_eqI)
  show "x \<noteq> 0" using \<open>pow2 (E - 127) \<le> x\<close> pow2_pos [of "E - 127"] by linarith
qed

lemma fp8_mag_normal:
  assumes "1 \<le> E" "0 \<le> M" "M < 2 ^ 23" and "2 \<le> mb" "mb \<le> 3"
  shows "fp_mag mb emin (fp_value 23 (- 126) (E * 2 ^ 23 + M))
    = (max (E - 127) emin - emin) * 2 ^ mb
      + round_even (of_int (2 ^ 23 + M) / 2 ^ nat (23 - int mb + (max (E - 127) emin - (E - 127))))"
proof -
  define x where "x = fp_value 23 (- 126) (E * 2 ^ 23 + M)"
  note v = f32_normal_value [OF assms(1-3), folded x_def]
  define k where "k = max (E - 127) emin"
  define n where "n = nat (23 - int mb + (k - (E - 127)))"
  have "0 \<le> 23 - int mb + (k - (E - 127))" using assms(5) by (simp add: k_def)
  then have "pow2 (k - int mb) = pow2 (E - 150) * 2 ^ n"
    using pow2_add_nat [of "E - 150" n] by (simp add: n_def)
  then have "x / pow2 (k - int mb) = of_int (2 ^ 23 + M) / 2 ^ n" by (simp add: v(1))
  then show ?thesis
    using v(2,3) unfolding x_def [symmetric] k_def [symmetric] n_def [symmetric]
    by (simp add: fp_mag_def k_def [symmetric] Let_def)
qed

lemma round_even_bounds:
  assumes "of_int a \<le> x" and "x \<le> of_int b"
  shows "a \<le> round_even x" and "round_even x \<le> b"
  using round_even_mono [OF assms(1)] round_even_mono [OF assms(2)] by simp_all

lemma fp8_assemble:
  assumes "0 \<le> e" "uint (m :: 32 word) < 2 ^ mb" "e * 2 ^ mb + uint m < 128"
  shows "or (or s (push_bit mb (word_of_int e))) (ucast m) = or s (word_of_int (e * 2 ^ mb + uint m) :: 8 word)"
proof -
  have e1: "e \<le> e * 2 ^ mb" using assms(1) by (simp add: mult_le_cancel_left1)
  have b: "e < 128" "uint m < 128" "0 \<le> e * 2 ^ mb" "e * 2 ^ mb < 128"
    using assms e1 uint_ge_0 [of m] by (linarith, smt (verit) zero_le_power mult_nonneg_nonneg, simp, linarith)
  have we: "uint (word_of_int e :: 8 word) = e"
    unfolding uint_word_of_int using assms(1) b(1) by (intro mod_pos_pos_trivial) simp_all
  have wm: "uint (ucast m :: 8 word) = uint m"
    using b(2) by (simp add: unsigned_ucast_eq take_bit_int_eq_self)
  have "uint (or (push_bit mb (word_of_int e)) (ucast m) :: 8 word) = e * 2 ^ mb + uint m"
    using uint_or_push [of "ucast m :: 8 word" mb "word_of_int e"] we wm assms(2) b(4) by simp
  then have "or (push_bit mb (word_of_int e)) (ucast m) = (word_of_int (e * 2 ^ mb + uint m) :: 8 word)"
    by (metis word_of_int_uint)
  then show ?thesis by (simp only: or.assoc)
qed

lemma fp8_significand:
  "uint (or 0x00800000 (and A 0x007FFFFF) :: 32 word) = 2 ^ 23 + uint A mod 2 ^ 23"
proof -
  have m: "uint (and A 0x007FFFFF) = uint A mod 2 ^ 23" unfolding mask_numerals uint_and_mask ..
  have "(0x00800000 :: 32 word) = push_bit 23 1" by simp
  then show ?thesis using uint_or_push [of "and A 0x007FFFFF" 23 1] m by simp
qed

text \<open>A value with an exponent field of its own in the target.\<close>

lemma fp8_encode_normal:
  assumes sane: "fp8_sane fmt" and abs: "uint (f32_abs bits) = E * 2 ^ 23 + M" "0 \<le> M" "M < 2 ^ 23" "E < 255"
    and new: "1 \<le> E - 127 + f8_bias fmt"
  shows "fp32_bits_to_fp8_bits bits fmt = or (sign8 (bit bits 31))
    (word_of_int (min (uint (f8_max_finite_bits fmt))
      (fp_mag (f8_mant_bits fmt) (1 - f8_bias fmt) (fp_value 23 (- 126) (E * 2 ^ 23 + M)))))"
proof -
  define mb where "mb = f8_mant_bits fmt"
  define ne where "ne = E - 127 + f8_bias fmt"
  have mb: "2 \<le> mb" "mb \<le> 3" and E1: "1 \<le> E"
    using sane new by (auto simp: fp8_sane_def mb_def)
  define sg where "sg = or 0x00800000 (and (f32_abs bits) 0x007FFFFF)"
  have a: "(E * 2 ^ 23 + M) div 2 ^ 23 = E" "(E * 2 ^ 23 + M) mod 2 ^ 23 = M" using abs(2,3) by simp_all
  have sg: "uint sg = 2 ^ 23 + M" and ex: "uint (drop_bit 23 (f32_abs bits)) = E"
    unfolding sg_def fp8_significand uint_drop_bit abs(1) a by simp_all
  define R where "R = round_even (of_int (2 ^ 23 + M) / 2 ^ (23 - mb))"
  have R: "uint (shift_round_even sg (23 - mb)) = R"
    using shift_round_even_correct [of sg "23 - mb"] abs(3) unfolding sg R_def by simp
  have two: "(2 :: rat) ^ 23 = 2 ^ mb * 2 ^ (23 - mb)" using mb by (simp flip: power_add)
  have Mr: "(0 :: rat) \<le> of_int M" "(of_int M :: rat) \<le> 2 ^ 23"
    using abs(2,3) by (simp, metis of_int_le_iff of_int_numeral of_int_power less_imp_le)
  have "of_int (2 ^ mb) \<le> (of_int (2 ^ 23 + M) / 2 ^ (23 - mb) :: rat)"
    using Mr two by (simp add: pos_le_divide_eq)
  moreover have "(of_int (2 ^ 23 + M) / 2 ^ (23 - mb) :: rat) \<le> of_int (2 * 2 ^ mb)"
    using Mr two by (simp add: pos_divide_le_eq)
  ultimately have Rb: "2 ^ mb \<le> R" "R \<le> 2 * 2 ^ mb"
    unfolding R_def by (rule round_even_bounds)+
  have "max (E - 127) (1 - f8_bias fmt) = E - 127" using new by simp
  then have mag: "fp_mag mb (1 - f8_bias fmt) (fp_value 23 (- 126) (E * 2 ^ 23 + M)) = (ne - 1) * 2 ^ mb + R"
    using fp8_mag_normal [OF E1 abs(2,3) mb, of "1 - f8_bias fmt"] mb
    by (simp add: R_def ne_def nat_diff_distrib' algebra_simps)
  define e m where "e = (if R = 2 * 2 ^ mb then ne + 1 else ne)"
    and "m = (if R = 2 * 2 ^ mb then 0 else and (shift_round_even sg (23 - mb)) (push_bit mb 1 - 1))"
  have um: "uint m = (if R = 2 * 2 ^ mb then 0 else R - 2 ^ mb)"
  proof -
    have "push_bit mb 1 - 1 = (mask mb :: 32 word)" by (simp add: mask_eq_exp_minus_1)
    then have "uint (and (shift_round_even sg (23 - mb)) (push_bit mb 1 - 1)) = R mod 2 ^ mb"
      by (simp only: uint_and_mask R)
    moreover have "R mod 2 ^ mb = R - 2 ^ mb" if "R \<noteq> 2 * 2 ^ mb"
      using that Rb by (intro int_mod_pos_eq [of _ _ 1]) simp_all
    ultimately show ?thesis by (simp add: m_def)
  qed
  have pat: "e * 2 ^ mb + uint m = (ne - 1) * 2 ^ mb + R" and mlt: "uint m < 2 ^ mb"
    using um Rb by (auto simp: e_def algebra_simps)
  have carry: "drop_bit (mb + 1) (shift_round_even sg (23 - mb)) \<noteq> 0 \<longleftrightarrow> R = 2 * 2 ^ mb"
  proof -
    have "uint (drop_bit (mb + 1) (shift_round_even sg (23 - mb))) = R div 2 ^ (mb + 1)"
      by (simp only: uint_drop_bit R)
    moreover have "R div 2 ^ (mb + 1) \<noteq> 0 \<longleftrightarrow> R = 2 * 2 ^ mb"
    proof (cases "R = 2 * 2 ^ mb")
      case False
      have "0 \<le> R" using Rb(1) by (rule order.trans [rotated]) simp
      with False Rb have "R div (2 * 2 ^ mb) = 0" by (intro div_pos_pos_trivial) simp_all
      with False show ?thesis by simp
    qed simp
    ultimately show ?thesis by (metis unsigned_eq_0_iff)
  qed
  define me mm where "me = f8_max_normal_exp fmt" and "mm = f8_max_normal_mant fmt"
  have mx: "uint (f8_max_finite_bits fmt) = me * 2 ^ mb + uint mm" "uint mm < 2 ^ mb"
      "uint (f8_max_finite_bits fmt) < 128"
    using sane by (simp_all add: fp8_sane_def mb_def me_def mm_def)
  have over: "me < e \<or> (e = me \<and> mm < m) \<longleftrightarrow> me * 2 ^ mb + uint mm < e * 2 ^ mb + uint m"
  proof -
    consider "e < me" | "e = me" | "me < e" by linarith
    then show ?thesis
    proof cases
      case 1
      then have "(e + 1) * 2 ^ mb \<le> me * 2 ^ mb" by (intro mult_right_mono) simp_all
      with 1 mlt show ?thesis by (simp add: algebra_simps) (smt (verit) uint_ge_0)
    next
      case 3
      then have "(me + 1) * 2 ^ mb \<le> e * 2 ^ mb" by (intro mult_right_mono) simp_all
      with 3 mx(2) show ?thesis by (simp add: algebra_simps) (smt (verit) uint_ge_0)
    qed (simp add: word_less_def)
  qed
  have conv: "fp32_bits_to_fp8_bits bits fmt =
     (if me < e \<or> (e = me \<and> mm < m) then or (sign8 (bit bits 31)) (f8_max_finite_bits fmt)
      else or (or (sign8 (bit bits 31)) (push_bit mb (word_of_int e))) (ucast m))"
  proof -
    have nz: "\<not> 0x7F800000 < f32_abs bits" "f32_abs bits \<noteq> 0x7F800000" "f32_abs bits \<noteq> 0"
      using abs E1 by (auto simp: word_less_def)
    have "(if drop_bit (mb + 1) (shift_round_even sg (23 - mb)) \<noteq> 0 then (ne + 1, 0)
        else (ne, and (shift_round_even sg (23 - mb)) (push_bit mb 1 - 1))) = (e, m)"
      unfolding carry e_def m_def by simp
    then show ?thesis
      using nz new
      unfolding fp32_bits_to_fp8_bits_def Let_def fp8_sign f32_abs_def [symmetric] ex ne_def [symmetric]
        mb_def [symmetric] sg_def [symmetric] me_def [symmetric] mm_def [symmetric]
      by simp
  qed
  have enn: "0 \<le> e" using new by (auto simp: e_def ne_def)
  show ?thesis
  proof (cases "me < e \<or> (e = me \<and> mm < m)")
    case True
    then have "min (uint (f8_max_finite_bits fmt)) ((ne - 1) * 2 ^ mb + R) = uint (f8_max_finite_bits fmt)"
      using over pat mx by simp
    with True show ?thesis unfolding conv mb_def [symmetric] mag by simp
  next
    case False
    then have le: "e * 2 ^ mb + uint m \<le> uint (f8_max_finite_bits fmt)" using over mx by simp
    then have mn: "min (uint (f8_max_finite_bits fmt)) ((ne - 1) * 2 ^ mb + R) = e * 2 ^ mb + uint m"
      using pat by simp
    have "e * 2 ^ mb + uint m < 128" using le mx(3) by linarith
    then show ?thesis
      unfolding conv if_not_P [OF False] mb_def [symmetric] mag mn by (rule fp8_assemble [OF enn mlt])
  qed
qed

text \<open>A value below the target's normal range, float32 subnormals included.\<close>

lemma fp8_encode_small:
  assumes sane: "fp8_sane fmt" and abs: "uint (f32_abs bits) = E * 2 ^ 23 + M" "0 \<le> M" "M < 2 ^ 23"
    and E: "0 \<le> E" "0 < E * 2 ^ 23 + M" and new: "E - 127 + f8_bias fmt < 1"
  shows "fp32_bits_to_fp8_bits bits fmt = or (sign8 (bit bits 31))
    (word_of_int (min (uint (f8_max_finite_bits fmt))
      (fp_mag (f8_mant_bits fmt) (1 - f8_bias fmt) (fp_value 23 (- 126) (E * 2 ^ 23 + M)))))"
proof -
  define mb where "mb = f8_mant_bits fmt"
  define ne where "ne = E - 127 + f8_bias fmt"
  define n where "n = 23 - mb + nat (1 - ne)"
  have mb: "2 \<le> mb" "mb \<le> 3" and bias: "1 \<le> f8_bias fmt" "f8_bias fmt \<le> 15"
    using sane by (auto simp: fp8_sane_def mb_def)
  define sg where "sg = or 0x00800000 (and (f32_abs bits) 0x007FFFFF)"
  have a: "(E * 2 ^ 23 + M) div 2 ^ 23 = E" "(E * 2 ^ 23 + M) mod 2 ^ 23 = M" using abs(2,3) by simp_all
  have sg: "uint sg = 2 ^ 23 + M" and ex: "uint (drop_bit 23 (f32_abs bits)) = E"
    unfolding sg_def fp8_significand uint_drop_bit abs(1) a by simp_all
  define R where "R = round_even (of_int (2 ^ 23 + M) / 2 ^ n)"
  have R: "uint (shift_round_even sg n) = R"
    using shift_round_even_correct [of sg n] abs(3) unfolding sg R_def by simp
  have mag: "fp_mag mb (1 - f8_bias fmt) (fp_value 23 (- 126) (E * 2 ^ 23 + M)) = R"
  proof (cases "E = 0")
    case False
    with E(1) have E1: "1 \<le> E" by simp
    have mx: "max (E - 127) (1 - f8_bias fmt) = 1 - f8_bias fmt" using new by simp
    have "nat (23 - int mb + (1 - f8_bias fmt - (E - 127))) = n"
      using mb new by (simp add: n_def ne_def nat_add_distrib nat_diff_distrib')
    with fp8_mag_normal [OF E1 abs(2,3) mb, of "1 - f8_bias fmt"] show ?thesis
      unfolding mx R_def by simp
  next
    case True
    have Mr: "(0 :: rat) < of_int M" "(of_int M :: rat) < 2 ^ 23"
      using E(2) abs(3) True by (simp, metis of_int_less_iff of_int_numeral of_int_power)
    define x where "x = fp_value 23 (- 126) M"
    have x: "x = of_int M * pow2 (- 149)" using abs(2,3) by (simp add: x_def fp_value_def)
    have "pow2 (- 126) = 2 ^ 23 * pow2 (- 149)" using pow2_add_nat [of "- 149" 23] by simp
    then have xb: "0 < x" "x < pow2 (- 126)" unfolding x using Mr by simp_all
    then have "pow2 (flog2 x) < pow2 (- 126)" using flog2_bounds [of x] by linarith
    then have "max (flog2 x) (1 - f8_bias fmt) = 1 - f8_bias fmt" using bias by simp
    moreover have "round_even (x / pow2 (1 - f8_bias fmt - int mb)) = 0"
    proof (rule round_even_small)
      show "0 \<le> x / pow2 (1 - f8_bias fmt - int mb)" using xb by (simp add: less_imp_le)
      have "pow2 (- 126) \<le> pow2 (- 18)" by simp
      moreover have "pow2 (- 17) = 2 * pow2 (- 18)" using pow2_Suc [of "- 18"] by simp
      moreover have "pow2 (- 17) \<le> pow2 (1 - f8_bias fmt - int mb)" using bias mb by simp
      ultimately have "2 * x < pow2 (1 - f8_bias fmt - int mb)" using xb(2) by linarith
      then show "x / pow2 (1 - f8_bias fmt - int mb) < 1 / 2" by (simp add: divide_less_eq)
    qed
    ultimately have m0: "fp_mag mb (1 - f8_bias fmt) x = 0" using xb by (simp add: fp_mag_def)
    have "31 < n" using True bias mb by (simp add: n_def ne_def)
    then have "R = 0" using R by (simp add: shift_round_even_def)
    with m0 True show ?thesis by (simp add: x_def)
  qed
  have Rb: "0 \<le> R" "R \<le> 2 ^ mb"
  proof -
    show "0 \<le> R" unfolding R [symmetric] by simp
    have n24: "24 - mb \<le> n" using new mb by (simp add: n_def ne_def)
    have Mr: "(of_int M :: rat) \<le> 2 ^ 23"
      using abs(3) by (metis of_int_le_iff of_int_numeral of_int_power less_imp_le)
    have "(2 :: rat) ^ mb * 2 ^ (24 - mb) = 2 ^ 24" using mb by (simp flip: power_add)
    moreover have "(2 :: rat) ^ mb * 2 ^ (24 - mb) \<le> 2 ^ mb * 2 ^ n"
      using n24 by (intro mult_left_mono power_increasing) simp_all
    ultimately have "(of_int (2 ^ 23 + M) / 2 ^ n :: rat) \<le> of_int (2 ^ mb)"
      using Mr by (simp add: pos_divide_le_eq)
    from round_even_mono [OF this] show "R \<le> 2 ^ mb" unfolding R_def by (simp only: round_even_int)
  qed
  have le: "R \<le> uint (f8_max_finite_bits fmt)"
  proof -
    have "(2 ^ mb :: int) * 1 \<le> 2 ^ mb * f8_max_normal_exp fmt"
      using sane by (intro mult_left_mono) (simp_all add: fp8_sane_def)
    moreover have "uint (f8_max_finite_bits fmt) = 2 ^ mb * f8_max_normal_exp fmt + uint (f8_max_normal_mant fmt)"
      using sane by (simp add: fp8_sane_def mb_def mult.commute)
    ultimately show ?thesis using Rb(2) uint_ge_0 [of "f8_max_normal_mant fmt"] by linarith
  qed
  have m: "ucast (shift_round_even sg n) = (word_of_int R :: 8 word)"
    by (simp flip: R)
  have conv: "fp32_bits_to_fp8_bits bits fmt = or (sign8 (bit bits 31)) (ucast (shift_round_even sg n))"
  proof -
    have "E < 127" using new bias by linarith
    then have "uint (f32_abs bits) < 0x7F800000" "0 < uint (f32_abs bits)" using abs E by simp_all
    then have nz: "\<not> 0x7F800000 < f32_abs bits" "f32_abs bits \<noteq> 0x7F800000" "f32_abs bits \<noteq> 0"
      by (auto simp: word_less_def)
    show ?thesis
      using nz new
      unfolding fp32_bits_to_fp8_bits_def Let_def fp8_sign f32_abs_def [symmetric] ex ne_def [symmetric]
        mb_def [symmetric] sg_def [symmetric] n_def [symmetric]
      by simp
  qed
  show ?thesis unfolding conv m mb_def [symmetric] mag min_absorb2 [OF le] ..
qed

text \<open>
  C35. The quantizer is the correctly rounded cast to its format: for every float32 the sign is kept
  and the magnitude becomes the nearest float8 pattern, ties to even, subnormals included; a
  finite value beyond the range saturates at the largest finite pattern; a NaN stays a NaN and an
  infinity becomes the format's infinity or, where it has none, NaN.
\<close>

theorem fp8_encode_correct:
  assumes "fmt = e4m3fn \<or> fmt = e5m2"
  shows "fp32_bits_to_fp8_bits bits fmt = fp8_reference fmt (f32_val bits) (bit bits 31)"
proof -
  have sane: "fp8_sane fmt" using assms fp8_formats_sane by blast
  let ?a = "uint (f32_abs bits)"
  have fold: "uint (and bits 0x7FFFFFFF) = ?a" by (simp add: f32_abs_def)
  consider "?a > 0x7F800000" | "?a = 0x7F800000" | "?a = 0" | "0 < ?a" "?a < 0x7F800000"
    using uint_ge_0 [of "f32_abs bits"] by linarith
  then show ?thesis
  proof cases
    case 1
    then have "0x7F800000 < f32_abs bits" by (simp add: word_less_def)
    then have "fp32_bits_to_fp8_bits bits fmt = or (sign8 (bit bits 31)) (f8_nan_bits fmt)"
      unfolding fp32_bits_to_fp8_bits_def Let_def fp8_sign f32_abs_def [symmetric] by simp
    with 1 show ?thesis by (simp add: fp8_reference_def f32_val_def f32_abs_def)
  next
    case 2
    then have "f32_abs bits = 0x7F800000" by (metis word_of_int_uint word_of_int_numeral)
    then have "fp32_bits_to_fp8_bits bits fmt = or (sign8 (bit bits 31))
        (if f8_has_inf fmt then f8_inf_bits fmt else f8_nan_bits fmt)"
      unfolding fp32_bits_to_fp8_bits_def Let_def fp8_sign f32_abs_def [symmetric] by simp
    with 2 show ?thesis by (simp add: fp8_reference_def f32_val_def f32_abs_def)
  next
    case 3
    then have "f32_abs bits = 0" by (simp add: unsigned_eq_0_iff)
    then have "fp32_bits_to_fp8_bits bits fmt = sign8 (bit bits 31)"
      unfolding fp32_bits_to_fp8_bits_def Let_def fp8_sign f32_abs_def [symmetric] by simp
    moreover have "fp_value 23 (- 126) 0 = 0" by (simp add: fp_value_def)
    ultimately show ?thesis
      using 3 by (simp add: fp8_reference_def f32_val_def fp_mag_def fold)
  next
    case 4
    define E M where "E = ?a div 2 ^ 23" and "M = ?a mod 2 ^ 23"
    have a: "?a = E * 2 ^ 23 + M" by (simp only: E_def M_def div_mult_mod_eq)
    have M: "0 \<le> M" "M < 2 ^ 23" by (simp_all add: M_def)
    have E: "0 \<le> E" "E < 255"
      using 4 by (simp_all add: E_def pos_imp_zdiv_nonneg_iff div_less_iff_less_mult)
    have "fp32_bits_to_fp8_bits bits fmt = or (sign8 (bit bits 31))
      (word_of_int (min (uint (f8_max_finite_bits fmt))
        (fp_mag (f8_mant_bits fmt) (1 - f8_bias fmt) (fp_value 23 (- 126) (E * 2 ^ 23 + M)))))"
    proof (cases "1 \<le> E - 127 + f8_bias fmt")
      case True
      with fp8_encode_normal [OF sane a M E(2)] show ?thesis .
    next
      case False
      with fp8_encode_small [OF sane a M E(1)] 4 a show ?thesis by simp
    qed
    from this [folded a] 4 show ?thesis by (simp add: fp8_reference_def f32_val_def fold)
  qed
qed

theorem fp8_encode_correct_witness:
  "fp32_bits_to_fp8_bits 0x43E80000 e4m3fn = fp8_reference e4m3fn (f32_val 0x43E80000) (bit (0x43E80000 :: 32 word) 31)"
  by (rule fp8_encode_correct) simp

end
