(* ===== verification/Cast.thy ===== *)
theory Cast
  imports CastPolicy CastBits
begin

text \<open>
  Casting whole tensors, the rest of \<^verbatim>\<open>src/src/cast.rs\<close>: the conversions of byte buffers, chunk by
  chunk as the code runs them, the per-tensor float8 scale, and the dispatch on the way in
  (\<^verbatim>\<open>cast_tensor\<close>) and out (\<^verbatim>\<open>uncast_tensor\<close>).
\<close>

section \<open>Buffers\<close>

definition cast_chunk :: nat where
  "cast_chunk = 16384"

text \<open>\<open>f\<close> on every element of \<open>n\<close> bytes, in pieces of \<open>cast_chunk\<close> elements.\<close>

definition convert_chunks :: "nat \<Rightarrow> (bytes \<Rightarrow> bytes) \<Rightarrow> bytes \<Rightarrow> bytes" where
  "convert_chunks n f data =
     concat (map (\<lambda>src. concat (map (\<lambda>i. f (take n (drop (i * n) src))) [0..<length src div n]))
       (chunks (cast_chunk * n) data))"

definition length_error :: moonclip_error where
  "length_error = ConfigErr ''data length is not a multiple''"

definition fp32_to_bf16 :: "bytes \<Rightarrow> bytes result" where
  "fp32_to_bf16 data =
     (if length data mod 4 \<noteq> 0 then Inl length_error
      else Inr (convert_chunks 4 (\<lambda>q. le_bytes 2 (fp32_bits_to_bf16_bits (of_le q))) data))"

definition bf16_to_fp32 :: "bytes \<Rightarrow> bytes result" where
  "bf16_to_fp32 data =
     (if length data mod 2 \<noteq> 0 then Inl length_error
      else Inr (convert_chunks 2 (\<lambda>q. [0, 0, q ! 0, q ! 1]) data))"

definition fp32_to_fp16 :: "bytes \<Rightarrow> bytes result" where
  "fp32_to_fp16 data =
     (if length data mod 4 \<noteq> 0 then Inl length_error
      else Inr (convert_chunks 4 (\<lambda>q. le_bytes 2 (fp32_bits_to_fp16_bits (of_le q))) data))"

definition fp16_to_fp32 :: "bytes \<Rightarrow> bytes result" where
  "fp16_to_fp32 data =
     (if length data mod 2 \<noteq> 0 then Inl length_error
      else Inr (convert_chunks 2 (\<lambda>q. le_bytes 4 (fp16_bits_to_fp32_bits (of_le q))) data))"

definition fp64_to_fp32 :: "bytes \<Rightarrow> bytes result" where
  "fp64_to_fp32 data =
     (if length data mod 8 \<noteq> 0 then Inl length_error
      else Inr (concat (map (\<lambda>c. le_bytes 4 (f32_of (f64_val (of_le c)))) (chunks 8 data))))"

definition fp32_to_fp64 :: "bytes \<Rightarrow> bytes result" where
  "fp32_to_fp64 data =
     (if length data mod 4 \<noteq> 0 then Inl length_error
      else Inr (concat (map (\<lambda>c. le_bytes 8 (f64_of (f32_val (of_le c)))) (chunks 4 data))))"

section \<open>The float8 scale\<close>

text \<open>Comparison of two numbers; the code only compares finite magnitudes.\<close>

fun fval_less :: "fval \<Rightarrow> fval \<Rightarrow> bool" where
  "fval_less (FFin s x) (FFin t y) \<longleftrightarrow> (if s then - x else x) < (if t then - y else y)"
| "fval_less (FInf s) (FInf t) \<longleftrightarrow> s \<and> \<not> t"
| "fval_less (FInf s) (FFin t y) \<longleftrightarrow> s"
| "fval_less (FFin s x) (FInf t) \<longleftrightarrow> \<not> t"
| "fval_less FNaN b \<longleftrightarrow> False"
| "fval_less a FNaN \<longleftrightarrow> False"

definition f32_less :: "32 word \<Rightarrow> 32 word \<Rightarrow> bool" where
  "f32_less a b = fval_less (f32_val a) (f32_val b)"

definition finite_amax :: "bytes \<Rightarrow> 32 word" where
  "finite_amax fp32 =
     fold (\<lambda>l acc. if f32_less acc l then l else acc)
       (map (\<lambda>chunk. fold (\<lambda>q acc. let v = of_le q :: 32 word; a = f32_abs v in
                 if f32_is_finite v \<and> f32_less acc a then a else acc)
               (filter (\<lambda>q. length q = 4) (chunks 4 chunk)) 0)
         (chunks (cast_chunk * 4) fp32)) 0"

definition f32_one :: "32 word" where
  "f32_one = 0x3F800000"

definition fp8_scale :: "bytes \<Rightarrow> fp8_format \<Rightarrow> 32 word" where
  "fp8_scale fp32 fmt =
     (let scale = f32_div (finite_amax fp32) (f8_max_finite fmt)
      in if f32_is_normal scale then scale else f32_one)"

definition fp32_to_fp8 :: "bytes \<Rightarrow> fp8_format \<Rightarrow> 32 word \<Rightarrow> bytes result" where
  "fp32_to_fp8 data fmt scale =
     (if length data mod 4 \<noteq> 0 then Inl length_error
      else let inv = f32_div f32_one scale
        in Inr (convert_chunks 4 (\<lambda>q. [fp32_bits_to_fp8_bits (f32_mul (of_le q) inv) fmt]) data))"

fun fval_neg :: "fval \<Rightarrow> fval" where
  "fval_neg (FFin s x) = FFin (\<not> s) x"
| "fval_neg (FInf s) = FInf (\<not> s)"
| "fval_neg FNaN = FNaN"

definition fp8_decode_table :: "fp8_format \<Rightarrow> 32 word \<Rightarrow> 32 word list" where
  "fp8_decode_table fmt scale =
     map (\<lambda>b. let magnitude = fp8_magnitude fmt b;
                  signed = (if 128 \<le> b then fval_neg magnitude else magnitude)
              in f32_mul (f32_of signed) scale) [0..<256]"

definition fp8_to_fp32 :: "bytes \<Rightarrow> fp8_format \<Rightarrow> 32 word \<Rightarrow> bytes result" where
  "fp8_to_fp32 data fmt scale =
     (let table = fp8_decode_table fmt scale in
      Inr (concat (map (\<lambda>src. concat (map (\<lambda>b. le_bytes 4 (table ! unat b)) src))
        (chunks cast_chunk data))))"

section \<open>Dispatch\<close>

definition is_castable_float :: "string \<Rightarrow> bool" where
  "is_castable_float d \<longleftrightarrow> d = ''float32'' \<or> d = ''float16'' \<or> d = ''bfloat16'' \<or> d = ''float64''"

definition fp8_format_for :: "string \<Rightarrow> fp8_format option" where
  "fp8_format_for d =
     (if d = ''float8_e4m3fn'' then Some e4m3fn
      else if d = ''float8_e5m2'' then Some e5m2 else None)"

fun dtype_fp8_format :: "dtype \<Rightarrow> fp8_format option" where
  "dtype_fp8_format Float8E4M3 = Some e4m3fn"
| "dtype_fp8_format Float8E5M2 = Some e5m2"
| "dtype_fp8_format _ = None"

definition widen_to_fp32 :: "bytes \<Rightarrow> string \<Rightarrow> bytes result" where
  "widen_to_fp32 data src =
     (if src = ''float32'' then Inr data
      else if src = ''bfloat16'' then bf16_to_fp32 data
      else if src = ''float16'' then fp16_to_fp32 data
      else if src = ''float64'' then fp64_to_fp32 data
      else Inl (ConfigErr ''not a float dtype this build can cast''))"

definition narrow_from_fp32 :: "bytes \<Rightarrow> string \<Rightarrow> bytes result" where
  "narrow_from_fp32 data dst =
     (if dst = ''float32'' then Inr data
      else if dst = ''bfloat16'' then fp32_to_bf16 data
      else if dst = ''float16'' then fp32_to_fp16 data
      else if dst = ''float64'' then fp32_to_fp64 data
      else Inl (ConfigErr ''not a float dtype this build can cast''))"

definition cast_tensor :: "bytes \<Rightarrow> string \<Rightarrow> dtype \<Rightarrow> (bytes \<times> string \<times> 32 word option) result" where
  "cast_tensor data src_dtype target =
     (if target = DTypeNone then Inr (data, src_dtype, None)
      else let target_name = dtype_str target in
        if src_dtype = target_name \<or> \<not> is_castable_float src_dtype then Inr (data, src_dtype, None)
        else case dtype_fp8_format target of
          Some fmt \<Rightarrow>
            bind_res (if src_dtype = ''float32'' then Inr data else widen_to_fp32 data src_dtype) (\<lambda>wide.
              let scale = fp8_scale wide fmt
              in bind_res (fp32_to_fp8 wide fmt scale) (\<lambda>out. Inr (out, target_name, Some scale)))
        | None \<Rightarrow>
            if src_dtype = ''float32'' then
              bind_res (narrow_from_fp32 data target_name) (\<lambda>out. Inr (out, target_name, None))
            else bind_res (widen_to_fp32 data src_dtype) (\<lambda>wide.
              bind_res (narrow_from_fp32 wide target_name) (\<lambda>out. Inr (out, target_name, None))))"

definition uncast_tensor :: "bytes \<Rightarrow> string \<Rightarrow> string \<Rightarrow> 32 word option \<Rightarrow> bytes result" where
  "uncast_tensor data stored_dtype original_dtype scale =
     (if stored_dtype = original_dtype then Inr data
      else case fp8_format_for stored_dtype of
        Some fmt \<Rightarrow>
          bind_res (ok_or scale (ConfigErr ''tensor carries no quant_scale'')) (\<lambda>sc.
            bind_res (fp8_to_fp32 data fmt sc) (\<lambda>fp32.
              if original_dtype = ''float32'' then Inr fp32 else narrow_from_fp32 fp32 original_dtype))
      | None \<Rightarrow>
          if \<not> is_castable_float stored_dtype \<or> \<not> is_castable_float original_dtype then Inr data
          else if stored_dtype = ''float32'' then narrow_from_fp32 data original_dtype
          else if original_dtype = ''float32'' then widen_to_fp32 data stored_dtype
          else bind_res (widen_to_fp32 data stored_dtype) (\<lambda>wide. narrow_from_fp32 wide original_dtype))"

section \<open>Buffers, element by element\<close>

lemma cast_chunk_pos [simp]: "0 < cast_chunk"
  by (simp add: cast_chunk_def)

text \<open>The pieces do not show: a buffer of whole elements is converted element by element.\<close>

lemma convert_chunks_eq:
  assumes "0 < n" and "length data mod n = 0"
  shows "convert_chunks n f data = concat (map f (chunks n data))"
proof -
  have elems: "map (\<lambda>i. take n (drop (i * n) src)) [0..<length src div n] = chunks n src"
    if "src \<in> set (chunks (cast_chunk * n) data)" for src
    using chunks_nested_mod [OF assms that] by (intro chunks_by_index assms(1))
  have "map (\<lambda>i. f (take n (drop (i * n) src))) [0..<length src div n] = map f (chunks n src)"
    if "src \<in> set (chunks (cast_chunk * n) data)" for src
    using arg_cong [OF elems [OF that], of "map f"] by (simp add: comp_def)
  then have "convert_chunks n f data = concat (map (\<lambda>src. concat (map f (chunks n src))) (chunks (cast_chunk * n) data))"
    unfolding convert_chunks_def by (intro arg_cong [of _ _ concat] map_cong) simp_all
  also have "\<dots> = concat (map f (concat (map (chunks n) (chunks (cast_chunk * n) data))))"
    by (simp add: map_concat concat_map_concat comp_def)
  finally show ?thesis by (simp add: chunks_nested assms(1))
qed

lemma length_convert_chunks:
  assumes "0 < n" and "length data mod n = 0" and "\<And>c. length c = n \<Longrightarrow> length (f c) = m"
  shows "length (convert_chunks n f data) = m * (length data div n)"
  using assms by (simp add: convert_chunks_eq length_chunkwise)

text \<open>Every conversion succeeds on whole elements, and says how long its result is.\<close>

definition float_size :: "string \<Rightarrow> nat" where
  "float_size d = (if d = ''float64'' then 8 else if d = ''float32'' then 4 else 2)"

lemma widen_ok_iff:
  "is_castable_float d \<Longrightarrow> (\<exists>out. widen_to_fp32 data d = Inr out) \<longleftrightarrow>
     d = ''float32'' \<or> length data mod float_size d = 0"
  by (auto simp: is_castable_float_def widen_to_fp32_def bf16_to_fp32_def fp16_to_fp32_def
      fp64_to_fp32_def float_size_def)

lemma mult_div_back: "k mod n = 0 \<Longrightarrow> n * (k div n) = (k :: nat)"
  by (simp add: mod_eq_0_iff_dvd)

lemma widen_length:
  "widen_to_fp32 data d = Inr out \<Longrightarrow> length out * float_size d = length data * 4"
  by (auto simp: widen_to_fp32_def bf16_to_fp32_def fp16_to_fp32_def fp64_to_fp32_def float_size_def
      length_convert_chunks [where m = 4] length_chunkwise [where m = 4] mod_eq_0_iff_dvd
      split: if_splits)

lemma narrow_length:
  "narrow_from_fp32 data d = Inr out \<Longrightarrow> length out * 4 = length data * float_size d"
  by (auto simp: narrow_from_fp32_def fp32_to_bf16_def fp32_to_fp16_def fp32_to_fp64_def float_size_def
      length_convert_chunks [where m = 2] length_chunkwise [where m = 8] mod_eq_0_iff_dvd
      split: if_splits)

lemma narrow_whole:
  assumes "narrow_from_fp32 data d = Inr out"
  shows "d = ''float32'' \<or> length out mod float_size d = 0"
proof (cases "d = ''float32''")
  case False
  with assms have "length data mod 4 = 0"
    by (simp add: narrow_from_fp32_def fp32_to_bf16_def fp32_to_fp16_def fp32_to_fp64_def split: if_splits)
  then obtain k where "length data = 4 * k" by (metis mod_eq_0_iff_dvd dvdE)
  with narrow_length [OF assms] have "length out = k * float_size d" by simp
  then show ?thesis by simp
qed simp

lemma narrow_ok:
  "is_castable_float d \<Longrightarrow> length data mod 4 = 0 \<Longrightarrow> \<exists>out. narrow_from_fp32 data d = Inr out"
  by (auto simp: is_castable_float_def narrow_from_fp32_def fp32_to_bf16_def fp32_to_fp16_def
      fp32_to_fp64_def)

lemma concat_map_pieces: "concat (map (\<lambda>src. concat (map g src)) css) = concat (map g (concat css))"
  by (induction css) simp_all

lemma fp8_to_fp32_eq:
  "fp8_to_fp32 data fmt sc = Inr (concat (map (\<lambda>b. le_bytes 4 (fp8_decode_table fmt sc ! unat b)) data))"
  by (simp add: fp8_to_fp32_def concat_map_pieces)

lemma fp8_to_fp32_length: "fp8_to_fp32 data fmt sc = Inr out \<Longrightarrow> length out = 4 * length data"
  by (auto simp: fp8_to_fp32_eq length_concat comp_def sum_list_triv)

lemma fp32_to_fp8_length: "fp32_to_fp8 data fmt sc = Inr out \<Longrightarrow> length data = 4 * length out"
  by (auto simp: fp32_to_fp8_def Let_def length_convert_chunks [where m = 1] mod_eq_0_iff_dvd split: if_splits)

lemma widen_then_narrow_length:
  assumes "is_castable_float src" and "widen_to_fp32 data src = Inr wide" and "length wide' = length wide"
  shows "\<exists>restored. narrow_from_fp32 wide' src = Inr restored \<and> length restored = length data"
proof -
  have len: "length wide * float_size src = length data * 4" using assms(2) by (rule widen_length)
  show ?thesis
  proof (cases "src = ''float32''")
    case True
    with assms(2,3) show ?thesis by (simp add: widen_to_fp32_def narrow_from_fp32_def)
  next
    case False
    with assms(1,2) have "length data mod float_size src = 0"
      using widen_ok_iff by blast
    then obtain k where k: "length data = float_size src * k" by (metis mod_eq_0_iff_dvd dvdE)
    then have "float_size src * (length wide) = float_size src * (4 * k)" using len by (simp add: mult_ac)
    moreover have "0 < float_size src" by (simp add: float_size_def)
    ultimately have "length wide' mod 4 = 0" using assms(3) by simp
    then obtain restored where restored: "narrow_from_fp32 wide' src = Inr restored"
      using narrow_ok [OF assms(1), of wide'] by auto
    have "length restored * 4 = length data * 4" using narrow_length [OF restored] assms(3) len by simp
    with restored show ?thesis by simp
  qed
qed

text \<open>Both directions go through float32; the shortcuts for float32 itself are the same thing.\<close>

lemma widen_float32 [simp]: "widen_to_fp32 data ''float32'' = Inr data"
  and narrow_float32 [simp]: "narrow_from_fp32 data ''float32'' = Inr data"
  by (simp_all add: widen_to_fp32_def narrow_from_fp32_def)

lemma cast_tensor_plain:
  assumes "target \<noteq> DTypeNone" "src \<noteq> dtype_str target" "is_castable_float src"
    and "dtype_fp8_format target = None"
  shows "cast_tensor data src target = bind_res (widen_to_fp32 data src) (\<lambda>wide.
    bind_res (narrow_from_fp32 wide (dtype_str target)) (\<lambda>out. Inr (out, dtype_str target, None)))"
  using assms by (cases "src = ''float32''") (simp_all add: cast_tensor_def Let_def)

lemma cast_tensor_fp8:
  assumes "target \<noteq> DTypeNone" "src \<noteq> dtype_str target" "is_castable_float src"
    and "dtype_fp8_format target = Some fmt"
  shows "cast_tensor data src target = bind_res (widen_to_fp32 data src) (\<lambda>wide.
    bind_res (fp32_to_fp8 wide fmt (fp8_scale wide fmt))
      (\<lambda>out. Inr (out, dtype_str target, Some (fp8_scale wide fmt))))"
  using assms by (cases "src = ''float32''") (simp_all add: cast_tensor_def Let_def)

lemma uncast_tensor_plain:
  assumes "stored \<noteq> original" "fp8_format_for stored = None"
    and "is_castable_float stored" "is_castable_float original"
  shows "uncast_tensor data stored original scale
    = bind_res (widen_to_fp32 data stored) (\<lambda>wide. narrow_from_fp32 wide original)"
proof -
  have "bind_res r Inr = r" for r :: "bytes result" by (cases r) simp_all
  with assms show ?thesis
    by (cases "stored = ''float32''"; cases "original = ''float32''")
      (simp_all add: uncast_tensor_def cong: if_cong)
qed

lemma uncast_of_cast:
  assumes "cast_tensor data src_dtype target = Inr (out, stored, scale)"
  shows "\<exists>restored. uncast_tensor out stored src_dtype scale = Inr restored \<and> length restored = length data"
proof (cases "target = DTypeNone \<or> src_dtype = dtype_str target \<or> \<not> is_castable_float src_dtype")
  case True
  with assms show ?thesis by (auto simp: cast_tensor_def uncast_tensor_def Let_def split: if_splits)
next
  case False
  then have t: "target \<noteq> DTypeNone" "src_dtype \<noteq> dtype_str target" and src: "is_castable_float src_dtype"
    by simp_all
  show ?thesis
  proof (cases "dtype_fp8_format target")
    case (Some fmt)
    obtain wide sc where wide: "widen_to_fp32 data src_dtype = Inr wide"
      and out: "fp32_to_fp8 wide fmt sc = Inr out" and res: "stored = dtype_str target" "scale = Some sc"
      using assms unfolding cast_tensor_fp8 [OF t src Some] by (auto simp: effect_simps)
    have fmt: "fp8_format_for stored = Some fmt"
      using Some by (cases target) (auto simp: res fp8_format_for_def)
    obtain fp32 where fp32: "fp8_to_fp32 out fmt sc = Inr fp32" by (simp add: fp8_to_fp32_eq)
    have len: "length fp32 = length wide"
      using fp8_to_fp32_length [OF fp32] fp32_to_fp8_length [OF out] by simp
    obtain restored where "narrow_from_fp32 fp32 src_dtype = Inr restored" "length restored = length data"
      using widen_then_narrow_length [OF src wide len] by blast
    moreover have "uncast_tensor out stored src_dtype scale = narrow_from_fp32 fp32 src_dtype"
      using fmt t res fp32
      by (cases "src_dtype = ''float32''") (simp_all add: uncast_tensor_def)
    ultimately show ?thesis by simp
  next
    case None
    then have cast: "is_castable_float (dtype_str target)" using t(1)
      by (cases target) (simp_all add: is_castable_float_def)
    have nofmt: "fp8_format_for (dtype_str target) = None"
      using None t(1) by (cases target) (simp_all add: fp8_format_for_def)
    obtain wide where wide: "widen_to_fp32 data src_dtype = Inr wide"
      and out: "narrow_from_fp32 wide (dtype_str target) = Inr out"
      and res: "stored = dtype_str target" "scale = None"
      using assms unfolding cast_tensor_plain [OF t src None] by (auto simp: effect_simps)
    have len: "length out * 4 = length wide * float_size (dtype_str target)" by (rule narrow_length [OF out])
    have "dtype_str target = ''float32'' \<or> length out mod float_size (dtype_str target) = 0"
      by (rule narrow_whole [OF out])
    then obtain wide' where wide': "widen_to_fp32 out (dtype_str target) = Inr wide'"
      by (metis widen_ok_iff [OF cast])
    have "length wide' * float_size (dtype_str target) = length wide * float_size (dtype_str target)"
      using widen_length [OF wide'] len by simp
    then have "length wide' = length wide" by (simp add: float_size_def split: if_splits)
    then obtain restored where "narrow_from_fp32 wide' src_dtype = Inr restored" "length restored = length data"
      using widen_then_narrow_length [OF src wide] by blast
    then show ?thesis
      using wide' uncast_tensor_plain [OF _ nofmt cast src] t(2) res by auto
  qed
qed

text \<open>Bytes per element, and the dtype a cast records.\<close>

definition item_size :: "string \<Rightarrow> nat" where
  "item_size d = (if fp8_format_for d = None then float_size d else 1)"

definition stored_as :: "string \<Rightarrow> dtype \<Rightarrow> string" where
  "stored_as src target = (if target = DTypeNone then src else dtype_str target)"

lemma cast_items:
  assumes src: "is_castable_float src" and len: "length data = n * item_size src"
  shows "\<exists>out scale. cast_tensor data src target = Inr (out, stored_as src target, scale)
    \<and> length out = n * item_size (stored_as src target)
    \<and> (scale = None \<longleftrightarrow> fp8_format_for (stored_as src target) = None)"
proof -
  have plain: "fp8_format_for src = None" and size: "length data = n * float_size src"
    using src len by (auto simp: is_castable_float_def fp8_format_for_def item_size_def)
  show ?thesis
  proof (cases "target = DTypeNone \<or> src = dtype_str target")
    case True
    then show ?thesis using len plain by (auto simp: cast_tensor_def stored_as_def)
  next
    case False
    then have t: "target \<noteq> DTypeNone" "src \<noteq> dtype_str target" by simp_all
    obtain wide where wide: "widen_to_fp32 data src = Inr wide"
      using widen_ok_iff [OF src] size by fastforce
    have "length wide * float_size src = (4 * n) * float_size src" using widen_length [OF wide] size by (simp add: mult_ac)
    then have four: "length wide = 4 * n" by (simp add: float_size_def mult.commute split: if_splits)
    show ?thesis
    proof (cases "dtype_fp8_format target")
      case (Some fmt)
      obtain out where out: "fp32_to_fp8 wide fmt (fp8_scale wide fmt) = Inr out"
        using four by (simp add: fp32_to_fp8_def Let_def)
      have fmt: "fp8_format_for (dtype_str target) = Some fmt"
        using Some by (cases target) (auto simp: fp8_format_for_def)
      show ?thesis
        using t wide out fp32_to_fp8_length [OF out] four
        by (simp add: cast_tensor_fp8 [OF t src Some] item_size_def stored_as_def fmt)
    next
      case None
      then have cast: "is_castable_float (dtype_str target)" and nofmt: "fp8_format_for (dtype_str target) = None"
        using t(1) by (cases target; simp add: is_castable_float_def fp8_format_for_def)+
      obtain out where out: "narrow_from_fp32 wide (dtype_str target) = Inr out"
        using narrow_ok [OF cast, of wide] four by auto
      show ?thesis
        using t wide out narrow_length [OF out] four
        by (simp add: cast_tensor_plain [OF t src None] item_size_def stored_as_def nofmt)
    qed
  qed
qed

text \<open>
  Tensors keep their type through a cast: \<open>n\<close> elements of a float dtype are always cast, to \<open>n\<close>
  elements of the dtype that is recorded, with a scale exactly when that is a float8 format; and
  from what was recorded the cast back always succeeds and gives \<open>n\<close> elements of the dtype that was
  there. So neither direction can fail on a tensor whose length fits its shape.
\<close>

theorem cast_typed:
  assumes "is_castable_float src" and "length data = n * item_size src"
  shows "\<exists>out scale restored. cast_tensor data src target = Inr (out, stored_as src target, scale)
    \<and> length out = n * item_size (stored_as src target)
    \<and> (scale = None \<longleftrightarrow> fp8_format_for (stored_as src target) = None)
    \<and> uncast_tensor out (stored_as src target) src scale = Inr restored
    \<and> length restored = n * item_size src"
proof -
  obtain out scale where c: "cast_tensor data src target = Inr (out, stored_as src target, scale)"
      "length out = n * item_size (stored_as src target)"
      "scale = None \<longleftrightarrow> fp8_format_for (stored_as src target) = None"
    using cast_items [OF assms] by blast
  with uncast_of_cast [OF c(1)] assms(2) show ?thesis by auto
qed

theorem cast_typed_witness:
  "\<exists>out scale restored. cast_tensor [0, 0, 128, 63, 0, 0, 0, 64] ''float32'' Float8E4M3 = Inr (out, ''float8_e4m3fn'', Some scale)
     \<and> length out = 2 \<and> uncast_tensor out ''float8_e4m3fn'' ''float32'' (Some scale) = Inr restored \<and> length restored = 8"
  using cast_typed [of "''float32''" "[0, 0, 128, 63, 0, 0, 0, 64]" 2 Float8E4M3]
  by (auto simp: stored_as_def is_castable_float_def item_size_def fp8_format_for_def float_size_def)

section \<open>bfloat16 does not drift\<close>

lemma chunks_map_concat:
  assumes "0 < m" and "\<And>c. c \<in> set cs \<Longrightarrow> length (f c) = m"
  shows "chunks m (concat (map f cs)) = map f cs"
  using assms by (intro chunks_concat) auto

lemma bf16_bytes: "length q = 2 \<Longrightarrow> [0, 0, q ! 0, q ! 1] = le_bytes 4 (bf16_bits_to_fp32_bits (of_le q))"
proof -
  assume len: "length q = 2"
  then obtain a b where q: "q = [a, b]" by (cases q; cases "tl q") (auto simp: length_Suc_conv)
  have "of_le [0, 0, a, b] = bf16_bits_to_fp32_bits (of_le [a, b])"
    by (rule bit_word_eqI) (auto simp: bf16_bits_to_fp32_bits_def bit_push_bit_iff bit_or_iff bit_ucast_iff
        dest: bit_imp_le_length)
  then show ?thesis using le_bytes_of_le [of "[0, 0, a, b]" 4, where 'a = 32] by (simp add: q)
qed

lemma bf16_again:
  "fp32_bits_to_bf16_bits (bf16_bits_to_fp32_bits (fp32_bits_to_bf16_bits bits)) = fp32_bits_to_bf16_bits bits"
proof -
  let ?b = "fp32_bits_to_bf16_bits bits"
  have nan: "f32_is_nan (bf16_bits_to_fp32_bits ?b) \<longleftrightarrow> bf16_is_nan ?b"
    by (rule bf16_widen_nan)
  show ?thesis
  proof (cases "f32_is_nan bits")
    case True
    then show ?thesis using bf16_narrow_widen [of ?b] bf16_nan_iff [of bits] bf16_quiet [OF True] by simp
  next
    case False
    then show ?thesis using bf16_narrow_widen [of ?b] bf16_nan_iff [of bits] by simp
  qed
qed

lemma fp32_to_bf16_eq:
  "length data mod 4 = 0 \<Longrightarrow> fp32_to_bf16 data
    = Inr (concat (map (\<lambda>q. le_bytes 2 (fp32_bits_to_bf16_bits (of_le q))) (chunks 4 data)))"
  by (simp add: fp32_to_bf16_def convert_chunks_eq)

lemma bf16_to_fp32_eq:
  assumes "length data mod 2 = 0"
  shows "bf16_to_fp32 data
    = Inr (concat (map (\<lambda>q. le_bytes 4 (bf16_bits_to_fp32_bits (of_le q))) (chunks 2 data)))"
proof -
  have "[0, 0, q ! 0, q ! 1] = le_bytes 4 (bf16_bits_to_fp32_bits (of_le q))" if "q \<in> set (chunks 2 data)" for q
    using chunks_full [OF _ assms that] by (intro bf16_bytes) simp
  then show ?thesis using assms by (simp add: bf16_to_fp32_def convert_chunks_eq cong: map_cong)
qed

text \<open>
  A checkpoint in bfloat16 does not drift: cast a float32 tensor for saving, load it, and save
  what was loaded, and the same bytes are written again, for every buffer of floats.
\<close>

theorem bf16_resave:
  assumes "cast_tensor data ''float32'' BFloat16 = Inr (saved, stored, scale)"
  shows "\<exists>loaded. uncast_tensor saved stored ''float32'' scale = Inr loaded
    \<and> cast_tensor loaded ''float32'' BFloat16 = Inr (saved, stored, scale)"
proof -
  let ?f = "\<lambda>q. le_bytes 2 (fp32_bits_to_bf16_bits (of_le q))"
  let ?g = "\<lambda>q. le_bytes 4 (bf16_bits_to_fp32_bits (of_le q))"
  have cast: "cast_tensor d ''float32'' BFloat16
      = bind_res (fp32_to_bf16 d) (\<lambda>out. Inr (out, ''bfloat16'', None))" for d
    by (simp add: cast_tensor_def is_castable_float_def narrow_from_fp32_def)
  have uncast: "uncast_tensor d ''bfloat16'' ''float32'' sc = bf16_to_fp32 d" for d sc
    by (simp add: uncast_tensor_def fp8_format_for_def is_castable_float_def widen_to_fp32_def)
  have len: "length data mod 4 = 0" and saved: "fp32_to_bf16 data = Inr saved"
    and st: "stored = ''bfloat16''" "scale = None"
    using assms by (auto simp: cast effect_simps fp32_to_bf16_def split: if_splits)
  have s: "saved = concat (map ?f (chunks 4 data))" using saved fp32_to_bf16_eq [OF len] by simp
  have c2: "chunks 2 saved = map ?f (chunks 4 data)" unfolding s by (intro chunks_map_concat) simp_all
  have "length saved mod 2 = 0" unfolding s by (subst length_concat_const [of _ 2]) auto
  then have loaded: "bf16_to_fp32 saved = Inr (concat (map ?g (map ?f (chunks 4 data))))"
    by (simp add: bf16_to_fp32_eq c2)
  let ?l = "concat (map ?g (map ?f (chunks 4 data)))"
  have c4: "chunks 4 ?l = map ?g (map ?f (chunks 4 data))" by (intro chunks_map_concat) simp_all
  have "length ?l mod 4 = 0" by (subst length_concat_const [of _ 4]) auto
  then have "fp32_to_bf16 ?l = Inr (concat (map ?f (map ?g (map ?f (chunks 4 data)))))"
    by (simp only: fp32_to_bf16_eq c4)
  also have "map ?f (map ?g (map ?f (chunks 4 data))) = map ?f (chunks 4 data)"
    by (simp add: of_le_le_bytes bf16_again)
  finally have "fp32_to_bf16 ?l = Inr saved" by (simp only: s)
  then show ?thesis using loaded st by (simp add: cast uncast)
qed

theorem bf16_resave_witness:
  "\<exists>saved loaded. cast_tensor [1, 0, 128, 127, 205, 204, 204, 61] ''float32'' BFloat16 = Inr (saved, ''bfloat16'', None)
     \<and> uncast_tensor saved ''bfloat16'' ''float32'' None = Inr loaded
     \<and> cast_tensor loaded ''float32'' BFloat16 = Inr (saved, ''bfloat16'', None)"
proof -
  obtain saved where c:
      "cast_tensor [1, 0, 128, 127, 205, 204, 204, 61] ''float32'' BFloat16 = Inr (saved, ''bfloat16'', None)"
    by (simp add: cast_tensor_def is_castable_float_def narrow_from_fp32_def fp32_to_bf16_def)
  with bf16_resave [OF c] show ?thesis by blast
qed

end
