(* ===== verification/Pack.thy ===== *)
theory Pack
  imports Compression
begin

text \<open>
  The pack file format, \<^verbatim>\<open>src/src/pack.rs\<close>, the hash of \<^verbatim>\<open>src/src/hash.rs\<close>, and \<open>ext\<close>: what the
  code takes from crates outside the repository (zstd, xxHash3, the uuid crate's text form and
  serde_json's encoders and decoders), as functions it is given. \<open>json_ok\<close> states, for one value,
  what serde_json documents: encoding and decoding give it back, and JSON text does not end in a
  zero byte.
\<close>

record pack_descriptor =
  pd_snapshot_id :: uuid
  pd_step :: nat
  pd_created_at :: timestamp
  pd_base_snapshot_id :: "uuid option"
  pd_metadata :: metadata
  pd_compression :: compression_algo
  pd_world_size :: nat
  pd_rank :: rank_entry

section \<open>The manifest's two kinds of file\<close>

text \<open>
  The JSON documents of \<^verbatim>\<open>src/src/manifest_io.rs\<close>: \<^verbatim>\<open>HeadOut\<close>/\<^verbatim>\<open>HeadIn\<close>, \<^verbatim>\<open>IndexOut\<close>/\<^verbatim>\<open>IndexIn\<close> and
  \<^verbatim>\<open>RanksOut\<close>/\<^verbatim>\<open>RanksIn\<close>, one record for what is written and what is read.
\<close>

record head_doc =
  hd_id :: uuid
  hd_step :: nat
  hd_created_at :: timestamp
  hd_ranks :: "(nat \<times> rank_entry) list option"
  hd_ranks_in :: "string option"
  hd_base_snapshot_id :: "uuid option"
  hd_metadata :: metadata
  hd_compression :: compression_algo
  hd_finalized :: bool
  hd_pinned :: bool

record index_doc =
  ix_format_version :: nat
  ix_world_size :: nat
  ix_snapshots :: "head_doc list"
  ix_retention :: retention_policy
  ix_lineage :: lineage_config

record ranks_doc =
  rd_snapshot_id :: uuid
  rd_ranks :: "(nat \<times> rank_entry) list"

record 'a json =
  js_to_vec :: "'a \<Rightarrow> string + bytes"
  js_from_slice :: "bytes \<Rightarrow> string + 'a"

record ext =
  x_zstd :: zstd
  x_xxh3_128 :: "bytes \<Rightarrow> 128 word"
  x_uuid_str :: "uuid \<Rightarrow> string"
  x_parse_uuid :: "string \<Rightarrow> uuid option"
  x_descriptor :: "pack_descriptor json"
  x_index :: "index_doc json"
  x_ranks :: "ranks_doc json"
  x_pins :: "nat list json"

definition json_ok :: "'a json \<Rightarrow> 'a \<Rightarrow> bool" where
  "json_ok j x \<longleftrightarrow>
     (\<exists>b. js_to_vec j x = Inr b \<and> b \<noteq> [] \<and> last b \<noteq> 0 \<and> js_from_slice j b = Inr x)"

text \<open>A concrete instance: a codec that knows one document, and names that count.\<close>

definition one_json :: "'a \<Rightarrow> 'a json" where
  "one_json x = \<lparr>js_to_vec = (\<lambda>_. Inr [123, 125]), js_from_slice = (\<lambda>_. Inr x)\<rparr>"

lemma one_json_ok [simp]: "json_ok (one_json x) x"
  by (simp add: json_ok_def one_json_def)

definition sample_ext :: "pack_descriptor \<Rightarrow> index_doc \<Rightarrow> ranks_doc \<Rightarrow> nat list \<Rightarrow> ext" where
  "sample_ext d ix rd pins = \<lparr>x_zstd = stored_zstd, x_xxh3_128 = of_le,
     x_uuid_str = (\<lambda>i. replicate i CHR ''a''), x_parse_uuid = (\<lambda>s. Some (length s)),
     x_descriptor = one_json d, x_index = one_json ix, x_ranks = one_json rd, x_pins = one_json pins\<rparr>"

lemma sample_ext_simps [simp]:
  "x_zstd (sample_ext d ix rd pins) = stored_zstd" "x_xxh3_128 (sample_ext d ix rd pins) = of_le"
  "x_uuid_str (sample_ext d ix rd pins) = (\<lambda>i. replicate i CHR ''a'')"
  "x_parse_uuid (sample_ext d ix rd pins) = (\<lambda>s. Some (length s))"
  "x_descriptor (sample_ext d ix rd pins) = one_json d" "x_index (sample_ext d ix rd pins) = one_json ix"
  "x_ranks (sample_ext d ix rd pins) = one_json rd" "x_pins (sample_ext d ix rd pins) = one_json pins"
  by (simp_all add: sample_ext_def)

definition serialization :: "string + 'a \<Rightarrow> 'a result" where
  "serialization r = (case r of Inl e \<Rightarrow> Inl (SerializationErr e) | Inr x \<Rightarrow> Inr x)"

lemma json_okE:
  assumes "json_ok j x"
  obtains b where "serialization (js_to_vec j x) = Inr b" "js_to_vec j x = Inr b" "b \<noteq> []"
    "last b \<noteq> 0" "js_from_slice j b = Inr x" "serialization (js_from_slice j b) = Inr x"
  using assms by (auto simp: json_ok_def serialization_def)

text \<open>
  Reading a file that may have been padded: what follows the last nonzero byte is dropped
  (\<^verbatim>\<open>rposition(|b| b != 0)\<close>).
\<close>

definition strip_zeros :: "bytes \<Rightarrow> bytes" where
  "strip_zeros data = rev (dropWhile (\<lambda>b. b = 0) (rev data))"

lemma strip_zeros_pad [simp]:
  assumes "b \<noteq> []" and "last b \<noteq> 0"
  shows "strip_zeros (b @ replicate n 0) = b"
proof -
  have "dropWhile (\<lambda>b. b = 0) (replicate n 0 @ rev b) = rev b"
    using assms by (cases b rule: rev_cases) (simp_all add: dropWhile_append3)
  then show ?thesis by (simp add: strip_zeros_def)
qed

lemma strip_zeros_id [simp]: "b \<noteq> [] \<Longrightarrow> last b \<noteq> 0 \<Longrightarrow> strip_zeros b = b"
  using strip_zeros_pad [of b 0] by simp

section \<open>The hash\<close>

definition hex_digit :: "nat \<Rightarrow> char" where
  "hex_digit d = ''0123456789abcdef'' ! d"

text \<open>\<^verbatim>\<open>format!("{:032x}", ..)\<close>: thirty-two lower-case digits, the most significant first.\<close>

definition hash_hex :: "ext \<Rightarrow> bytes \<Rightarrow> string" where
  "hash_hex X data =
     (let h = x_xxh3_128 X data
      in map (\<lambda>i. hex_digit (unat (and (drop_bit (4 * i) h) 15))) (rev [0..<32]))"

lemma hex_digit_inj:
  assumes "a < 16" and "b < 16" and "hex_digit a = hex_digit b"
  shows "a = b"
proof -
  let ?ds = "''0123456789abcdef''"
  have "distinct ?ds" "length ?ds = 16" by simp_all
  then show ?thesis
    using nth_eq_iff_index_eq [of ?ds a b] assms by (simp only: hex_digit_def)
qed

lemma nibble_eq: "and w 15 = take_bit 4 (w :: 128 word)"
  by (simp add: take_bit_eq_mask mask_eq_exp_minus_1)

lemma nibble_bound: "unat (and (w :: 128 word) 15) < 16"
proof -
  have "take_bit 4 (unat w) < 2 ^ 4" by (rule take_bit_nat_less_exp)
  then show ?thesis by (simp add: nibble_eq unsigned_take_bit_eq)
qed

text \<open>Thirty-two nibbles are the whole 128 bits, so equal texts are equal hashes.\<close>

lemma hash_hex_eq_iff: "hash_hex X a = hash_hex X b \<longleftrightarrow> x_xxh3_128 X a = x_xxh3_128 X b"
proof
  assume eq: "hash_hex X a = hash_hex X b"
  have nib: "and (drop_bit (4 * i) (x_xxh3_128 X a)) 15 = and (drop_bit (4 * i) (x_xxh3_128 X b)) 15"
    if "i < 32" for i
  proof -
    from eq that have "hex_digit (unat (and (drop_bit (4 * i) (x_xxh3_128 X a)) 15))
        = hex_digit (unat (and (drop_bit (4 * i) (x_xxh3_128 X b)) 15))"
      by (simp add: hash_hex_def Let_def)
    then show ?thesis by (metis hex_digit_inj nibble_bound unsigned_word_eqI)
  qed
  show "x_xxh3_128 X a = x_xxh3_128 X b"
  proof (rule bit_word_eqI)
    fix k assume k: "k < LENGTH(128)"
    then have i: "k div 4 < 32" by simp
    have "bit (and (drop_bit (4 * (k div 4)) w) 15) (k mod 4) = bit w k" for w :: "128 word"
      by (simp add: nibble_eq bit_take_bit_iff bit_drop_bit_eq)
    with nib [OF i] show "bit (x_xxh3_128 X a) k = bit (x_xxh3_128 X b) k" by metis
  qed
qed (simp add: hash_hex_def)

lemma length_hash_hex: "length (hash_hex X data) = 32"
  by (simp add: hash_hex_def Let_def)

section \<open>The header\<close>

definition pack_magic :: bytes where
  "pack_magic = map (\<lambda>c. of_char c) ''MOONPACK''"

definition pack_version :: "32 word" where
  "pack_version = 1"

definition header_len :: nat where
  "header_len = 32"

definition encode_header :: "64 word \<Rightarrow> 64 word \<Rightarrow> bytes" where
  "encode_header descriptor_offset descriptor_len =
     pack_magic @ le_bytes 4 pack_version @ le_bytes 4 (0 :: 32 word)
     @ le_bytes 8 descriptor_offset @ le_bytes 8 descriptor_len"

definition decode_header :: "bytes \<Rightarrow> (64 word \<times> 64 word) option" where
  "decode_header bs =
     (if length bs < header_len \<or> take 8 bs \<noteq> pack_magic then None
      else let version = of_le (take 4 (drop 8 bs)) :: 32 word in
        if version \<noteq> pack_version then None
        else Some (of_le (take 8 (drop 16 bs)), of_le (take 8 (drop 24 bs))))"

lemma length_pack_magic [simp]: "length pack_magic = 8"
  by (simp add: pack_magic_def)

lemma length_encode_header [simp]: "length (encode_header a b) = header_len"
  by (simp add: encode_header_def header_len_def)

lemma decode_encode_header [simp]: "decode_header (encode_header a b @ rest) = Some (a, b)"
  by (simp add: decode_header_def encode_header_def header_len_def of_le_le_bytes)

lemma decode_header_SomeD:
  assumes "decode_header bs = Some (a, b)"
  shows "bs = pack_magic @ le_bytes 4 pack_version @ take 4 (drop 12 bs)
    @ le_bytes 8 a @ le_bytes 8 b @ drop 32 bs"
proof -
  from assms have len: "32 \<le> length bs" and m: "take 8 bs = pack_magic"
    and v: "of_le (take 4 (drop 8 bs)) = pack_version"
    and a: "a = of_le (take 8 (drop 16 bs))" and b: "b = of_le (take 8 (drop 24 bs))"
    by (auto simp: decode_header_def header_len_def Let_def split: if_splits)
  have cut: "take n (drop k bs) @ drop (k + n) bs = drop k bs" for n k
    by (metis append_take_drop_id drop_drop add.commute)
  have "le_bytes 4 pack_version = take 4 (drop 8 bs)" "le_bytes 8 a = take 8 (drop 16 bs)"
      "le_bytes 8 b = take 8 (drop 24 bs)"
    using len by (simp_all add: v [symmetric] a b le_bytes_of_le)
  then show ?thesis
    using m cut [of 8 0] cut [of 4 8] cut [of 4 12] cut [of 8 16] cut [of 8 24] by simp
qed

text \<open>
  A pack says where its description lies: the header is 32 bytes, and a reader that meets it
  at the start of a pack gets the two numbers that were written, whatever follows.
\<close>

theorem header_roundtrip:
  "length (encode_header off len) = header_len \<and> decode_header (encode_header off len @ rest) = Some (off, len)"
  by simp

text \<open>
  Nothing else is taken for one: a buffer decodes exactly when it starts with the magic, this
  version and four reserved bytes, followed by the two numbers. A file that is too short, a
  legacy pack (which starts with another magic) and a future version are all refused.
\<close>

theorem decode_header_iff:
  "decode_header bs = Some (off, len) \<longleftrightarrow>
     (\<exists>reserved rest. length reserved = 4
        \<and> bs = pack_magic @ le_bytes 4 pack_version @ reserved @ le_bytes 8 off @ le_bytes 8 len @ rest)"
proof
  assume dec: "decode_header bs = Some (off, len)"
  then have "32 \<le> length bs"
    by (auto simp: decode_header_def header_len_def split: if_splits)
  with decode_header_SomeD [OF dec]
  show "\<exists>reserved rest. length reserved = 4
      \<and> bs = pack_magic @ le_bytes 4 pack_version @ reserved @ le_bytes 8 off @ le_bytes 8 len @ rest"
    by (intro exI [of _ "take 4 (drop 12 bs)"] exI [of _ "drop 32 bs"]) simp
next
  assume "\<exists>reserved rest. length reserved = 4
      \<and> bs = pack_magic @ le_bytes 4 pack_version @ reserved @ le_bytes 8 off @ le_bytes 8 len @ rest"
  then show "decode_header bs = Some (off, len)"
    by (auto simp: decode_header_def header_len_def of_le_le_bytes)
qed

end
