(* ===== verification/Storage.thy ===== *)
theory Storage
  imports Prelude
begin

text \<open>
  Where files go, \<^verbatim>\<open>src/src/storage.rs\<close>: the \<^verbatim>\<open>StorageBackend\<close> trait as a record of operations (a
  caller holds \<^verbatim>\<open>dyn StorageBackend\<close>), its contract as two locales, and the local file system,
  with what has reached the device told apart from what has not.
\<close>

section \<open>The trait\<close>

record 's backend =
  b_put :: "string \<Rightarrow> bytes \<Rightarrow> ('s, unit) io"
  b_put_parts :: "string \<Rightarrow> bytes list \<Rightarrow> ('s, unit) io"
  b_put_exact :: "string \<Rightarrow> bytes \<Rightarrow> ('s, unit) io"
  b_get :: "'s \<Rightarrow> string \<Rightarrow> bytes result"
  b_get_range :: "'s \<Rightarrow> string \<Rightarrow> nat \<Rightarrow> nat \<Rightarrow> bytes result"
  b_exists :: "'s \<Rightarrow> string \<Rightarrow> bool result"
  b_delete :: "string \<Rightarrow> ('s, unit) io"
  b_remove_dir :: "string \<Rightarrow> ('s, unit) io"
  b_list_sized :: "'s \<Rightarrow> string \<Rightarrow> (string \<times> nat option) list result"

text \<open>The trait's default methods, in terms of the others.\<close>

definition default_put_parts :: "(string \<Rightarrow> bytes \<Rightarrow> ('s, unit) io) \<Rightarrow> string \<Rightarrow> bytes list \<Rightarrow> ('s, unit) io" where
  "default_put_parts put rel_path parts = put rel_path (concat parts)"

definition default_get_range ::
    "('s \<Rightarrow> string \<Rightarrow> bytes result) \<Rightarrow> 's \<Rightarrow> string \<Rightarrow> nat \<Rightarrow> nat \<Rightarrow> bytes result" where
  "default_get_range get s rel_path offset len =
     bind_res (get s rel_path) (\<lambda>data.
       let start = min offset (length data); end_at = min (start + len) (length data)
       in Inr (take (end_at - start) (drop start data)))"

definition default_remove_dir :: "string \<Rightarrow> ('s, unit) io" where
  "default_remove_dir rel_path = ret_io ()"

definition default_list_sized ::
    "('s \<Rightarrow> string \<Rightarrow> string list result) \<Rightarrow> 's \<Rightarrow> string \<Rightarrow> (string \<times> nat option) list result" where
  "default_list_sized list_op s pre =
     bind_res (list_op s pre) (\<lambda>ks. Inr (map (\<lambda>k. (k, None)) ks))"

text \<open>\<^verbatim>\<open>list\<close> drops the sizes, in both backends.\<close>

definition b_list :: "'s backend \<Rightarrow> 's \<Rightarrow> string \<Rightarrow> string list result" where
  "b_list B s pre = bind_res (b_list_sized B s pre) (\<lambda>ks. Inr (map fst ks))"

section \<open>The contract\<close>

text \<open>
  \<open>contents\<close> is what a reader of a path is given, \<open>padded\<close> what a backend makes of the bytes it
  writes for itself. Any operation may fail; a write that fails leaves every file as it was.
\<close>

locale backend_contract =
  fixes B :: "'s backend"
    and contents :: "'s \<Rightarrow> string \<Rightarrow> bytes option"
    and padded :: "bytes \<Rightarrow> bytes"
  assumes get_sound: "b_get B s p = Inr d \<Longrightarrow> contents s p = Some d"
    and put_ok: "b_put B p d s = (Inr u, s') \<Longrightarrow> contents s' = (contents s)(p \<mapsto> padded d)"
    and put_err: "b_put B p d s = (Inl e, s') \<Longrightarrow> contents s' = contents s"
    and put_parts_ok:
      "b_put_parts B p ds s = (Inr u, s') \<Longrightarrow> contents s' = (contents s)(p \<mapsto> padded (concat ds))"
    and put_parts_err: "b_put_parts B p ds s = (Inl e, s') \<Longrightarrow> contents s' = contents s"
    and put_exact_ok: "b_put_exact B p d s = (Inr u, s') \<Longrightarrow> contents s' = (contents s)(p \<mapsto> d)"
    and put_exact_err: "b_put_exact B p d s = (Inl e, s') \<Longrightarrow> contents s' = contents s"
    and range_sound: "b_get_range B s p off len = Inr d
      \<Longrightarrow> \<exists>c. contents s p = Some c \<and> d = take len (drop off c)"
    and delete_ok: "b_delete B p s = (Inr u, s') \<Longrightarrow> contents s' = (contents s)(p := None)"
    and delete_err: "b_delete B p s = (Inl e, s') \<Longrightarrow> contents s' = contents s"
    and remove_dir_keeps: "contents (snd (b_remove_dir B p s)) = contents s"
    and exists_False: "b_exists B s p = Inr False \<Longrightarrow> contents s p = None"
    and list_sound: "b_list_sized B s pre = Inr ks \<Longrightarrow> fst ` set ks \<subseteq> dom (contents s)"
    and padded_zeros: "\<exists>n. padded d = d @ replicate n 0"
begin

lemma put_other: "q \<noteq> p \<Longrightarrow> contents (snd (b_put B p d s)) q = contents s q"
  by (cases "b_put B p d s"; cases "fst (b_put B p d s)") (auto dest: put_ok put_err)

lemma put_fst_ok: "fst (b_put B p d s) = Inr u \<Longrightarrow> contents (snd (b_put B p d s)) p = Some (padded d)"
  by (cases "b_put B p d s") (auto dest: put_ok)

lemma put_fst_err: "fst (b_put B p d s) = Inl e \<Longrightarrow> contents (snd (b_put B p d s)) = contents s"
  by (cases "b_put B p d s") (auto dest: put_err)

lemma delete_other: "q \<noteq> p \<Longrightarrow> contents (snd (b_delete B p s)) q = contents s q"
  by (cases "b_delete B p s"; cases "fst (b_delete B p s)") (auto dest: delete_ok delete_err)

lemma put_exact_other: "q \<noteq> p \<Longrightarrow> contents (snd (b_put_exact B p d s)) q = contents s q"
  by (cases "b_put_exact B p d s"; cases "fst (b_put_exact B p d s)")
    (auto dest: put_exact_ok put_exact_err)

lemma range_within: "b_get_range B s p off len = Inr d \<Longrightarrow> length d \<le> len"
  using range_sound by fastforce

end

text \<open>A backend whose reads do not fail: the local disk as the code takes it.\<close>

locale reliable_backend = backend_contract B contents padded
  for B :: "'s backend" and contents :: "'s \<Rightarrow> string \<Rightarrow> bytes option" and padded :: "bytes \<Rightarrow> bytes" +
  assumes get_complete: "contents s p = Some d \<Longrightarrow> b_get B s p = Inr d"
    and get_absent: "b_exists B s p = Inr False \<Longrightarrow> b_get B s p = Inl (NotFound p)"
    and range_complete: "contents s p = Some d \<Longrightarrow> b_get_range B s p off len = Inr (take len (drop off d))"
    and exists_complete: "contents s p = Some d \<Longrightarrow> b_exists B s p = Inr True"
begin

lemma get_iff: "b_get B s p = Inr d \<longleftrightarrow> contents s p = Some d"
  using get_sound get_complete by blast

text \<open>A ranged read is the default one: the whole file, cut.\<close>

lemma range_eq_default:
  "contents s p = Some d \<Longrightarrow> b_get_range B s p off len = default_get_range (b_get B) s p off len"
  by (simp add: range_complete default_get_range_def get_complete Let_def)
    (cases "off \<le> length d"; simp add: min_def)

end

section \<open>The local file system\<close>

text \<open>
  Paths are relative to the store's root and use \<open>/\<close>. \<open>fs_data_synced\<close> holds the files whose bytes
  have reached the device under their present name, \<open>fs_names_synced\<close> the files and directories
  whose entry in their parent has. The order of \<open>fs_files\<close> is the order a walk meets them in.
\<close>

record local_fs =
  fs_files :: "(string \<times> bytes) list"
  fs_dirs :: "string list"
  fs_data_synced :: "string set"
  fs_names_synced :: "string set"

definition empty_fs :: local_fs where
  "empty_fs = \<lparr>fs_files = [], fs_dirs = [], fs_data_synced = {}, fs_names_synced = {}\<rparr>"

definition default_page_size :: nat where
  "default_page_size = 4096"

definition parent_path :: "string \<Rightarrow> string" where
  "parent_path p = rev (drop 1 (dropWhile (\<lambda>c. c \<noteq> CHR ''/'') (rev p)))"

definition file_name :: "string \<Rightarrow> string" where
  "file_name p = rev (takeWhile (\<lambda>c. c \<noteq> CHR ''/'') (rev p))"

definition fs_is_dir :: "local_fs \<Rightarrow> string \<Rightarrow> bool" where
  "fs_is_dir fs p \<longleftrightarrow> p = [] \<or> p \<in> set (fs_dirs fs)"

definition fs_is_file :: "local_fs \<Rightarrow> string \<Rightarrow> bool" where
  "fs_is_file fs p \<longleftrightarrow> map_of (fs_files fs) p \<noteq> None"

lemma parent_path_shorter: "p \<noteq> [] \<Longrightarrow> length (parent_path p) < length p"
proof -
  assume "p \<noteq> []"
  moreover have "length (dropWhile (\<lambda>c. c \<noteq> CHR ''/'') (rev p)) \<le> length p"
    by (metis length_dropWhile_le length_rev)
  ultimately show ?thesis by (cases "length p") (auto simp: parent_path_def)
qed

text \<open>The directories a write has to create, deepest first (\<^verbatim>\<open>create_dirs_recording_new\<close>).\<close>

function missing_dirs :: "local_fs \<Rightarrow> string \<Rightarrow> string list" where
  "missing_dirs fs dir =
     (if dir = [] \<or> fs_is_dir fs dir \<or> fs_is_file fs dir then []
      else dir # missing_dirs fs (parent_path dir))"
  by pat_completeness auto
termination
  by (relation "measure (\<lambda>(fs, dir). length dir)") (auto simp: parent_path_shorter)

declare missing_dirs.simps [simp del]

text \<open>What stops the walk up: the deepest existing ancestor.\<close>

definition existing_ancestor :: "local_fs \<Rightarrow> string \<Rightarrow> string" where
  "existing_ancestor fs dir =
     (if missing_dirs fs dir = [] then dir else parent_path (last (missing_dirs fs dir)))"

text \<open>\<^verbatim>\<open>sync_dir\<close>: every entry of the directory reaches the device.\<close>

definition sync_dir :: "string \<Rightarrow> local_fs \<Rightarrow> local_fs" where
  "sync_dir dir fs = fs\<lparr>fs_names_synced := fs_names_synced fs
     \<union> set (filter (\<lambda>p. parent_path p = dir) (map fst (fs_files fs) @ fs_dirs fs))\<rparr>"

definition page_padding :: "nat \<Rightarrow> nat \<Rightarrow> nat" where
  "page_padding page_size n =
     (if page_size > 0 \<and> n mod page_size \<noteq> 0 then page_size - n mod page_size else 0)"

definition pad_to_page :: "nat \<Rightarrow> bytes \<Rightarrow> bytes" where
  "pad_to_page page_size data = data @ replicate (page_padding page_size (length data)) 0"

text \<open>
  \<^verbatim>\<open>write_parts\<close>: the directories, then a temporary file with the parts and the padding, flushed
  (\<open>fsync\<close> is \<^verbatim>\<open>fsync_enabled()\<close>) before the rename gives it its name, then the directory holding
  it, then the parents of the directories that were created, shallowest first. The two failures a
  path can cause are there: a file where a directory is needed, a directory where the file goes.
\<close>

definition rename_over :: "bool \<Rightarrow> string \<Rightarrow> bytes \<Rightarrow> local_fs \<Rightarrow> local_fs" where
  "rename_over fsync path data fs = fs\<lparr>
     fs_files := AList.update path data (fs_files fs),
     fs_data_synced := (if fsync then insert path (fs_data_synced fs) else fs_data_synced fs - {path}),
     fs_names_synced := fs_names_synced fs - {path}\<rparr>"

definition write_parts :: "bool \<Rightarrow> nat \<Rightarrow> string \<Rightarrow> bytes list \<Rightarrow> (local_fs, unit) io" where
  "write_parts fsync page_size rel_path parts fs =
     (let dir = parent_path rel_path; new_dirs = missing_dirs fs dir in
      if fs_is_file fs (existing_ancestor fs dir) then (Inl (IoErr ''Not a directory''), fs)
      else let fs1 = fs\<lparr>fs_dirs := fs_dirs fs @ rev new_dirs\<rparr> in
        if fs_is_dir fs1 rel_path then (Inl (StorageErr ''Failed to persist''), fs1)
        else let fs2 = rename_over fsync rel_path (pad_to_page page_size (concat parts)) fs1 in
          if fsync then (Inr (), fold (\<lambda>created. sync_dir (parent_path created)) (rev new_dirs)
                                  (sync_dir dir fs2))
          else (Inr (), fs2))"

definition partial_prefix :: string where
  "partial_prefix = ''.moonclip-partial-''"

definition is_ascii_alphanumeric :: "char \<Rightarrow> bool" where
  "is_ascii_alphanumeric c \<longleftrightarrow> (let n = (of_char c :: nat) in
     (48 \<le> n \<and> n \<le> 57) \<or> (65 \<le> n \<and> n \<le> 90) \<or> (97 \<le> n \<and> n \<le> 122))"

definition is_partial :: "string \<Rightarrow> bool" where
  "is_partial name \<longleftrightarrow> prefix partial_prefix name
     \<or> (length name = 10 \<and> prefix ''.tmp'' name \<and> list_all is_ascii_alphanumeric (drop 4 name))"

definition under_prefix :: "string \<Rightarrow> string \<Rightarrow> bool" where
  "under_prefix pre p \<longleftrightarrow> pre = [] \<or> p = pre \<or> prefix (pre @ ''/'') p"

definition local_get :: "local_fs \<Rightarrow> string \<Rightarrow> bytes result" where
  "local_get fs rel_path =
     (case map_of (fs_files fs) rel_path of
        Some data \<Rightarrow> Inr data
      | None \<Rightarrow> if fs_is_dir fs rel_path then Inl (IoErr ''Is a directory'')
                else Inl (NotFound rel_path))"

definition local_get_range :: "local_fs \<Rightarrow> string \<Rightarrow> nat \<Rightarrow> nat \<Rightarrow> bytes result" where
  "local_get_range fs rel_path offset len =
     (case map_of (fs_files fs) rel_path of
        Some data \<Rightarrow> Inr (take len (drop offset data))
      | None \<Rightarrow> if fs_is_dir fs rel_path then Inl (IoErr ''Is a directory'')
                else Inl (NotFound rel_path))"

definition local_exists :: "local_fs \<Rightarrow> string \<Rightarrow> bool result" where
  "local_exists fs rel_path = Inr (fs_is_file fs rel_path \<or> fs_is_dir fs rel_path)"

definition local_delete :: "string \<Rightarrow> (local_fs, unit) io" where
  "local_delete rel_path fs =
     (if fs_is_file fs rel_path
      then (Inr (), fs\<lparr>fs_files := AList.delete rel_path (fs_files fs),
              fs_data_synced := fs_data_synced fs - {rel_path},
              fs_names_synced := fs_names_synced fs - {rel_path}\<rparr>)
      else if fs_is_dir fs rel_path then (Inl (IoErr ''Is a directory''), fs)
      else (Inr (), fs))"

definition local_remove_dir :: "string \<Rightarrow> (local_fs, unit) io" where
  "local_remove_dir rel_path fs =
     (if rel_path \<in> set (fs_dirs fs)
         \<and> \<not> list_ex (\<lambda>p. p \<noteq> rel_path \<and> parent_path p = rel_path) (map fst (fs_files fs) @ fs_dirs fs)
      then (Inr (), fs\<lparr>fs_dirs := removeAll rel_path (fs_dirs fs),
              fs_names_synced := fs_names_synced fs - {rel_path}\<rparr>)
      else (Inr (), fs))"

definition local_list_sized :: "local_fs \<Rightarrow> string \<Rightarrow> (string \<times> nat option) list result" where
  "local_list_sized fs pre =
     (if \<not> (fs_is_file fs pre \<or> fs_is_dir fs pre) then Inr []
      else Inr (map (\<lambda>(p, data). (p, Some (length data)))
             (filter (\<lambda>(p, data). under_prefix pre p \<and> \<not> is_partial (file_name p)) (fs_files fs))))"

definition local_backend :: "bool \<Rightarrow> nat \<Rightarrow> local_fs backend" where
  "local_backend fsync page_size = \<lparr>
     b_put = (\<lambda>p data. write_parts fsync page_size p [data]),
     b_put_parts = write_parts fsync page_size,
     b_put_exact = (\<lambda>p data. write_parts fsync 0 p [data]),
     b_get = local_get, b_get_range = local_get_range, b_exists = local_exists,
     b_delete = local_delete, b_remove_dir = local_remove_dir, b_list_sized = local_list_sized\<rparr>"

definition fs_contents :: "local_fs \<Rightarrow> string \<Rightarrow> bytes option" where
  "fs_contents fs p = map_of (fs_files fs) p"

section \<open>The local store keeps the contract\<close>

lemma fs_files_sync_dir [simp]:
  "fs_files (sync_dir d fs) = fs_files fs" "fs_dirs (sync_dir d fs) = fs_dirs fs"
  "fs_data_synced (sync_dir d fs) = fs_data_synced fs"
  by (simp_all add: sync_dir_def)

lemma fs_fold_sync_dir [simp]:
  "fs_files (fold (\<lambda>c. sync_dir (f c)) cs fs) = fs_files fs"
  "fs_dirs (fold (\<lambda>c. sync_dir (f c)) cs fs) = fs_dirs fs"
  "fs_data_synced (fold (\<lambda>c. sync_dir (f c)) cs fs) = fs_data_synced fs"
  by (induction cs arbitrary: fs) simp_all

lemma write_parts_ok:
  "write_parts fsync ps p parts fs = (Inr u, fs')
    \<Longrightarrow> fs_contents fs' = (fs_contents fs)(p \<mapsto> pad_to_page ps (concat parts))"
  by (auto simp: write_parts_def Let_def rename_over_def fs_contents_def fun_eq_iff update_conv'
      split: if_splits)

lemma write_parts_err: "write_parts fsync ps p parts fs = (Inl e, fs') \<Longrightarrow> fs_contents fs' = fs_contents fs"
  by (auto simp: write_parts_def Let_def fs_contents_def fun_eq_iff split: if_splits)

lemma pad_to_page_zero [simp]: "pad_to_page 0 d = d"
  by (simp add: pad_to_page_def page_padding_def)

lemma local_delete_contents:
  "local_delete p fs = (r, fs') \<Longrightarrow>
     fs_contents fs' = (case r of Inr _ \<Rightarrow> (fs_contents fs)(p := None) | Inl _ \<Rightarrow> fs_contents fs)"
  by (auto simp: local_delete_def fs_contents_def fs_is_file_def delete_conv' fun_eq_iff
      split: if_splits sum.splits)

lemmas local_simps = local_backend_def local_get_def local_get_range_def local_exists_def
  local_remove_dir_def local_list_sized_def fs_contents_def

lemma map_of_mem_ex: "(k, v) \<in> set xs \<Longrightarrow> \<exists>y. map_of xs k = Some y"
  by (induction xs) auto

interpretation local_store: backend_contract "local_backend fsync ps" fs_contents "pad_to_page ps"
proof unfold_locales
  fix s p d u s'
  show "b_get (local_backend fsync ps) s p = Inr d \<Longrightarrow> fs_contents s p = Some d"
    by (auto simp: local_simps split: option.splits if_splits)
  show "b_put (local_backend fsync ps) p d s = (Inr u, s')
      \<Longrightarrow> fs_contents s' = (fs_contents s)(p \<mapsto> pad_to_page ps d)"
    by (auto simp: local_backend_def dest!: write_parts_ok)
  show "b_put_exact (local_backend fsync ps) p d s = (Inr u, s')
      \<Longrightarrow> fs_contents s' = (fs_contents s)(p \<mapsto> d)"
    by (auto simp: local_backend_def dest!: write_parts_ok)
  show "b_delete (local_backend fsync ps) p s = (Inr u, s')
      \<Longrightarrow> fs_contents s' = (fs_contents s)(p := None)"
    by (auto simp: local_backend_def dest!: local_delete_contents)
next
  fix s p d e s'
  show "b_put (local_backend fsync ps) p d s = (Inl e, s') \<Longrightarrow> fs_contents s' = fs_contents s"
    "b_put_exact (local_backend fsync ps) p d s = (Inl e, s') \<Longrightarrow> fs_contents s' = fs_contents s"
    by (auto simp: local_backend_def dest: write_parts_err)
  show "b_delete (local_backend fsync ps) p s = (Inl e, s') \<Longrightarrow> fs_contents s' = fs_contents s"
    by (auto simp: local_backend_def dest!: local_delete_contents)
next
  fix s p ds u s' e
  show "b_put_parts (local_backend fsync ps) p ds s = (Inr u, s')
      \<Longrightarrow> fs_contents s' = (fs_contents s)(p \<mapsto> pad_to_page ps (concat ds))"
    by (auto simp: local_backend_def dest!: write_parts_ok)
  show "b_put_parts (local_backend fsync ps) p ds s = (Inl e, s') \<Longrightarrow> fs_contents s' = fs_contents s"
    by (auto simp: local_backend_def dest: write_parts_err)
next
  fix s p off len d
  show "b_get_range (local_backend fsync ps) s p off len = Inr d
      \<Longrightarrow> \<exists>c. fs_contents s p = Some c \<and> d = take len (drop off c)"
    by (auto simp: local_simps split: option.splits if_splits)
  show "fs_contents (snd (b_remove_dir (local_backend fsync ps) p s)) = fs_contents s"
    by (auto simp: local_simps fun_eq_iff)
  show "b_exists (local_backend fsync ps) s p = Inr False \<Longrightarrow> fs_contents s p = None"
    by (auto simp: local_simps fs_is_file_def)
next
  fix s pre ks
  show "b_list_sized (local_backend fsync ps) s pre = Inr ks \<Longrightarrow> fst ` set ks \<subseteq> dom (fs_contents s)"
    by (auto simp: local_simps intro: map_of_mem_ex split: if_splits)
next
  show "\<exists>n. pad_to_page ps d = d @ replicate n 0" for d by (auto simp: pad_to_page_def)
qed

interpretation local_disk: reliable_backend "local_backend fsync ps" fs_contents "pad_to_page ps"
  by unfold_locales (auto simp: local_simps fs_is_file_def split: option.splits)

section \<open>What survives a power cut\<close>

text \<open>A path and the directories that lead to it, deepest first.\<close>

function path_chain :: "string \<Rightarrow> string list" where
  "path_chain p = (if p = [] then [] else p # path_chain (parent_path p))"
  by pat_completeness auto
termination
  by (relation "measure length") (auto simp: parent_path_shorter)

declare path_chain.simps [simp del]

lemma path_chain_Nil [simp]: "path_chain [] = []"
  by (simp add: path_chain.simps)

text \<open>A file is there after a power cut when its bytes and every name on the way to it are synced.\<close>

definition durable :: "local_fs \<Rightarrow> string \<Rightarrow> bool" where
  "durable fs p \<longleftrightarrow> p \<in> fs_data_synced fs \<and> list_all (\<lambda>q. q \<in> fs_names_synced fs) (path_chain p)"

text \<open>Every directory is itself named durably, in a directory that exists, and is no file.\<close>

definition dirs_durable :: "local_fs \<Rightarrow> bool" where
  "dirs_durable fs \<longleftrightarrow>
     list_all (\<lambda>d. d \<noteq> [] \<and> fs_is_dir fs (parent_path d) \<and> \<not> fs_is_file fs d
       \<and> d \<in> fs_names_synced fs) (fs_dirs fs)"

lemma dirs_durable_chain: "dirs_durable fs \<Longrightarrow> fs_is_dir fs d \<Longrightarrow> list_all (\<lambda>q. q \<in> fs_names_synced fs) (path_chain d)"
proof (induction d rule: path_chain.induct)
  case (1 d)
  then show ?case
    by (cases "d = []") (simp_all add: path_chain.simps [of d] dirs_durable_def list_all_iff fs_is_dir_def)
qed

lemma missing_dirs_head: "missing_dirs fs dir \<noteq> [] \<Longrightarrow> dir \<in> set (missing_dirs fs dir)"
  by (auto simp: missing_dirs.simps [of fs dir])

lemma missing_dirs_props:
  "d \<in> set (missing_dirs fs dir) \<Longrightarrow>
     d \<noteq> [] \<and> \<not> fs_is_file fs d \<and> (parent_path d \<in> set (missing_dirs fs dir) \<or> parent_path d = existing_ancestor fs dir)"
proof (induction fs dir rule: missing_dirs.induct)
  case (1 fs dir)
  then show ?case
    by (cases "dir = [] \<or> fs_is_dir fs dir \<or> fs_is_file fs dir")
      (auto simp: missing_dirs.simps [of fs dir] existing_ancestor_def dest: missing_dirs_head
        split: if_splits)
qed

lemma existing_ancestor_exists:
  "fs_is_dir fs (existing_ancestor fs dir) \<or> fs_is_file fs (existing_ancestor fs dir)"
proof (induction fs dir rule: missing_dirs.induct)
  case (1 fs dir)
  show ?case
  proof (cases "dir = [] \<or> fs_is_dir fs dir \<or> fs_is_file fs dir")
    case True
    then show ?thesis
      by (auto simp: missing_dirs.simps [of fs dir] existing_ancestor_def fs_is_dir_def)
  next
    case False
    with 1 have "fs_is_dir fs (existing_ancestor fs (parent_path dir))
        \<or> fs_is_file fs (existing_ancestor fs (parent_path dir))" by blast
    with False show ?thesis
      by (auto simp: missing_dirs.simps [of fs dir] existing_ancestor_def split: if_splits)
  qed
qed

lemma missing_dirs_cover: "dir \<in> set (missing_dirs fs dir) \<or> dir = existing_ancestor fs dir"
  by (auto simp: missing_dirs.simps [of fs dir] existing_ancestor_def)

lemma fold_sync_names:
  "fs_names_synced (fold (\<lambda>c. sync_dir (parent_path c)) cs fs) =
     fs_names_synced fs \<union> {p \<in> set (map fst (fs_files fs) @ fs_dirs fs). parent_path p \<in> parent_path ` set cs}"
  by (induction cs arbitrary: fs) (auto simp: sync_dir_def)

lemma write_parts_Inr:
  assumes "write_parts True ps p parts fs = (Inr u, fs')"
  defines "new \<equiv> missing_dirs fs (parent_path p)"
  shows "fs_is_dir fs (existing_ancestor fs (parent_path p))"
    and "fs_dirs fs' = fs_dirs fs @ rev new" and "p \<noteq> []" and "p \<notin> set (fs_dirs fs')"
    and "p \<in> fs_data_synced fs'" and "p \<in> fs_names_synced fs'"
    and "\<And>d. d \<noteq> p \<Longrightarrow> fs_is_file fs' d = fs_is_file fs d"
    and "fs_names_synced fs - {p} \<subseteq> fs_names_synced fs'" and "set new \<subseteq> fs_names_synced fs'"
proof -
  show "fs_is_dir fs (existing_ancestor fs (parent_path p))"
    using assms(1) existing_ancestor_exists [of fs "parent_path p"]
    by (auto simp: write_parts_def Let_def split: if_splits)
  show "fs_dirs fs' = fs_dirs fs @ rev new" "p \<noteq> []" "p \<in> fs_data_synced fs'"
    using assms(1) unfolding new_def
    by (auto simp: write_parts_def Let_def rename_over_def fs_is_dir_def split: if_splits)
  show "fs_is_file fs' d = fs_is_file fs d" if "d \<noteq> p" for d
    using assms(1) that
    by (auto simp: write_parts_def Let_def rename_over_def fs_is_file_def update_conv' split: if_splits)
  show "p \<notin> set (fs_dirs fs')"
    using assms(1)
    by (auto simp: write_parts_def Let_def rename_over_def fs_is_dir_def split: if_splits)
  define fs1 where "fs1 = sync_dir (parent_path p)
      (rename_over True p (pad_to_page ps (concat parts)) (fs\<lparr>fs_dirs := fs_dirs fs @ rev new\<rparr>))"
  have "fs' = fold (\<lambda>c. sync_dir (parent_path c)) (rev new) fs1"
    using assms(1) unfolding new_def fs1_def
    by (auto simp: write_parts_def Let_def split: if_splits)
  then have names: "fs_names_synced fs' = fs_names_synced fs1
      \<union> {q \<in> set (map fst (fs_files fs1) @ fs_dirs fs1). parent_path q \<in> parent_path ` set (rev new)}"
    by (simp only: fold_sync_names)
  have "p \<in> fst ` set (fs_files fs1)" by (simp add: fs1_def rename_over_def dom_update)
  then have "p \<in> fs_names_synced fs1" by (auto simp: fs1_def sync_dir_def rename_over_def)
  with names show "p \<in> fs_names_synced fs'" by simp
  have "fs_names_synced fs - {p} \<subseteq> fs_names_synced fs1"
    by (auto simp: fs1_def sync_dir_def rename_over_def)
  with names show "fs_names_synced fs - {p} \<subseteq> fs_names_synced fs'" by blast
  have "set new \<subseteq> set (fs_dirs fs1)" by (simp add: fs1_def rename_over_def)
  with names show "set new \<subseteq> fs_names_synced fs'" by auto
qed



text \<open>Deleting keeps that too, so the store a run leaves is one the theorem applies to.\<close>

lemma dirs_durable_delete: "dirs_durable fs \<Longrightarrow> dirs_durable (snd (local_delete p fs))"
  by (auto simp: dirs_durable_def local_delete_def list_all_iff fs_is_dir_def fs_is_file_def
      delete_conv')

end
