(* ===== verification/Tensor.thy ===== *)
theory Tensor
  imports Shuffle Delta Cast Pack Storage Manifest
begin

text \<open>
  One tensor on its way into and out of a checkpoint, \<^verbatim>\<open>src/src/tensor.rs\<close>: the plan that stores
  identical tensors once, the choice between skipping, a delta and a full copy, and loading with
  the base's help. \<open>B\<close> and \<open>s\<close> are the storage and its state, \<open>X\<close> the library functions; a
  resolver (\<^verbatim>\<open>BaseEntryResolver\<close>) is a function from a snapshot and a name.
\<close>

record tensor_data =
  td_name :: string
  td_shape :: "nat list"
  td_dtype :: string
  td_data :: bytes

record processed_tensor =
  pt_entry :: tensor_entry
  pt_write_data :: "bytes option"

definition tensor_delta_min_size :: nat where
  "tensor_delta_min_size = 4096"

definition sample_raw :: nat where
  "sample_raw = 65536"

definition sample_window :: nat where
  "sample_window = 262144"

definition sample_min :: nat where
  "sample_min = 8192"

section \<open>The base snapshot, read lazily\<close>

record base_cache =
  bc_pack_file :: "string option"
  bc_entries :: "(string \<times> tensor_entry) list"
  bc_compression :: compression_algo
  bc_raw :: "(string \<times> bytes) list option"

text \<open>\<^verbatim>\<open>data.truncate(n)\<close> where the size is known.\<close>

definition truncate_to :: "nat \<Rightarrow> bytes \<Rightarrow> bytes" where
  "truncate_to expected data = (if 0 < expected \<and> expected < length data then take expected data else data)"

definition read_compressed :: "'s backend \<Rightarrow> 's \<Rightarrow> base_cache \<Rightarrow> tensor_entry \<Rightarrow> bytes option result" where
  "read_compressed B s c entry =
     (case bc_pack_file c of
        Some pack \<Rightarrow>
          bind_res (b_get_range B s pack (te_offset entry) (te_compressed_size entry)) (\<lambda>data.
            if length data = te_compressed_size entry then Inr (Some data) else Inr None)
      | None \<Rightarrow>
          (case te_filename entry of
             Some filename \<Rightarrow>
               (case b_get B s filename of
                  Inr data \<Rightarrow> Inr (Some (truncate_to (te_compressed_size entry) data))
                | Inl e \<Rightarrow> Inr None)
           | None \<Rightarrow> Inr None))"

definition sample_prefix ::
    "'s backend \<Rightarrow> ext \<Rightarrow> 's \<Rightarrow> base_cache \<Rightarrow> tensor_entry \<Rightarrow> nat \<Rightarrow> bytes option" where
  "sample_prefix B X s c entry max_raw =
     (if te_storage entry \<noteq> Full then None
      else let window = min (te_compressed_size entry) sample_window;
               compressed = (case bc_pack_file c of
                   Some pack \<Rightarrow> (case b_get_range B s pack (te_offset entry) window of
                       Inr data \<Rightarrow> Some data | Inl e \<Rightarrow> None)
                 | None \<Rightarrow> (case te_filename entry of
                       None \<Rightarrow> None
                     | Some filename \<Rightarrow> (case b_get B s filename of
                           Inr data \<Rightarrow> Some (take window data) | Inl e \<Rightarrow> None)))
        in case compressed of
             None \<Rightarrow> None
           | Some data \<Rightarrow>
               (case decompress_prefix (x_zstd X) data (bc_compression c) max_raw of
                  Inr sample \<Rightarrow> Some sample | Inl e \<Rightarrow> None))"

definition has_raw :: "base_cache \<Rightarrow> string \<Rightarrow> bool" where
  "has_raw c name = (case bc_raw c of None \<Rightarrow> False | Some r \<Rightarrow> map_of r name \<noteq> None)"

definition base_bytes :: "'s backend \<Rightarrow> ext \<Rightarrow> 's \<Rightarrow> base_cache \<Rightarrow> tensor_entry \<Rightarrow> bytes option result" where
  "base_bytes B X s c entry =
     (if te_storage entry \<noteq> Full then Inr None
      else case (case bc_raw c of None \<Rightarrow> None | Some r \<Rightarrow> map_of r (te_name entry)) of
        Some data \<Rightarrow> Inr (Some data)
      | None \<Rightarrow>
          bind_res (read_compressed B s c entry) (\<lambda>r. case r of
              Some compressed \<Rightarrow>
                bind_res (decompress (x_zstd X) compressed (bc_compression c)) (\<lambda>raw. Inr (Some raw))
            | None \<Rightarrow> Inr None))"

section \<open>Storing identical tensors once\<close>

fun dedup_from :: "ext \<Rightarrow> ((string \<times> string) \<times> string) list \<Rightarrow> tensor_data list \<Rightarrow> string option list" where
  "dedup_from X first_seen [] = []"
| "dedup_from X first_seen (t # ts) =
     (if length (td_data t) < tensor_delta_min_size then None # dedup_from X first_seen ts
      else let key = (hash_hex X (td_data t), td_dtype t) in
        case map_of first_seen key of
          Some owner \<Rightarrow> Some owner # dedup_from X first_seen ts
        | None \<Rightarrow> None # dedup_from X ((key, td_name t) # first_seen) ts)"

definition dedup_plan :: "ext \<Rightarrow> tensor_data list \<Rightarrow> string option list" where
  "dedup_plan X tensors = dedup_from X [] tensors"

definition make_alias_entry :: "tensor_data \<Rightarrow> tensor_entry \<Rightarrow> tensor_entry" where
  "make_alias_entry tensor target =
     \<lparr>te_name = td_name tensor, te_shape = td_shape tensor, te_dtype = te_dtype target,
      te_original_dtype = te_original_dtype target, te_quant_scale = te_quant_scale target,
      te_storage = Alias, te_alias_of = Some (te_name target), te_filename = None, te_offset = 0,
      te_compressed_size = 0, te_raw_size = te_raw_size target, te_hash_raw = te_hash_raw target,
      te_hash_compressed = None, te_shuffled = False\<rparr>"

section \<open>Saving\<close>

text \<open>The bytes that are stored: cast when the policy says so and the tensor can be.\<close>

definition working_copy :: "tensor_data \<Rightarrow> dtype_policy \<Rightarrow> (bytes \<times> string \<times> 32 word option) result" where
  "working_copy tensor save_dtype =
     (let target = for_tensor save_dtype (td_name tensor) in
      if target \<noteq> DTypeNone \<and> is_castable_float (td_dtype tensor)
      then cast_tensor (td_data tensor) (td_dtype tensor) target
      else Inr (td_data tensor, td_dtype tensor, None))"

text \<open>What every entry says of the tensor, whichever way it is stored.\<close>

definition entry_for :: "ext \<Rightarrow> tensor_data \<Rightarrow> bytes \<Rightarrow> string \<Rightarrow> 32 word option \<Rightarrow> tensor_storage
    \<Rightarrow> bytes option \<Rightarrow> bool \<Rightarrow> tensor_entry" where
  "entry_for X tensor working_data working_dtype quant_scale storage written shuffled =
     \<lparr>te_name = td_name tensor, te_shape = td_shape tensor, te_dtype = working_dtype,
      te_original_dtype = (if working_dtype \<noteq> td_dtype tensor then Some (td_dtype tensor) else None),
      te_quant_scale = quant_scale, te_storage = storage, te_alias_of = None, te_filename = None,
      te_offset = 0, te_compressed_size = (case written of None \<Rightarrow> 0 | Some d \<Rightarrow> length d),
      te_raw_size = length working_data, te_hash_raw = hash_hex X working_data,
      te_hash_compressed = map_option (hash_hex X) written, te_shuffled = shuffled\<rparr>"

definition make_full_entry :: "ext \<Rightarrow> tensor_data \<Rightarrow> bytes \<Rightarrow> string \<Rightarrow> 32 word option
    \<Rightarrow> compression_algo \<Rightarrow> processed_tensor result" where
  "make_full_entry X tensor working_data working_dtype quant_scale algo =
     bind_res (compress (x_zstd X) working_data algo) (\<lambda>compressed.
       Inr \<lparr>pt_entry = entry_for X tensor working_data working_dtype quant_scale Full (Some compressed) False,
            pt_write_data = Some compressed\<rparr>)"

text \<open>
  The delta against the base, when it is worth it: \<open>None\<close> sends the tensor to a full save. The
  sampled window of the base gives a verdict before the base is read; without one the base itself
  gives it.
\<close>

definition try_delta :: "'s backend \<Rightarrow> ext \<Rightarrow> 's \<Rightarrow> base_cache \<Rightarrow> tensor_entry \<Rightarrow> tensor_data \<Rightarrow> bytes
    \<Rightarrow> string \<Rightarrow> compression_algo \<Rightarrow> f64 \<Rightarrow> bytes option result" where
  "try_delta B X s c base_entry tensor working_data working_dtype algo max_ratio =
     (let itemsize = element_size working_dtype;
          sample = (if has_raw c (td_name tensor) then None
                    else sample_prefix B X s c base_entry sample_raw);
          sampled_verdict = (case sample of
              Some pre \<Rightarrow> if sample_min \<le> length pre
                then Some (pays_off (x_zstd X) pre working_data algo max_ratio itemsize) else None
            | None \<Rightarrow> None)
      in if sampled_verdict = Some False then Inr None
         else bind_res (base_bytes B X s c base_entry) (\<lambda>base. case base of
             None \<Rightarrow> Inr None
           | Some base_raw \<Rightarrow>
               let worth_it = (case sampled_verdict of Some v \<Rightarrow> v
                     | None \<Rightarrow> pays_off (x_zstd X) base_raw working_data algo max_ratio itemsize)
               in Inr (if worth_it then compute_delta base_raw working_data else None)))"

definition process_tensor :: "'s backend \<Rightarrow> ext \<Rightarrow> 's \<Rightarrow> tensor_data \<Rightarrow> base_cache option
    \<Rightarrow> compression_algo \<Rightarrow> f64 \<Rightarrow> dtype_policy \<Rightarrow> processed_tensor result" where
  "process_tensor B X s tensor cache algo max_ratio save_dtype =
     bind_res (working_copy tensor save_dtype) (\<lambda>(working_data, working_dtype, quant_scale).
       let full = make_full_entry X tensor working_data working_dtype quant_scale algo in
       case cache of
         None \<Rightarrow> full
       | Some c \<Rightarrow>
           (case map_of (bc_entries c) (td_name tensor) of
              None \<Rightarrow> full
            | Some base_entry \<Rightarrow>
                if te_hash_raw base_entry = hash_hex X working_data then
                  Inr \<lparr>pt_entry = entry_for X tensor working_data working_dtype quant_scale Skipped None False,
                       pt_write_data = None\<rparr>
                else if te_raw_size base_entry = length working_data \<and> te_storage base_entry = Full
                   \<and> tensor_delta_min_size \<le> length working_data then
                  bind_res (try_delta B X s c base_entry tensor working_data working_dtype algo max_ratio)
                    (\<lambda>xor. case xor of
                       None \<Rightarrow> full
                     | Some xor_delta \<Rightarrow>
                         let itemsize = element_size working_dtype;
                             shuffled = (1 < itemsize);
                             to_compress = (if shuffled then shuffle xor_delta itemsize else xor_delta)
                         in bind_res (compress (x_zstd X) to_compress algo) (\<lambda>compressed.
                           Inr \<lparr>pt_entry = entry_for X tensor working_data working_dtype quant_scale
                                  DeltaXor (Some compressed) shuffled,
                                pt_write_data = Some compressed\<rparr>))
                else full))"

text \<open>Every tensor on its own, in parallel in the code; the results keep their order.\<close>

definition process_tensors_parallel :: "'s backend \<Rightarrow> ext \<Rightarrow> 's \<Rightarrow> tensor_data list \<Rightarrow> base_cache option
    \<Rightarrow> compression_algo \<Rightarrow> f64 \<Rightarrow> dtype_policy \<Rightarrow> processed_tensor list result" where
  "process_tensors_parallel B X s tensors cache algo max_ratio save_dtype =
     map_res (\<lambda>t. process_tensor B X s t cache algo max_ratio save_dtype) tensors"

section \<open>Loading\<close>

datatype pack_source = Whole bytes | Ranged string | PerFile

type_synonym base_entry = "tensor_entry \<times> compression_algo \<times> pack_source"
type_synonym base_resolver = "uuid \<Rightarrow> string \<Rightarrow> base_entry result"

definition extract_compressed :: "'s backend \<Rightarrow> 's \<Rightarrow> tensor_entry \<Rightarrow> pack_source \<Rightarrow> bytes result" where
  "extract_compressed B s entry pack =
     (let start = te_offset entry; end_at = start + te_compressed_size entry;
          per_file = bind_res (ok_or (te_filename entry) (NotFound ''No filename for tensor'')) (\<lambda>filename.
            bind_res (b_get B s filename) (\<lambda>data. Inr (truncate_to (te_compressed_size entry) data)))
      in case pack of
           Whole bs \<Rightarrow> if end_at \<le> length bs then Inr (take (te_compressed_size entry) (drop start bs))
                       else per_file
         | Ranged path \<Rightarrow>
             bind_res (b_get_range B s path start (te_compressed_size entry)) (\<lambda>data.
               if length data = te_compressed_size entry then Inr data
               else Inl (StorageErr ''Tensor wanted more bytes''))
         | PerFile \<Rightarrow> per_file)"

text \<open>At most eight hops along aliases.\<close>

fun resolve_hops :: "nat \<Rightarrow> base_resolver \<Rightarrow> uuid \<Rightarrow> string \<Rightarrow> base_entry result" where
  "resolve_hops 0 find_base base_id current = Inl (DeltaErr ''Alias chain does not end'')"
| "resolve_hops (Suc n) find_base base_id current =
     bind_res (find_base base_id current) (\<lambda>(entry, algo, pack).
       if te_storage entry \<noteq> Alias then Inr (entry, algo, pack)
       else bind_res (ok_or (te_alias_of entry) (NotFound ''Alias in the base has no target''))
              (resolve_hops n find_base base_id))"

definition resolve_base_entry :: "base_resolver \<Rightarrow> uuid \<Rightarrow> string \<Rightarrow> base_entry result" where
  "resolve_base_entry find_base base_id name = resolve_hops 8 find_base base_id name"

text \<open>
  Raw bytes, before the cast is undone. A base is loaded with no base of its own, so it has to be
  stored in full: the recursion goes one step.
\<close>

function load_tensor_raw :: "'s backend \<Rightarrow> ext \<Rightarrow> 's \<Rightarrow> base_resolver \<Rightarrow> tensor_entry \<Rightarrow> uuid option
    \<Rightarrow> compression_algo \<Rightarrow> pack_source \<Rightarrow> bytes result" where
  "load_tensor_raw B X s find_base entry snap_base algo pack =
     (case te_storage entry of
        Alias \<Rightarrow> Inl (NotFound ''Tensor is an alias'')
      | Skipped \<Rightarrow>
          bind_res (ok_or snap_base (DeltaErr ''Tensor is skipped but snapshot has no base'')) (\<lambda>base_id.
            bind_res (resolve_base_entry find_base base_id (te_name entry)) (\<lambda>(base, base_algo, base_pack).
              load_tensor_raw B X s find_base base None base_algo base_pack))
      | Full \<Rightarrow>
          bind_res (extract_compressed B s entry pack) (\<lambda>compressed.
            case te_hash_compressed entry of
              Some expected \<Rightarrow>
                if hash_hex X compressed \<noteq> expected
                then Inl (IntegrityErr expected (hash_hex X compressed))
                else decompress (x_zstd X) compressed algo
            | None \<Rightarrow> decompress (x_zstd X) compressed algo)
      | DeltaXor \<Rightarrow>
          bind_res (extract_compressed B s entry pack) (\<lambda>compressed.
            bind_res (decompress (x_zstd X) compressed algo) (\<lambda>shuffled.
              let delta_data = (if te_shuffled entry then unshuffle shuffled (element_size (te_dtype entry))
                                else shuffled)
              in bind_res (ok_or snap_base (DeltaErr ''Delta tensor has no base snapshot'')) (\<lambda>base_id.
                bind_res (resolve_base_entry find_base base_id (te_name entry)) (\<lambda>(base, base_algo, base_pack).
                  bind_res (load_tensor_raw B X s find_base base None base_algo base_pack) (\<lambda>base_raw.
                    bind_res (apply_delta base_raw delta_data) (\<lambda>raw.
                      if hash_hex X raw \<noteq> te_hash_raw entry
                      then Inl (IntegrityErr (te_hash_raw entry) (hash_hex X raw))
                      else Inr raw)))))))"
  by pat_completeness auto
termination
  by (relation "measure (\<lambda>(B, X, s, find_base, entry, snap_base, algo, pack).
      case snap_base of None \<Rightarrow> 0 | Some _ \<Rightarrow> 1)") (auto simp: ok_or_def split: option.splits)

declare load_tensor_raw.simps [simp del]

definition load_tensor :: "'s backend \<Rightarrow> ext \<Rightarrow> 's \<Rightarrow> base_resolver \<Rightarrow> tensor_entry \<Rightarrow> uuid option
    \<Rightarrow> compression_algo \<Rightarrow> pack_source \<Rightarrow> bytes result" where
  "load_tensor B X s find_base entry snap_base algo pack =
     bind_res (load_tensor_raw B X s find_base entry snap_base algo pack) (\<lambda>raw.
       case te_original_dtype entry of
         Some orig_dtype \<Rightarrow>
           if orig_dtype \<noteq> te_dtype entry
           then uncast_tensor raw (te_dtype entry) orig_dtype (te_quant_scale entry) else Inr raw
       | None \<Rightarrow> Inr raw)"

section \<open>Facts about the pieces\<close>

lemma entry_for_simps [simp]:
  "te_name (entry_for X t w d q st wr sh) = td_name t"
  "te_shape (entry_for X t w d q st wr sh) = td_shape t"
  "te_dtype (entry_for X t w d q st wr sh) = d"
  "te_quant_scale (entry_for X t w d q st wr sh) = q"
  "te_storage (entry_for X t w d q st wr sh) = st"
  "te_raw_size (entry_for X t w d q st wr sh) = length w"
  "te_hash_raw (entry_for X t w d q st wr sh) = hash_hex X w"
  "te_shuffled (entry_for X t w d q st wr sh) = sh"
  "te_compressed_size (entry_for X t w d q st wr sh) = (case wr of None \<Rightarrow> 0 | Some b \<Rightarrow> length b)"
  "te_hash_compressed (entry_for X t w d q st wr sh) = map_option (hash_hex X) wr"
  "te_original_dtype (entry_for X t w d q st wr sh) = (if d \<noteq> td_dtype t then Some (td_dtype t) else None)"
  by (simp_all add: entry_for_def)

lemma resolve_hops_not_alias:
  "resolve_hops n find_base i name = Inr (e, algo, pack) \<Longrightarrow> te_storage e \<noteq> Alias"
  by (induction n arbitrary: name) (auto simp: effect_simps split: if_splits)

text \<open>The placing of the packer: an entry's bytes are at its offset.\<close>

lemma extract_whole:
  assumes "te_compressed_size e = length d" and "te_offset e = length before"
  shows "extract_compressed B s e (Whole (before @ d @ rest)) = Inr d"
  using assms by (simp add: extract_compressed_def Let_def)

lemma compute_delta_apply: "compute_delta base target = Some d \<Longrightarrow> apply_delta base d = Inr target"
  by (auto simp: compute_delta_Some_iff apply_delta_def xor_bytes_cancel)

lemma decompress_compressed: "zstd_ok z algo data \<Longrightarrow> compress z data algo = Inr c \<Longrightarrow> decompress z c algo = Inr data"
  using decompress_of_compress [of z algo data] by auto

section \<open>What is saved can be loaded\<close>

text \<open>
  The base as the saver sees it (its cache) and as the loader will (a resolver): every entry of the
  cache resolves to a tensor the loader can read, of the size and hash the entry says, and the
  bytes the saver diffs against are those bytes.
\<close>

definition base_agrees :: "'s backend \<Rightarrow> ext \<Rightarrow> 's \<Rightarrow> 's backend \<Rightarrow> 's \<Rightarrow> base_resolver \<Rightarrow> uuid
    \<Rightarrow> base_cache \<Rightarrow> string \<Rightarrow> bytes \<Rightarrow> bool" where
  "base_agrees B X s B' s' find_base base_id c name raw \<longleftrightarrow>
     (case map_of (bc_entries c) name of
        None \<Rightarrow> True
      | Some e \<Rightarrow>
          te_hash_raw e = hash_hex X raw
          \<and> (case resolve_base_entry find_base base_id name of
               Inl _ \<Rightarrow> False
             | Inr (be, algo, pack) \<Rightarrow> load_tensor_raw B' X s' find_base be None algo pack = Inr raw)
          \<and> (case base_bytes B X s c e of Inr (Some b) \<Rightarrow> b = raw | _ \<Rightarrow> True))"

lemma load_full_entry:
  assumes "te_storage e = Full" and "te_hash_compressed e = Some (hash_hex X d)"
    and "extract_compressed B s e pack = Inr d" and "decompress (x_zstd X) d algo = Inr raw"
  shows "load_tensor_raw B X s find_base e snap_base algo pack = Inr raw"
  using assms by (simp add: load_tensor_raw.simps [of B X s find_base e])

lemma load_delta_entry:
  assumes "te_storage e = DeltaXor" and "extract_compressed B s e pack = Inr d"
    and "decompress (x_zstd X) d algo = Inr (if te_shuffled e then shuffle diff (element_size (te_dtype e)) else diff)"
    and "resolve_base_entry find_base i (te_name e) = Inr (be, algo', pack')"
    and "load_tensor_raw B X s find_base be None algo' pack' = Inr base_raw"
    and "apply_delta base_raw diff = Inr raw" and "te_hash_raw e = hash_hex X raw"
  shows "load_tensor_raw B X s find_base e (Some i) algo pack = Inr raw"
  using assms by (simp add: load_tensor_raw.simps [of B X s find_base e])

lemma load_skipped_entry:
  assumes "te_storage e = Skipped"
    and "resolve_base_entry find_base i (te_name e) = Inr (be, algo', pack')"
    and "load_tensor_raw B X s find_base be None algo' pack' = Inr raw"
  shows "load_tensor_raw B X s find_base e (Some i) algo pack = Inr raw"
  using assms by (simp add: load_tensor_raw.simps [of B X s find_base e])

lemma base_agreesD:
  assumes "base_agrees B X s B' s' find_base i c name raw" and "map_of (bc_entries c) name = Some e"
  obtains be algo' pack' where "te_hash_raw e = hash_hex X raw"
    "resolve_base_entry find_base i name = Inr (be, algo', pack')"
    "load_tensor_raw B' X s' find_base be None algo' pack' = Inr raw"
    "\<And>b. base_bytes B X s c e = Inr (Some b) \<Longrightarrow> b = raw"
  using assms by (auto simp: base_agrees_def split: sum.splits prod.splits option.splits)

text \<open>A delta is only ever taken against the base's own bytes.\<close>

lemma try_delta_SomeD:
  "try_delta B X s c e t w d algo r = Inr (Some diff)
    \<Longrightarrow> \<exists>base. base_bytes B X s c e = Inr (Some base) \<and> compute_delta base w = Some diff"
  by (auto simp: try_delta_def Let_def effect_simps split: if_splits option.splits)

text \<open>The three shapes of a processed tensor.\<close>

lemma process_tensor_cases:
  assumes "process_tensor B X s t cache algo ratio save_dtype = Inr p"
    and "working_copy t save_dtype = Inr (w, d, q)"
  obtains
    (Full) dat where "compress (x_zstd X) w algo = Inr dat"
      "p = \<lparr>pt_entry = entry_for X t w d q Full (Some dat) False, pt_write_data = Some dat\<rparr>"
  | (Skipped) c base_entry where "cache = Some c" "map_of (bc_entries c) (td_name t) = Some base_entry"
      "te_hash_raw base_entry = hash_hex X w"
      "p = \<lparr>pt_entry = entry_for X t w d q Skipped None False, pt_write_data = None\<rparr>"
  | (Delta) c base_entry base diff dat where "cache = Some c"
      "map_of (bc_entries c) (td_name t) = Some base_entry"
      "base_bytes B X s c base_entry = Inr (Some base)" "compute_delta base w = Some diff"
      "compress (x_zstd X) (if 1 < element_size d then shuffle diff (element_size d) else diff) algo = Inr dat"
      "p = \<lparr>pt_entry = entry_for X t w d q DeltaXor (Some dat) (1 < element_size d), pt_write_data = Some dat\<rparr>"
proof -
  have full: thesis if "make_full_entry X t w d q algo = Inr p"
    using that Full by (auto simp: make_full_entry_def effect_simps)
  show thesis
  proof (cases cache)
    case None
    with assms full show thesis by (simp add: process_tensor_def Let_def)
  next
    case c: (Some c)
    show thesis
    proof (cases "map_of (bc_entries c) (td_name t)")
      case None
      with c assms full show thesis by (simp add: process_tensor_def Let_def)
    next
      case e: (Some e)
      show thesis
      proof (cases "te_hash_raw e = hash_hex X w")
        case True
        with c e assms Skipped show thesis by (auto simp: process_tensor_def Let_def)
      next
        case False
        with c e assms full Delta show thesis
          by (auto simp: process_tensor_def Let_def effect_simps dest!: try_delta_SomeD
              split: if_splits option.splits)
      qed
    qed
  qed
qed

lemma process_tensor_load:
  assumes "process_tensor B X s t cache algo ratio save_dtype = Inr p"
    and w: "working_copy t save_dtype = Inr (w, d, q)"
    and zs: "\<And>b. length b = length w \<Longrightarrow> zstd_ok (x_zstd X) algo b"
    and e: "e = (pt_entry p)\<lparr>te_offset := off, te_filename := f\<rparr>"
    and dat: "\<And>dat. pt_write_data p = Some dat \<Longrightarrow> extract_compressed B' s' e pack = Inr dat"
    and base: "\<And>c. cache = Some c \<Longrightarrow> snap_base = Some i \<and> base_agrees B X s B' s' find_base i c (td_name t) raw"
    and coll: "hash_hex X raw = hash_hex X w \<Longrightarrow> raw = w"
  shows "load_tensor_raw B' X s' find_base e snap_base algo pack = Inr w"
  using assms(1) w
proof (cases rule: process_tensor_cases)
  case (Full z)
  then show ?thesis
    using dat [of z] e zs [of w] by (intro load_full_entry [of _ _ z]) (auto dest: decompress_compressed)
next
  case (Skipped c be)
  with base have "snap_base = Some i" "base_agrees B X s B' s' find_base i c (td_name t) raw" by auto
  from this(2) Skipped(2) obtain b algo' pack' where r: "te_hash_raw be = hash_hex X raw"
      "resolve_base_entry find_base i (td_name t) = Inr (b, algo', pack')"
      "load_tensor_raw B' X s' find_base b None algo' pack' = Inr raw"
    by (rule base_agreesD)
  with coll Skipped(3) have "raw = w" by simp
  moreover have "te_storage e = Skipped" "te_name e = td_name t" using Skipped(4) e by simp_all
  ultimately show ?thesis
    using r(2,3) \<open>snap_base = Some i\<close> by (simp add: load_skipped_entry)
next
  case (Delta c be bs diff z)
  with base have sb: "snap_base = Some i" and ag: "base_agrees B X s B' s' find_base i c (td_name t) raw" by auto
  obtain b algo' pack' where r: "resolve_base_entry find_base i (td_name t) = Inr (b, algo', pack')"
      "load_tensor_raw B' X s' find_base b None algo' pack' = Inr raw" and bs: "bs = raw"
    using base_agreesD [OF ag Delta(2)] Delta(3) by metis
  let ?c = "if 1 < element_size d then shuffle diff (element_size d) else diff"
  have "length diff = length w" using Delta(4) by (auto simp: compute_delta_Some_iff)
  then have "zstd_ok (x_zstd X) algo ?c" by (intro zs) simp
  then have "decompress (x_zstd X) z algo = Inr ?c" using Delta(5) by (rule decompress_compressed)
  then show ?thesis
    using r(1,2) dat [of z] compute_delta_apply [OF Delta(4)] Delta(6) e bs
    unfolding sb by (intro load_delta_entry [of _ B' s' pack z X algo diff find_base i b algo' pack' raw]) simp_all
qed

lemma load_processed:
  assumes "process_tensor B X s t cache algo ratio save_dtype = Inr p"
    and "working_copy t save_dtype = Inr (w, d, q)"
    and "\<And>b. length b = length w \<Longrightarrow> zstd_ok (x_zstd X) algo b"
    and "e = (pt_entry p)\<lparr>te_offset := off, te_filename := f\<rparr>"
    and "\<And>dat. pt_write_data p = Some dat \<Longrightarrow> extract_compressed B' s' e pack = Inr dat"
    and "\<And>c. cache = Some c \<Longrightarrow> snap_base = Some i \<and> base_agrees B X s B' s' find_base i c (td_name t) raw"
    and "hash_hex X raw = hash_hex X w \<Longrightarrow> raw = w"
  shows "load_tensor B' X s' find_base e snap_base algo pack
    = (if d = td_dtype t then Inr w else uncast_tensor w d (td_dtype t) q)"
proof -
  have "load_tensor_raw B' X s' find_base e snap_base algo pack = Inr w"
    using assms by (rule process_tensor_load)
  moreover have "te_dtype e = d" "te_quant_scale e = q"
      "te_original_dtype e = (if d \<noteq> td_dtype t then Some (td_dtype t) else None)"
    using assms(1,2) by (cases rule: process_tensor_cases; simp add: assms(4))+
  ultimately show ?thesis by (simp add: load_tensor_def)
qed

text \<open>
  C24. A checkpoint gives a tensor back: whatever \<^verbatim>\<open>process_tensor\<close> decided - skipped because the base
  has it, a shuffled and compressed delta, or a full copy - loading the entry from where its bytes
  were put gives the tensor's bytes as they were stored, cast back to the dtype it came in. The
  hypotheses are that zstd keeps its promise on buffers of this size, that the base the saver
  used is the base the loader finds, and that the hash did not collide between the two.
\<close>

theorem process_then_load:
  assumes "process_tensor B X s t cache algo ratio save_dtype = Inr p"
    and "working_copy t save_dtype = Inr (w, d, q)"
    and "\<And>b. length b = length w \<Longrightarrow> zstd_ok (x_zstd X) algo b"
    and "e = (pt_entry p)\<lparr>te_offset := off, te_filename := f\<rparr>"
    and "\<And>dat. pt_write_data p = Some dat \<Longrightarrow> extract_compressed B' s' e pack = Inr dat"
    and "\<And>c. cache = Some c \<Longrightarrow> snap_base = Some i \<and> base_agrees B X s B' s' find_base i c (td_name t) raw"
    and "hash_hex X raw = hash_hex X w \<Longrightarrow> raw = w"
  shows "load_tensor B' X s' find_base e snap_base algo pack
    = (if d = td_dtype t then Inr w else uncast_tensor w d (td_dtype t) q)"
  using assms by (rule load_processed)

definition codec_ext :: ext where
  "codec_ext = sample_ext undefined undefined undefined []"

definition sample_tensor :: tensor_data where
  "sample_tensor = \<lparr>td_name = ''w'', td_shape = [3], td_dtype = ''uint8'', td_data = [1, 2, 3]\<rparr>"

definition sample_base_entry :: "ext \<Rightarrow> tensor_entry" where
  "sample_base_entry X = entry_for X sample_tensor [1, 2, 3] ''uint8'' None Full (Some [1, 2, 3]) False"

definition sample_cache :: "ext \<Rightarrow> base_cache" where
  "sample_cache X = \<lparr>bc_pack_file = None, bc_entries = [(''w'', sample_base_entry X)],
     bc_compression = NoCompression, bc_raw = Some [(''w'', [1, 2, 3])]\<rparr>"

theorem process_then_load_witness:
  "\<exists>p. process_tensor (local_backend True 16) codec_ext empty_fs sample_tensor (Some (sample_cache codec_ext))
        (Zstd 3) 1 [] = Inr p
     \<and> load_tensor (local_backend True 16) codec_ext empty_fs
        (\<lambda>i name. Inr (sample_base_entry codec_ext, NoCompression, Whole [1, 2, 3]))
        (pt_entry p) (Some 7) (Zstd 3) PerFile = Inr [1, 2, 3]"
proof -
  let ?B = "local_backend True 16"
  let ?find = "\<lambda>i name. Inr (sample_base_entry codec_ext, NoCompression, Whole [1, 2, 3])"
  let ?e = "entry_for codec_ext sample_tensor [1, 2, 3] ''uint8'' None Skipped None False"
  let ?p = "\<lparr>pt_entry = ?e, pt_write_data = None\<rparr>"
  have w: "working_copy sample_tensor [] = Inr ([1, 2, 3], ''uint8'', None)"
    by (simp add: working_copy_def sample_tensor_def)
  have p: "process_tensor ?B codec_ext empty_fs sample_tensor (Some (sample_cache codec_ext)) (Zstd 3) 1 [] = Inr ?p"
    using w by (simp add: process_tensor_def sample_cache_def sample_base_entry_def sample_tensor_def Let_def)
  have res: "resolve_base_entry ?find 7 ''w'' = Inr (sample_base_entry codec_ext, NoCompression, Whole [1, 2, 3])"
    by (simp add: resolve_base_entry_def sample_base_entry_def numeral_eq_Suc)
  have raw: "load_tensor_raw ?B codec_ext empty_fs ?find (sample_base_entry codec_ext) None NoCompression (Whole [1, 2, 3])
      = Inr [1, 2, 3]"
    by (rule load_full_entry [of _ _ "[1, 2, 3]"])
      (simp_all add: sample_base_entry_def extract_compressed_def entry_for_def)
  have ag: "base_agrees ?B codec_ext empty_fs ?B empty_fs ?find 7 (sample_cache codec_ext) ''w'' [1, 2, 3]"
    using res raw
    by (simp add: base_agrees_def sample_cache_def base_bytes_def sample_base_entry_def sample_tensor_def)
  have "load_tensor ?B codec_ext empty_fs ?find ?e (Some 7) (Zstd 3) PerFile = Inr [1, 2, 3]"
    using process_then_load [OF p w, where e = ?e and off = 0 and f = None and B' = ?B and s' = empty_fs
        and pack = PerFile and snap_base = "Some 7" and i = 7 and find_base = ?find and raw = "[1, 2, 3]"] ag
    by (simp add: stored_zstd_ok parallel_chunk_def sample_tensor_def entry_for_def codec_ext_def)
  with p show ?thesis by auto
qed

section \<open>Deduplication\<close>

definition dedup_key :: "ext \<Rightarrow> tensor_data \<Rightarrow> string \<times> string" where
  "dedup_key X t = (hash_hex X (td_data t), td_dtype t)"

definition dedup_eligible :: "tensor_data \<Rightarrow> bool" where
  "dedup_eligible t \<longleftrightarrow> tensor_delta_min_size \<le> length (td_data t)"

lemma dedup_from_Cons:
  "dedup_from X seen (t # ts) =
     (if \<not> dedup_eligible t then None # dedup_from X seen ts
      else case map_of seen (dedup_key X t) of
          Some owner \<Rightarrow> Some owner # dedup_from X seen ts
        | None \<Rightarrow> None # dedup_from X ((dedup_key X t, td_name t) # seen) ts)"
  by (simp add: dedup_eligible_def dedup_key_def not_le Let_def split: option.splits)

declare dedup_from.simps(2) [simp del]

lemma length_dedup_from [simp]: "length (dedup_from X seen ts) = length ts"
  by (induction ts arbitrary: seen) (auto simp: dedup_from_Cons split: option.splits)

text \<open>The first tensor with the key of \<open>t\<close>, when there is one before it.\<close>

definition dedup_owner :: "ext \<Rightarrow> tensor_data list \<Rightarrow> tensor_data \<Rightarrow> string option" where
  "dedup_owner X before t =
     (if \<not> dedup_eligible t then None
      else map_option td_name (find (\<lambda>u. dedup_eligible u \<and> dedup_key X u = dedup_key X t) before))"

lemma dedup_from_owner:
  assumes "\<And>k. map_of seen k = map_option td_name (find (\<lambda>u. dedup_eligible u \<and> dedup_key X u = k) before)"
  shows "dedup_from X seen ts = map (\<lambda>i. dedup_owner X (before @ take i ts) (ts ! i)) [0..<length ts]"
  using assms
proof (induction ts arbitrary: seen before)
  case (Cons t ts)
  have shift: "map (\<lambda>i. dedup_owner X (before @ take i (t # ts)) ((t # ts) ! i)) [0..<length (t # ts)]
      = dedup_owner X before t # map (\<lambda>i. dedup_owner X ((before @ [t]) @ take i ts) (ts ! i)) [0..<length ts]"
    by (simp add: upt_conv_Cons map_Suc_upt [symmetric] comp_def del: upt_Suc)
  have app: "find P (before @ [t]) = (case find P before of None \<Rightarrow> (if P t then Some t else None) | Some u \<Rightarrow> Some u)" for P
    by (induction before) auto
  show ?case
  proof (cases "dedup_eligible t \<and> map_of seen (dedup_key X t) = None")
    case True
    let ?seen = "(dedup_key X t, td_name t) # seen"
    have "map_of ?seen k = map_option td_name (find (\<lambda>u. dedup_eligible u \<and> dedup_key X u = k) (before @ [t]))" for k
      using True Cons.prems [of k] by (auto simp: app split: option.splits)
    from Cons.IH [OF this] True Cons.prems [of "dedup_key X t"] show ?thesis
      unfolding shift by (simp add: dedup_from_Cons dedup_owner_def)
  next
    case False
    have "map_of seen k = map_option td_name (find (\<lambda>u. dedup_eligible u \<and> dedup_key X u = k) (before @ [t]))" for k
      using False Cons.prems [of k] by (auto simp: app split: option.splits)
    from Cons.IH [OF this] False Cons.prems [of "dedup_key X t"] show ?thesis
      unfolding shift by (auto simp: dedup_from_Cons dedup_owner_def split: option.splits)
  qed
qed simp

text \<open>
  Each set of identical tensors is stored once: a tensor is planned as an alias exactly when a
  tensor before it has the same hash and dtype and both are worth it, and then of the first such,
  which is itself stored.
\<close>

theorem dedup_plan_first:
  "dedup_plan X ts = map (\<lambda>i. dedup_owner X (take i ts) (ts ! i)) [0..<length ts]"
  using dedup_from_owner [of "[]" X "[]" ts] by (simp add: dedup_plan_def)

text \<open>
  The plan does not look at the policy: two tensors with the same bytes are stored once, with the
  dtype of the first, even where the policy stores the second as it arrived and the cast is lossy.
\<close>

lemma dedup_ignores_policy:
  assumes "td_data a = td_data b" "td_dtype a = td_dtype b" "tensor_delta_min_size \<le> length (td_data a)"
  shows "dedup_plan X [a, b] = [None, Some (td_name a)]"
    and "te_dtype (make_alias_entry b e) = te_dtype e"
    and "for_tensor [(''opt'', BFloat16)] ''opt'' = BFloat16"
    and "for_tensor [(''opt'', BFloat16)] ''model'' = DTypeNone"
    and "bf16_bits_to_fp32_bits (fp32_bits_to_bf16_bits 0x01010101) \<noteq> 0x01010101"
  using assms
  by (simp_all add: dedup_plan_def dedup_from_Cons dedup_eligible_def dedup_key_def make_alias_entry_def
      glob_match_spec glob_spec_lit star_def fp32_bits_to_bf16_bits_def bf16_bits_to_fp32_bits_def)

end
