(* ===== verification/ManifestIO.thy ===== *)
theory ManifestIO
  imports Manifest Pack Storage
begin

text \<open>
  How the manifest lies in storage, \<^verbatim>\<open>src/src/manifest_io.rs\<close>: an index, \<^verbatim>\<open>manifest.json\<close>, and a
  \<^verbatim>\<open>ranks.json\<close> per finalised snapshot. Proved once for every backend that keeps the contract and
  read off for the local store.
\<close>

section \<open>Paths\<close>

definition manifest_path :: string where
  "manifest_path = ''manifest.json''"

definition ranks_file :: string where
  "ranks_file = ''ranks.json''"

definition format_version :: nat where
  "format_version = 3"

definition ranks_path :: "ext \<Rightarrow> uuid \<Rightarrow> string" where
  "ranks_path X i = ''snapshots/'' @ x_uuid_str X i @ ''/'' @ ranks_file"

lemma ranks_path_neq [simp]: "ranks_path X i \<noteq> manifest_path" "manifest_path \<noteq> ranks_path X i"
  by (simp_all add: ranks_path_def manifest_path_def)

lemma ranks_path_eq_iff [simp]: "ranks_path X i = ranks_path X j \<longleftrightarrow> x_uuid_str X i = x_uuid_str X j"
  by (simp add: ranks_path_def)

section \<open>Writing\<close>

definition out_of_line :: "snapshot \<Rightarrow> bool" where
  "out_of_line sn \<longleftrightarrow> sn_finalized sn \<and> sn_ranks sn \<noteq> []"

definition ranks_out :: "snapshot \<Rightarrow> ranks_doc" where
  "ranks_out sn = \<lparr>rd_snapshot_id = sn_id sn, rd_ranks = sn_ranks sn\<rparr>"

definition write_ranks :: "'s backend \<Rightarrow> ext \<Rightarrow> snapshot \<Rightarrow> ('s, unit) io" where
  "write_ranks B X sn =
     bind_io (lift_io (serialization (js_to_vec (x_ranks X) (ranks_out sn))))
       (\<lambda>body. b_put B (ranks_path X (sn_id sn)) body)"

definition head_out :: "ext \<Rightarrow> uuid set \<Rightarrow> snapshot \<Rightarrow> head_doc" where
  "head_out X written sn =
     \<lparr>hd_id = sn_id sn, hd_step = sn_step sn, hd_created_at = sn_created_at sn,
      hd_ranks = (if sn_id sn \<notin> written then Some (sn_ranks sn) else None),
      hd_ranks_in = (if sn_id sn \<in> written then Some (ranks_path X (sn_id sn)) else None),
      hd_base_snapshot_id = sn_base_snapshot_id sn, hd_metadata = sn_metadata sn,
      hd_compression = sn_compression sn, hd_finalized = sn_finalized sn, hd_pinned = sn_pinned sn\<rparr>"

definition index_out :: "ext \<Rightarrow> manifest \<Rightarrow> index_doc" where
  "index_out X m =
     \<lparr>ix_format_version = format_version, ix_world_size = mf_world_size m,
      ix_snapshots = map (head_out X (mf_ranks_written m)) (mf_snapshots m),
      ix_retention = mf_retention m, ix_lineage = mf_lineage m\<rparr>"

definition unwritten_ids :: "manifest \<Rightarrow> uuid list" where
  "unwritten_ids m =
     map sn_id (filter (\<lambda>sn. out_of_line sn \<and> sn_id sn \<notin> mf_ranks_written m) (mf_snapshots m))"

text \<open>What \<^verbatim>\<open>persist\<close> leaves in \<^verbatim>\<open>ranks_written\<close> once the files are down.\<close>

definition after_ranks :: "manifest \<Rightarrow> manifest" where
  "after_ranks m = m\<lparr>mf_ranks_written :=
     (mf_ranks_written m \<union> set (unwritten_ids m)) \<inter> set (map sn_id (mf_snapshots m))\<rparr>"

lemma after_ranks_simps [simp]:
  "mf_snapshots (after_ranks m) = mf_snapshots m" "mf_world_size (after_ranks m) = mf_world_size m"
  "mf_retention (after_ranks m) = mf_retention m" "mf_lineage (after_ranks m) = mf_lineage m"
  "mf_format_version (after_ranks m) = mf_format_version m"
  by (simp_all add: after_ranks_def)

definition persist :: "'s backend \<Rightarrow> ext \<Rightarrow> ('s \<times> manifest, unit) io" where
  "persist B X sm =
     (case sm of (s, m) \<Rightarrow>
       (case each_io (write_ranks B X)
               (filter (\<lambda>sn. sn_id sn \<in> set (unwritten_ids m)) (mf_snapshots m)) s of
          (Inl e, s1) \<Rightarrow> (Inl e, (s1, m))
        | (Inr _, s1) \<Rightarrow>
            let m1 = after_ranks m in
            (case serialization (js_to_vec (x_index X) (index_out X m1)) of
               Inl e \<Rightarrow> (Inl e, (s1, m1))
             | Inr json \<Rightarrow>
                 (case b_put B manifest_path json s1 of (r, s2) \<Rightarrow> (r, (s2, m1))))))"

section \<open>Reading\<close>

definition read_ranks :: "'s backend \<Rightarrow> ext \<Rightarrow> 's \<Rightarrow> string \<Rightarrow> uuid \<Rightarrow> (nat \<times> rank_entry) list option" where
  "read_ranks B X s path i =
     (case b_get B s path of
        Inl e \<Rightarrow> None
      | Inr data \<Rightarrow>
          (case js_from_slice (x_ranks X) (strip_zeros data) of
             Inl e \<Rightarrow> None
           | Inr doc \<Rightarrow> if rd_snapshot_id doc = i then Some (rd_ranks doc) else None))"

definition snapshot_of_head :: "head_doc \<Rightarrow> (nat \<times> rank_entry) list \<Rightarrow> snapshot" where
  "snapshot_of_head h ranks =
     \<lparr>sn_id = hd_id h, sn_step = hd_step h, sn_created_at = hd_created_at h, sn_ranks = ranks,
      sn_base_snapshot_id = hd_base_snapshot_id h, sn_metadata = hd_metadata h,
      sn_compression = hd_compression h, sn_finalized = hd_finalized h, sn_pinned = hd_pinned h\<rparr>"

text \<open>
  The loop over the index's heads: the snapshots that could be read, the ids whose ranks have a
  file of their own, and the ids that could not be read. \<open>held\<close> is what the previous manifest
  gives up, an entry at a time.
\<close>

fun load_heads :: "'s backend \<Rightarrow> ext \<Rightarrow> 's \<Rightarrow> (uuid \<times> (nat \<times> rank_entry) list) list \<Rightarrow> head_doc list
    \<Rightarrow> snapshot list \<times> uuid set \<times> uuid set" where
  "load_heads B X s held [] = ([], {}, {})"
| "load_heads B X s held (h # hs) =
     (case (hd_ranks h, hd_ranks_in h) of
        (Some inline, _) \<Rightarrow>
          (case load_heads B X s held hs of (sns, written, bad) \<Rightarrow>
             (snapshot_of_head h inline # sns, written, bad))
      | (None, Some path) \<Rightarrow>
          (case (case map_of held (hd_id h) of
                   Some ranks \<Rightarrow> Some ranks | None \<Rightarrow> read_ranks B X s path (hd_id h)) of
             Some ranks \<Rightarrow>
               (case load_heads B X s (AList.delete (hd_id h) held) hs of (sns, written, bad) \<Rightarrow>
                  (snapshot_of_head h ranks # sns, insert (hd_id h) written, bad))
           | None \<Rightarrow>
               (case load_heads B X s (AList.delete (hd_id h) held) hs of (sns, written, bad) \<Rightarrow>
                  (sns, written, insert (hd_id h) bad)))
      | (None, None) \<Rightarrow>
          (case load_heads B X s held hs of (sns, written, bad) \<Rightarrow>
             (snapshot_of_head h [] # sns, written, bad)))"

definition held_ranks :: "manifest \<Rightarrow> (uuid \<times> (nat \<times> rank_entry) list) list" where
  "held_ranks m = fold (\<lambda>sn held. AList.update (sn_id sn) (sn_ranks sn) held)
     (filter (\<lambda>sn. sn_id sn \<in> mf_ranks_written m) (mf_snapshots m)) []"

text \<open>\<^verbatim>\<open>std::mem::take\<close>: what the previous manifest is left with.\<close>

definition ranks_taken :: "manifest \<Rightarrow> manifest" where
  "ranks_taken m = m\<lparr>mf_snapshots := map (\<lambda>sn.
     if sn_id sn \<in> mf_ranks_written m then sn\<lparr>sn_ranks := []\<rparr> else sn) (mf_snapshots m)\<rparr>"

definition keep_readable :: "uuid set \<Rightarrow> snapshot list \<Rightarrow> snapshot list" where
  "keep_readable bad sns =
     filter (\<lambda>sn. case sn_base_snapshot_id sn of None \<Rightarrow> True | Some base \<Rightarrow> base \<notin> bad) sns"

definition manifest_of_index :: "index_doc \<Rightarrow> snapshot list \<Rightarrow> uuid set \<Rightarrow> manifest" where
  "manifest_of_index ix sns written =
     \<lparr>mf_format_version = max (ix_format_version ix) format_version,
      mf_world_size = ix_world_size ix, mf_snapshots = sns,
      mf_retention = ix_retention ix, mf_lineage = ix_lineage ix, mf_ranks_written = written\<rparr>"

definition load :: "'s backend \<Rightarrow> ext \<Rightarrow> 's \<Rightarrow> manifest option
    \<Rightarrow> manifest option result \<times> manifest option" where
  "load B X s previous =
     (case b_get B s manifest_path of
        Inl (NotFound p) \<Rightarrow> (Inr None, previous)
      | Inl e \<Rightarrow> (Inl e, previous)
      | Inr data \<Rightarrow>
          (case serialization (js_from_slice (x_index X) (strip_zeros data)) of
             Inl e \<Rightarrow> (Inl e, previous)
           | Inr ix \<Rightarrow>
               let held = (case previous of None \<Rightarrow> [] | Some m \<Rightarrow> held_ranks m) in
               (case load_heads B X s held (ix_snapshots ix) of (sns, written, bad) \<Rightarrow>
                  (Inr (Some (manifest_of_index ix
                      (if bad = {} then sns else keep_readable bad sns) written)),
                   map_option ranks_taken previous))))"

text \<open>Every snapshot said to have a file has one, and the file says what the snapshot says.\<close>

definition ranks_stored :: "'s backend \<Rightarrow> ext \<Rightarrow> 's \<Rightarrow> manifest \<Rightarrow> bool" where
  "ranks_stored B X s m \<longleftrightarrow> list_all (\<lambda>sn. sn_id sn \<in> mf_ranks_written m \<longrightarrow>
     read_ranks B X s (ranks_path X (sn_id sn)) (sn_id sn) = Some (sn_ranks sn)) (mf_snapshots m)"

text \<open>serde_json can write and read back this manifest's documents, and ids have distinct texts.\<close>

definition manifest_codable :: "ext \<Rightarrow> manifest \<Rightarrow> bool" where
  "manifest_codable X m \<longleftrightarrow> json_ok (x_index X) (index_out X (after_ranks m))
     \<and> list_all (\<lambda>sn. json_ok (x_ranks X) (ranks_out sn)) (mf_snapshots m)
     \<and> distinct (map (x_uuid_str X \<circ> sn_id) (mf_snapshots m))"

text \<open>The index on the store, and the files it points to, say what this manifest says.\<close>

definition manifest_on_disk :: "'s backend \<Rightarrow> ext \<Rightarrow> 's \<Rightarrow> manifest \<Rightarrow> bool" where
  "manifest_on_disk B X s m \<longleftrightarrow>
     (case b_get B s manifest_path of
        Inl e \<Rightarrow> False
      | Inr data \<Rightarrow> serialization (js_from_slice (x_index X) (strip_zeros data)) = Inr (index_out X m))
     \<and> ranks_stored B X s m"

section \<open>Under the contract\<close>

context backend_contract
begin

lemma write_ranks_other:
  "p \<noteq> ranks_path X (sn_id sn) \<Longrightarrow> contents (snd (write_ranks B X sn s)) p = contents s p"
  by (auto simp: write_ranks_def bind_io_def lift_io_def put_other split: sum.splits)

lemma write_ranks_each_other:
  "p \<notin> (\<lambda>sn. ranks_path X (sn_id sn)) ` set sns
    \<Longrightarrow> contents (snd (each_io (write_ranks B X) sns s)) p = contents s p"
  by (rule each_io_invariant) (auto simp: write_ranks_other image_iff)

lemma write_ranks_stored:
  assumes "write_ranks B X sn s = (Inr u, s')" and "json_ok (x_ranks X) (ranks_out sn)"
  obtains b n where "contents s' (ranks_path X (sn_id sn)) = Some (b @ replicate n 0)"
    "b \<noteq> []" "last b \<noteq> 0" "js_from_slice (x_ranks X) b = Inr (ranks_out sn)"
proof -
  obtain b where b: "serialization (js_to_vec (x_ranks X) (ranks_out sn)) = Inr b"
      "b \<noteq> []" "last b \<noteq> 0" "js_from_slice (x_ranks X) b = Inr (ranks_out sn)"
    using assms(2) by (rule json_okE)
  with assms(1) have "b_put B (ranks_path X (sn_id sn)) b s = (Inr u, s')"
    by (simp add: write_ranks_def bind_io_def lift_io_def)
  then have "contents s' (ranks_path X (sn_id sn)) = Some (padded b)" by (auto dest: put_ok)
  moreover obtain n where "padded b = b @ replicate n 0" using padded_zeros by blast
  ultimately show ?thesis using that b by auto
qed

text \<open>A save that fails leaves the index exactly as it was: nothing half-written is ever named.\<close>

lemma persist_failed_index:
  "persist B X (s, m) = (Inl e, (s', m')) \<Longrightarrow> contents s' manifest_path = contents s manifest_path"
proof -
  assume p: "persist B X (s, m) = (Inl e, (s', m'))"
  let ?sns = "filter (\<lambda>sn. sn_id sn \<in> set (unwritten_ids m)) (mf_snapshots m)"
  obtain r s1 where each: "each_io (write_ranks B X) ?sns s = (r, s1)"
    by (cases "each_io (write_ranks B X) ?sns s")
  have same: "contents s1 manifest_path = contents s manifest_path"
    using write_ranks_each_other [of manifest_path X ?sns s] each by (simp add: image_iff)
  show ?thesis
    using p each same
    by (auto simp: persist_def Let_def split: sum.splits prod.splits dest: put_err)
qed

text \<open>It writes the index and the files of its own snapshots, and nothing else.\<close>

lemma persist_other:
  assumes "p \<noteq> manifest_path" and "p \<notin> ranks_path X ` set (unwritten_ids m)"
  shows "contents (fst (snd (persist B X (s, m)))) p = contents s p"
proof -
  let ?sns = "filter (\<lambda>sn. sn_id sn \<in> set (unwritten_ids m)) (mf_snapshots m)"
  obtain r s1 where each: "each_io (write_ranks B X) ?sns s = (r, s1)"
    by (cases "each_io (write_ranks B X) ?sns s")
  have same: "contents s1 p = contents s p"
    using write_ranks_each_other [of p X ?sns s] each assms(2) by (auto simp: image_iff)
  show ?thesis
  proof (cases r)
    case (Inl e)
    with each same show ?thesis by (simp add: persist_def)
  next
    case (Inr u)
    show ?thesis
      using each same Inr put_other [OF assms(1)]
      by (auto simp: persist_def Let_def split: sum.splits prod.splits)
        (metis snd_conv)+
  qed
qed

end

context reliable_backend
begin

lemma read_ranks_contents:
  "read_ranks B X s p i =
     (case contents s p of
        None \<Rightarrow> None
      | Some data \<Rightarrow>
          (case js_from_slice (x_ranks X) (strip_zeros data) of
             Inl e \<Rightarrow> None
           | Inr doc \<Rightarrow> if rd_snapshot_id doc = i then Some (rd_ranks doc) else None))"
  by (cases "contents s p"; cases "b_get B s p")
    (auto simp: read_ranks_def dest: get_sound dest: get_complete split del: if_split)

lemma read_ranks_cong: "contents s p = contents s' p \<Longrightarrow> read_ranks B X s p i = read_ranks B X s' p i"
  by (simp add: read_ranks_contents)

lemma read_ranks_padded:
  assumes "contents s p = Some (b @ replicate n 0)" "b \<noteq> []" "last b \<noteq> 0"
    and "js_from_slice (x_ranks X) b = Inr (ranks_out sn)"
  shows "read_ranks B X s p (sn_id sn) = Some (sn_ranks sn)"
  using assms get_complete [OF assms(1)] by (simp add: read_ranks_def ranks_out_def)

lemma write_ranks_each_stored:
  assumes "each_io (write_ranks B X) sns s = (Inr u, s')"
    and "distinct (map (x_uuid_str X \<circ> sn_id) sns)"
    and "list_all (\<lambda>sn. json_ok (x_ranks X) (ranks_out sn)) sns" and "sn \<in> set sns"
  shows "read_ranks B X s' (ranks_path X (sn_id sn)) (sn_id sn) = Some (sn_ranks sn)"
  using assms
proof (induction sns arbitrary: s)
  case (Cons a sns)
  obtain s1 where a: "write_ranks B X a s = (Inr (), s1)"
    and rest: "each_io (write_ranks B X) sns s1 = (Inr u, s')"
    using Cons.prems(1) by (auto simp: bind_io_Inr_iff)
  show ?case
  proof (cases "sn = a")
    case True
    obtain b n where b: "contents s1 (ranks_path X (sn_id a)) = Some (b @ replicate n 0)"
        "b \<noteq> []" "last b \<noteq> 0" "js_from_slice (x_ranks X) b = Inr (ranks_out a)"
      using write_ranks_stored [OF a] Cons.prems(3) by auto
    have "contents s' (ranks_path X (sn_id a)) = contents s1 (ranks_path X (sn_id a))"
      using write_ranks_each_other [of "ranks_path X (sn_id a)" X sns s1] rest Cons.prems(2)
      by (auto simp: image_iff)
    with b True read_ranks_padded [of s' "ranks_path X (sn_id a)" b n X a] show ?thesis by simp
  next
    case False
    with Cons.prems Cons.IH [OF rest] show ?thesis by simp
  qed
qed simp

lemma load_heads_out:
  "list_all (\<lambda>sn. sn_id sn \<in> W \<longrightarrow>
      read_ranks B X s (ranks_path X (sn_id sn)) (sn_id sn) = Some (sn_ranks sn)) sns
    \<Longrightarrow> load_heads B X s [] (map (head_out X W) sns) = (sns, W \<inter> sn_id ` set sns, {})"
  by (induction sns) (auto simp: head_out_def snapshot_of_head_def)

lemma persist_stored:
  assumes "each_io (write_ranks B X)
      (filter (\<lambda>sn. sn_id sn \<in> set (unwritten_ids m)) (mf_snapshots m)) s = (Inr u, s1)"
    and "manifest_codable X m" and "ranks_stored B X s m"
  shows "ranks_stored B X s1 (after_ranks m)"
proof -
  let ?P = "\<lambda>sn. sn_id sn \<in> set (unwritten_ids m)"
  let ?sns = "filter ?P (mf_snapshots m)"
  have dist: "distinct (map (x_uuid_str X \<circ> sn_id) (mf_snapshots m))"
    and codable: "list_all (\<lambda>sn. json_ok (x_ranks X) (ranks_out sn)) ?sns"
    using assms(2) by (auto simp: manifest_codable_def list_all_iff)
  have "read_ranks B X s1 (ranks_path X (sn_id sn)) (sn_id sn) = Some (sn_ranks sn)"
    if sn: "sn \<in> set (mf_snapshots m)" and w: "sn_id sn \<in> mf_ranks_written (after_ranks m)" for sn
  proof (cases "?P sn")
    case True
    from dist have "distinct (map (x_uuid_str X \<circ> sn_id) ?sns)" by (rule distinct_map_filter)
    with sn True codable show ?thesis by (intro write_ranks_each_stored [OF assms(1)]) simp_all
  next
    case False
    with w have "sn_id sn \<in> mf_ranks_written m" by (simp add: after_ranks_def)
    with sn assms(3) have "read_ranks B X s (ranks_path X (sn_id sn)) (sn_id sn) = Some (sn_ranks sn)"
      by (auto simp: ranks_stored_def list_all_iff)
    moreover have "ranks_path X (sn_id sn) \<notin> (\<lambda>sn. ranks_path X (sn_id sn)) ` set ?sns"
      using False sn dist by (simp add: distinct_map inj_on_def image_iff) blast
    then have "contents s1 (ranks_path X (sn_id sn)) = contents s (ranks_path X (sn_id sn))"
      using write_ranks_each_other [of "ranks_path X (sn_id sn)" X ?sns s] assms(1) by simp
    ultimately show ?thesis using read_ranks_cong [of s1 _ s] by simp
  qed
  then show ?thesis by (simp add: ranks_stored_def list_all_iff)
qed

lemma ranks_stored_cong:
  "(\<And>i. contents s (ranks_path X i) = contents s' (ranks_path X i))
    \<Longrightarrow> ranks_stored B X s m = ranks_stored B X s' m"
  unfolding ranks_stored_def by (intro list.pred_cong refl) (simp cong: read_ranks_cong)

lemma persist_on_disk:
  assumes "persist B X (s, m) = (Inr u, (s', m'))"
    and "manifest_codable X m" and "ranks_stored B X s m"
  shows "m' = after_ranks m \<and> manifest_on_disk B X s' m'"
proof -
  let ?sns = "filter (\<lambda>sn. sn_id sn \<in> set (unwritten_ids m)) (mf_snapshots m)"
  obtain s1 where each: "each_io (write_ranks B X) ?sns s = (Inr (), s1)"
    using assms(1) by (auto simp: persist_def split: prod.splits sum.splits)
  obtain b where b: "serialization (js_to_vec (x_index X) (index_out X (after_ranks m))) = Inr b"
      "b \<noteq> []" "last b \<noteq> 0"
      "serialization (js_from_slice (x_index X) b) = Inr (index_out X (after_ranks m))"
    using assms(2) by (auto simp: manifest_codable_def elim: json_okE)
  have m': "m' = after_ranks m" and put: "b_put B manifest_path b s1 = (Inr u, s')"
    using assms(1) each b(1) by (auto simp: persist_def Let_def split: prod.splits)
  have "contents s1 (ranks_path X i) = contents s' (ranks_path X i)" for i
    using put_other [of "ranks_path X i" manifest_path b s1] put by simp
  then have "ranks_stored B X s1 (after_ranks m) = ranks_stored B X s' (after_ranks m)"
    by (rule ranks_stored_cong)
  moreover obtain n where "contents s' manifest_path = Some (b @ replicate n 0)"
    using put_ok [OF put] padded_zeros [of b] by auto
  then have "b_get B s' manifest_path = Inr (b @ replicate n 0)" by (rule get_complete)
  ultimately show ?thesis using persist_stored [OF each assms(2,3)] m' b by (simp add: manifest_on_disk_def)
qed

lemma on_disk_load:
  assumes "manifest_on_disk B X s m"
  shows "fst (load B X s None) = Inr (Some (m\<lparr>mf_format_version := format_version,
    mf_ranks_written := mf_ranks_written m \<inter> sn_id ` set (mf_snapshots m)\<rparr>))"
proof -
  have "load_heads B X s [] (map (head_out X (mf_ranks_written m)) (mf_snapshots m))
      = (mf_snapshots m, mf_ranks_written m \<inter> sn_id ` set (mf_snapshots m), {})"
    using assms by (intro load_heads_out) (simp add: manifest_on_disk_def ranks_stored_def)
  then show ?thesis using assms
    by (auto simp: manifest_on_disk_def load_def index_out_def manifest_of_index_def split: sum.splits)
qed

text \<open>It is a matter of the files named in it.\<close>

lemma on_disk_copied:
  assumes "manifest_on_disk B X s m" and "contents s' manifest_path = contents s manifest_path"
    and "\<And>i. contents s (ranks_path X i) \<noteq> None \<Longrightarrow> contents s' (ranks_path X i) = contents s (ranks_path X i)"
  shows "manifest_on_disk B X s' m"
proof -
  obtain data where "b_get B s manifest_path = Inr data" using assms(1) by (auto simp: manifest_on_disk_def split: sum.splits)
  then have "b_get B s' manifest_path = b_get B s manifest_path" using assms(2) by (metis get_iff)
  moreover have "ranks_stored B X s' m"
    using assms(1,3) by (auto simp: manifest_on_disk_def ranks_stored_def list_all_iff read_ranks_contents split: option.splits)
  ultimately show ?thesis using assms(1) by (simp add: manifest_on_disk_def)
qed

lemma persist_load:
  assumes "persist B X (s, m) = (Inr u, (s', m'))"
    and "manifest_codable X m" and "ranks_stored B X s m"
  shows "m' = after_ranks m \<and> ranks_stored B X s' m'
    \<and> fst (load B X s' None) = Inr (Some (m'\<lparr>mf_format_version := format_version\<rparr>))"
proof -
  have m': "m' = after_ranks m" and on: "manifest_on_disk B X s' m'" using persist_on_disk [OF assms] by auto
  then have "mf_ranks_written m' \<inter> sn_id ` set (mf_snapshots m') = mf_ranks_written m'"
    by (auto simp: after_ranks_def)
  with on_disk_load [OF on] on m' show ?thesis by (simp add: manifest_on_disk_def)
qed

text \<open>What a process already holds is as good as what its files say.\<close>

lemma load_heads_held:
  assumes "\<And>h path ranks. h \<in> set hs \<Longrightarrow> hd_ranks_in h = Some path
      \<Longrightarrow> map_of held (hd_id h) = Some ranks \<Longrightarrow> read_ranks B X s path (hd_id h) = Some ranks"
  shows "load_heads B X s held hs = load_heads B X s [] hs"
  using assms
proof (induction hs arbitrary: held)
  case (Cons h hs)
  have "load_heads B X s held hs = load_heads B X s [] hs"
    using Cons.prems by (intro Cons.IH) auto
  moreover have "load_heads B X s (AList.delete (hd_id h) held) hs = load_heads B X s [] hs"
    using Cons.prems by (intro Cons.IH) (auto simp: delete_conv' split: if_splits)
  moreover have "(case map_of held (hd_id h) of Some ranks \<Rightarrow> Some ranks
        | None \<Rightarrow> read_ranks B X s path (hd_id h)) = read_ranks B X s path (hd_id h)"
    if "hd_ranks_in h = Some path" for path
    using Cons.prems [of h path] that by (auto split: option.splits)
  ultimately show ?case by (simp split: option.splits)
qed simp

end

section \<open>Of the program\<close>

text \<open>
  C8. A save can be read back: once \<^verbatim>\<open>persist\<close> reports success, \<^verbatim>\<open>load\<close> on the local store gives
  the manifest that was saved, every snapshot with all its tensor entries (only the format version
  is raised to the current one), and the store keeps what makes the next save right: each
  snapshot marked as written has its file.
\<close>

theorem persist_load_roundtrip:
  assumes "persist (local_backend fsync ps) X (fs, m) = (Inr u, (fs', m'))"
    and "manifest_codable X m" and "ranks_stored (local_backend fsync ps) X fs m"
  shows "ranks_stored (local_backend fsync ps) X fs' m'
    \<and> fst (load (local_backend fsync ps) X fs' None)
        = Inr (Some (m\<lparr>mf_format_version := format_version, mf_ranks_written := mf_ranks_written m'\<rparr>))"
  using local_disk.persist_load [OF assms] by (auto simp: after_ranks_def)

definition sample_rank :: rank_entry where
  "sample_rank = \<lparr>re_rank = 0, re_tensors = [], re_pack_file = Some ''p'', re_total_compressed = 0,
     re_total_raw = 0, re_skipped_count = 0, re_delta_count = 0, re_full_count = 0\<rparr>"

definition sample_snapshot :: snapshot where
  "sample_snapshot = \<lparr>sn_id = 1, sn_step = 10, sn_created_at = 0, sn_ranks = [(0, sample_rank)],
     sn_base_snapshot_id = None, sn_metadata = [], sn_compression = NoCompression,
     sn_finalized = True, sn_pinned = False\<rparr>"

definition sample_manifest :: manifest where
  "sample_manifest = default_manifest\<lparr>mf_snapshots := [sample_snapshot]\<rparr>"

definition sample_io_ext :: ext where
  "sample_io_ext = sample_ext \<lparr>pd_snapshot_id = 0, pd_step = 0, pd_created_at = 0,
       pd_base_snapshot_id = None, pd_metadata = [], pd_compression = NoCompression,
       pd_world_size = 1, pd_rank = sample_rank\<rparr>
     (index_out (sample_ext undefined undefined undefined undefined) (after_ranks sample_manifest))
     (ranks_out sample_snapshot) []"

lemma sample_manifest_codable: "manifest_codable sample_io_ext sample_manifest"
  by (simp add: manifest_codable_def sample_manifest_def sample_io_ext_def index_out_def head_out_def
      ranks_path_def)

theorem persist_load_roundtrip_witness:
  "\<exists>fs' m'. persist (local_backend True 16) sample_io_ext (empty_fs, sample_manifest) = (Inr (), (fs', m'))
     \<and> fst (load (local_backend True 16) sample_io_ext fs' None)
        = Inr (Some (sample_manifest\<lparr>mf_format_version := format_version,
            mf_ranks_written := mf_ranks_written m'\<rparr>))"
proof -
  let ?B = "local_backend True 16"
  obtain r fs' m' where p: "persist ?B sample_io_ext (empty_fs, sample_manifest) = (r, (fs', m'))"
    by (metis surj_pair)
  have "fst (persist ?B sample_io_ext (empty_fs, sample_manifest)) = Inr ()"
    by (simp add: persist_def sample_manifest_def unwritten_ids_def sample_snapshot_def out_of_line_def
        write_ranks_def sample_io_ext_def one_json_def serialization_def bind_io_def lift_io_def
        local_backend_def write_parts_def Let_def missing_dirs.simps existing_ancestor_def fs_is_dir_def
        fs_is_file_def empty_fs_def parent_path_def ranks_path_def ranks_file_def manifest_path_def
        rename_over_def default_manifest_def split: prod.splits)
  with p have "r = Inr ()" by simp
  moreover have "ranks_stored ?B sample_io_ext empty_fs sample_manifest"
    by (simp add: ranks_stored_def sample_manifest_def default_manifest_def)
  ultimately show ?thesis
    using p persist_load_roundtrip [OF _ sample_manifest_codable] by blast
qed

text \<open>
  C32. A save that fails is as if it had not been: whichever step of \<^verbatim>\<open>persist\<close> fails, the index in
  the store is the one that was there, so no reader is led to a snapshot whose files are missing.
\<close>

theorem persist_failure_keeps_index:
  assumes "persist (local_backend fsync ps) X (fs, m) = (Inl e, (fs', m'))"
  shows "fs_contents fs' manifest_path = fs_contents fs manifest_path"
  by (rule local_store.persist_failed_index [OF assms])

theorem persist_failure_keeps_index_witness:
  "\<exists>fs' m' e. persist (local_backend True 16) sample_io_ext
       (empty_fs\<lparr>fs_dirs := [manifest_path]\<rparr>, sample_manifest) = (Inl e, (fs', m'))
     \<and> fs_contents fs' manifest_path = fs_contents (empty_fs\<lparr>fs_dirs := [manifest_path]\<rparr>) manifest_path"
proof -
  let ?fs = "empty_fs\<lparr>fs_dirs := [manifest_path]\<rparr>"
  obtain r fs' m' where p: "persist (local_backend True 16) sample_io_ext (?fs, sample_manifest) = (r, (fs', m'))"
    by (metis surj_pair)
  have "fst (persist (local_backend True 16) sample_io_ext (?fs, sample_manifest)) = Inl (StorageErr ''Failed to persist'')"
    by (simp add: persist_def sample_manifest_def unwritten_ids_def sample_snapshot_def out_of_line_def
        write_ranks_def sample_io_ext_def one_json_def serialization_def bind_io_def lift_io_def
        local_backend_def write_parts_def Let_def missing_dirs.simps existing_ancestor_def fs_is_dir_def
        fs_is_file_def empty_fs_def parent_path_def ranks_path_def ranks_file_def
        rename_over_def manifest_path_def default_manifest_def split: prod.splits)
  with p have "r = Inl (StorageErr ''Failed to persist'')" by simp
  with p persist_failure_keeps_index show ?thesis by blast
qed

text \<open>Every delta of an index is taken against a full snapshot of it.\<close>

definition bases_full :: "head_doc list \<Rightarrow> bool" where
  "bases_full hs \<longleftrightarrow> list_all (\<lambda>h. case hd_base_snapshot_id h of None \<Rightarrow> True
     | Some base \<Rightarrow> list_ex (\<lambda>g. hd_id g = base \<and> hd_base_snapshot_id g = None) hs) hs"

text \<open>One head: it becomes a snapshot, or its id is among the unreadable.\<close>

lemma load_heads_step:
  assumes "load_heads B X s held (h # hs) = (sns, written, bad)"
  obtains held' sns' written' bad' where "load_heads B X s held' hs = (sns', written', bad')"
    and "(\<exists>ranks. sns = snapshot_of_head h ranks # sns') \<and> bad = bad'
      \<or> sns = sns' \<and> bad = insert (hd_id h) bad'"
  using assms by (simp split: option.splits prod.splits; blast)

lemma load_heads_from:
  "load_heads B X s held hs = (sns, written, bad) \<Longrightarrow> sn \<in> set sns
    \<Longrightarrow> \<exists>h \<in> set hs. \<exists>ranks. sn = snapshot_of_head h ranks"
proof (induction hs arbitrary: held sns written bad)
  case (Cons h hs)
  from Cons.prems(1) show ?case
    by (rule load_heads_step) (use Cons.prems(2) Cons.IH in \<open>fastforce\<close>)
qed simp

lemma load_heads_all:
  "load_heads B X s held hs = (sns, written, bad) \<Longrightarrow> h \<in> set hs
    \<Longrightarrow> hd_id h \<in> bad \<or> (\<exists>ranks. snapshot_of_head h ranks \<in> set sns)"
proof (induction hs arbitrary: held sns written bad)
  case (Cons g hs)
  from Cons.prems(1) show ?case
    by (rule load_heads_step) (use Cons.prems(2) Cons.IH in \<open>fastforce\<close>)
qed simp

text \<open>
  C33. A store with holes in it still opens to something whole: when the ranks of some snapshots
  cannot be read, they and the deltas taken against them are left out, and every delta that
  remains has its full base among the snapshots that remain.
\<close>

theorem load_base_closed:
  assumes "load B X s previous = (Inr (Some m), previous')"
    and "b_get B s manifest_path = Inr data"
    and "js_from_slice (x_index X) (strip_zeros data) = Inr ix" and "bases_full (ix_snapshots ix)"
    and "sn \<in> set (mf_snapshots m)" and "sn_base_snapshot_id sn = Some base"
  shows "\<exists>full \<in> set (mf_snapshots m). sn_id full = base \<and> is_full full"
proof -
  obtain held sns written bad where lh: "load_heads B X s held (ix_snapshots ix) = (sns, written, bad)"
    and m: "mf_snapshots m = (if bad = {} then sns else keep_readable bad sns)"
    using assms(1-3) by (auto simp: load_def serialization_def Let_def manifest_of_index_def split: prod.splits)
  have sn: "sn \<in> set sns" "base \<notin> bad"
    using assms(5,6) m by (auto simp: keep_readable_def split: if_splits)
  obtain h ranks where h: "h \<in> set (ix_snapshots ix)" "sn = snapshot_of_head h ranks"
    using load_heads_from [OF lh sn(1)] by blast
  with assms(6) have "hd_base_snapshot_id h = Some base" by (simp add: snapshot_of_head_def)
  with h(1) assms(4) obtain g where g: "g \<in> set (ix_snapshots ix)" "hd_id g = base"
      "hd_base_snapshot_id g = None"
    by (fastforce simp: bases_full_def list_all_iff list_ex_iff)
  then obtain r where "snapshot_of_head g r \<in> set sns"
    using load_heads_all [OF lh g(1)] sn(2) by blast
  then have "snapshot_of_head g r \<in> set (mf_snapshots m)"
    using m g by (simp add: keep_readable_def snapshot_of_head_def)
  then show ?thesis using g by (intro bexI) (simp_all add: snapshot_of_head_def is_full_def)
qed

definition sample_head :: "uuid \<Rightarrow> uuid option \<Rightarrow> string option \<Rightarrow> head_doc" where
  "sample_head i base path = \<lparr>hd_id = i, hd_step = i, hd_created_at = 0,
     hd_ranks = (if path = None then Some [] else None), hd_ranks_in = path,
     hd_base_snapshot_id = base, hd_metadata = [], hd_compression = NoCompression,
     hd_finalized = True, hd_pinned = False\<rparr>"

definition sample_index :: index_doc where
  "sample_index = \<lparr>ix_format_version = 3, ix_world_size = 1,
     ix_snapshots = [sample_head 1 None None, sample_head 2 (Some 1) None,
       sample_head 3 None (Some ''gone''), sample_head 4 (Some 3) None],
     ix_retention = default_retention, ix_lineage = default_lineage\<rparr>"

theorem load_base_closed_witness:
  "\<exists>full \<in> set (mf_snapshots (manifest_of_index sample_index
       [snapshot_of_head (sample_head 1 None None) [], snapshot_of_head (sample_head 2 (Some 1) None) []] {})).
     sn_id full = 1 \<and> is_full full"
proof -
  let ?B = "local_backend True 16"
  let ?X = "sample_ext undefined sample_index undefined undefined"
  let ?fs = "empty_fs\<lparr>fs_files := [(manifest_path, [123, 125])]\<rparr>"
  let ?m = "manifest_of_index sample_index
       [snapshot_of_head (sample_head 1 None None) [], snapshot_of_head (sample_head 2 (Some 1) None) []] {}"
  have get: "b_get ?B ?fs manifest_path = Inr [123, 125]"
    by (simp add: local_backend_def local_get_def)
  have js: "js_from_slice (x_index ?X) (strip_zeros [123, 125]) = Inr sample_index"
    by (simp add: one_json_def)
  have heads: "load_heads ?B ?X ?fs [] (ix_snapshots sample_index) =
      ([snapshot_of_head (sample_head 1 None None) [], snapshot_of_head (sample_head 2 (Some 1) None) [],
        snapshot_of_head (sample_head 4 (Some 3) None) []], {}, {3})"
    by (simp add: sample_index_def sample_head_def read_ranks_def local_backend_def local_get_def
        fs_is_dir_def empty_fs_def manifest_path_def)
  have load: "load ?B ?X ?fs None = (Inr (Some ?m), None)"
    using get js heads
    by (simp add: load_def serialization_def keep_readable_def snapshot_of_head_def sample_head_def
        manifest_of_index_def)
  have "bases_full (ix_snapshots sample_index)"
    by (simp add: bases_full_def sample_index_def sample_head_def)
  from load_base_closed [OF load get js this, of "snapshot_of_head (sample_head 2 (Some 1) None) []" 1]
  show ?thesis
    by (simp add: manifest_of_index_def snapshot_of_head_def sample_head_def)
qed

end
