(* ===== verification/SaveRank.thy ===== *)
theory SaveRank
  imports Tensor ManifestIO "HOL-Library.Multiset"
begin

text \<open>
  One rank's part of a snapshot, from \<^verbatim>\<open>src/src/coordinator/mod.rs\<close>: \<^verbatim>\<open>save_rank_tensors\<close>, which
  turns a state dict into a pack and its entry, with the base it is computed against and the bytes
  it keeps for the next one.
\<close>

section \<open>Configuration\<close>

record merger_config =
  mc_stride :: nat
  mc_max_chain_depth :: nat

definition default_merger_config :: merger_config where
  "default_merger_config = \<lparr>mc_stride = 3, mc_max_chain_depth = 10\<rparr>"

record 'r coordinator_config =
  cc_world_size :: nat
  cc_rank :: nat
  cc_compression :: compression_algo
  cc_retention :: retention_policy
  cc_lineage :: lineage_config
  cc_delta_max_ratio :: f64
  cc_merger :: "merger_config option"
  cc_remote_storage :: "'r backend option"
  cc_remote_sync :: "nat option"
  cc_save_dtype :: dtype_policy
  cc_async_save :: bool
  cc_keep_base_in_memory :: bool

definition default_config :: "'r coordinator_config" where
  "default_config = \<lparr>cc_world_size = 1, cc_rank = 0, cc_compression = Zstd 3,
     cc_retention = default_retention, cc_lineage = default_lineage, cc_delta_max_ratio = f64_round (95 / 100),
     cc_merger = None, cc_remote_storage = None, cc_remote_sync = None, cc_save_dtype = [],
     cc_async_save = True, cc_keep_base_in_memory = True\<rparr>"

record snapshot_context =
  cx_step :: nat
  cx_created_at :: timestamp
  cx_metadata :: metadata

record retained_base =
  rb_snap_id :: uuid
  rb_tensors :: "(string \<times> bytes) list"

section \<open>The base\<close>

text \<open>A \<^verbatim>\<open>HashMap\<close> collected from pairs: the last pair of a key wins.\<close>

definition collect_map :: "('k \<times> 'v) list \<Rightarrow> ('k \<times> 'v) list" where
  "collect_map kvs = rev kvs"

definition build_base_cache :: "'r coordinator_config \<Rightarrow> retained_base option \<Rightarrow> snapshot option
    \<Rightarrow> base_cache option" where
  "build_base_cache cfg retained base_snap =
     (case base_snap of
        None \<Rightarrow> None
      | Some base \<Rightarrow>
          (case map_of (sn_ranks base) (cc_rank cfg) of
             None \<Rightarrow> None
           | Some rank_entry \<Rightarrow>
               Some \<lparr>bc_pack_file = re_pack_file rank_entry,
                     bc_entries = collect_map (map (\<lambda>t. (te_name t, t)) (re_tensors rank_entry)),
                     bc_compression = sn_compression base,
                     bc_raw = (case retained of
                         Some r \<Rightarrow> if rb_snap_id r = sn_id base then Some (rb_tensors r) else None
                       | None \<Rightarrow> None)\<rparr>))"

definition retain_base :: "'r coordinator_config \<Rightarrow> retained_base option \<Rightarrow> uuid \<Rightarrow> tensor_data list
    \<Rightarrow> processed_tensor list \<Rightarrow> retained_base option" where
  "retain_base cfg retained snap_id tensors processed =
     (if \<not> cc_keep_base_in_memory cfg then retained
      else let full = map (\<lambda>pt. te_name (pt_entry pt))
                 (filter (\<lambda>pt. te_storage (pt_entry pt) = Full \<and> te_original_dtype (pt_entry pt) = None) processed)
        in Some \<lparr>rb_snap_id = snap_id,
             rb_tensors = collect_map (map (\<lambda>t. (td_name t, td_data t))
               (filter (\<lambda>t. td_name t \<in> set full) tensors))\<rparr>)"

section \<open>The pack\<close>

text \<open>The tensors that are stored, and an entry for each that shares another's bytes.\<close>

definition unique_tensors :: "tensor_data list \<Rightarrow> string option list \<Rightarrow> tensor_data list" where
  "unique_tensors tensors dedup = map fst (filter (\<lambda>(t, a). a = None) (zip tensors dedup))"

definition alias_entries :: "tensor_data list \<Rightarrow> string option list \<Rightarrow> processed_tensor list \<Rightarrow> processed_tensor list" where
  "alias_entries tensors dedup processed =
     (let stored = collect_map (map (\<lambda>pt. (te_name (pt_entry pt), pt_entry pt)) processed)
      in List.map_filter (\<lambda>(t, a). case a of
             None \<Rightarrow> None
           | Some owner \<Rightarrow> map_option (\<lambda>target.
               \<lparr>pt_entry = make_alias_entry t target, pt_write_data = None\<rparr>) (map_of stored owner))
           (zip tensors dedup))"

fun assign_offsets :: "nat \<Rightarrow> processed_tensor list \<Rightarrow> processed_tensor list \<times> nat" where
  "assign_offsets offset [] = ([], offset)"
| "assign_offsets offset (pt # pts) =
     (case pt_write_data pt of
        None \<Rightarrow> (case assign_offsets offset pts of (pts', end_at) \<Rightarrow> (pt # pts', end_at))
      | Some data \<Rightarrow>
          (case assign_offsets (offset + length data) pts of (pts', end_at) \<Rightarrow>
             (pt\<lparr>pt_entry := (pt_entry pt)\<lparr>te_offset := offset\<rparr>\<rparr> # pts', end_at)))"

definition snapshot_dir :: "ext \<Rightarrow> uuid \<Rightarrow> string" where
  "snapshot_dir X i = ''snapshots/'' @ x_uuid_str X i"

definition rank_pack_path :: "string \<Rightarrow> nat \<Rightarrow> string" where
  "rank_pack_path snap_dir rank = snap_dir @ ''/rank_'' @ nat_str rank @ ''.pack''"

definition count_storage :: "tensor_storage list \<Rightarrow> tensor_entry list \<Rightarrow> nat" where
  "count_storage kinds entries = length (filter (\<lambda>e. te_storage e \<in> set kinds) entries)"

definition make_rank_entry :: "nat \<Rightarrow> string \<Rightarrow> processed_tensor list \<Rightarrow> rank_entry" where
  "make_rank_entry rank pack_file processed =
     (let entries = map pt_entry processed in
      \<lparr>re_rank = rank, re_tensors = entries, re_pack_file = Some pack_file,
       re_total_compressed = sum_list (map te_compressed_size entries),
       re_total_raw = sum_list (map te_raw_size entries),
       re_skipped_count = count_storage [Skipped, Alias] entries,
       re_delta_count = count_storage [DeltaXor] entries,
       re_full_count = count_storage [Full] entries\<rparr>)"

definition make_descriptor :: "'r coordinator_config \<Rightarrow> uuid \<Rightarrow> snapshot option \<Rightarrow> snapshot_context
    \<Rightarrow> rank_entry \<Rightarrow> pack_descriptor" where
  "make_descriptor cfg snap_id base_snap context rank_entry =
     \<lparr>pd_snapshot_id = snap_id, pd_step = cx_step context, pd_created_at = cx_created_at context,
      pd_base_snapshot_id = map_option sn_id base_snap, pd_metadata = cx_metadata context,
      pd_compression = cc_compression cfg, pd_world_size = cc_world_size cfg, pd_rank = rank_entry\<rparr>"

definition pack_parts :: "processed_tensor list \<Rightarrow> nat \<Rightarrow> bytes \<Rightarrow> bytes list" where
  "pack_parts processed blobs_end encoded =
     encode_header (of_nat blobs_end) (of_nat (length encoded))
     # List.map_filter pt_write_data processed @ [encoded]"

text \<open>
  What is known of every tensor before anything is written: the entries with the offsets their
  bytes will have, and where the bytes end.
\<close>

definition process_rank :: "'s backend \<Rightarrow> ext \<Rightarrow> 's \<Rightarrow> 'r coordinator_config \<Rightarrow> retained_base option
    \<Rightarrow> snapshot option \<Rightarrow> tensor_data list \<Rightarrow> processed_tensor list result" where
  "process_rank B X s cfg retained base_snap tensors =
     (let dedup = dedup_plan X tensors in
      bind_res (process_tensors_parallel B X s (unique_tensors tensors dedup)
          (build_base_cache cfg retained base_snap) (cc_compression cfg) (cc_delta_max_ratio cfg)
          (cc_save_dtype cfg)) (\<lambda>processed.
        Inr (processed @ alias_entries tensors dedup processed)))"

definition save_rank_tensors :: "'s backend \<Rightarrow> ext \<Rightarrow> 'r coordinator_config \<Rightarrow> uuid \<Rightarrow> string
    \<Rightarrow> snapshot option \<Rightarrow> tensor_data list \<Rightarrow> snapshot_context
    \<Rightarrow> ('s \<times> retained_base option, rank_entry) io" where
  "save_rank_tensors B X cfg snap_id snap_dir base_snap tensors context st =
     (case st of (s, retained) \<Rightarrow>
       (case process_rank B X s cfg retained base_snap tensors of
          Inl e \<Rightarrow> (Inl e, (s, retained))
        | Inr processed \<Rightarrow>
            let retained' = (if base_snap = None then retain_base cfg retained snap_id tensors processed
                             else retained);
                (placed, blobs_end) = assign_offsets header_len processed;
                pack_file = rank_pack_path snap_dir (cc_rank cfg);
                rank_entry = make_rank_entry (cc_rank cfg) pack_file placed
            in (case serialization (js_to_vec (x_descriptor X)
                       (make_descriptor cfg snap_id base_snap context rank_entry)) of
                  Inl e \<Rightarrow> (Inl e, (s, retained'))
                | Inr encoded \<Rightarrow>
                    (case b_put_parts B pack_file (pack_parts placed blobs_end encoded) s of
                       (Inl e, s') \<Rightarrow> (Inl e, (s', retained'))
                     | (Inr _, s') \<Rightarrow> (Inr rank_entry, (s', retained'))))))"

text \<open>The snapshot a single-rank save records once its pack is written.\<close>

definition saved_snapshot :: "'r coordinator_config \<Rightarrow> uuid \<Rightarrow> snapshot option \<Rightarrow> snapshot_context \<Rightarrow> rank_entry \<Rightarrow> snapshot" where
  "saved_snapshot cfg snap_id base_snap context rank_entry =
     \<lparr>sn_id = snap_id, sn_step = cx_step context, sn_created_at = cx_created_at context,
      sn_ranks = [(cc_rank cfg, rank_entry)], sn_base_snapshot_id = map_option sn_id base_snap,
      sn_metadata = cx_metadata context, sn_compression = cc_compression cfg,
      sn_finalized = True, sn_pinned = False\<rparr>"

section \<open>Where the bytes go\<close>

lemma map_filter_Cons:
  "List.map_filter f (x # xs) = (case f x of None \<Rightarrow> List.map_filter f xs | Some y \<Rightarrow> y # List.map_filter f xs)"
  by (simp add: List.map_filter_def split: option.splits)

definition placed_at :: "nat \<Rightarrow> bytes \<Rightarrow> nat \<Rightarrow> bytes \<Rightarrow> bool" where
  "placed_at start blobs off d \<longleftrightarrow> (\<exists>before rest. blobs = before @ d @ rest \<and> off = start + length before)"

definition places :: "nat \<Rightarrow> bytes \<Rightarrow> processed_tensor \<Rightarrow> processed_tensor \<Rightarrow> bool" where
  "places start blobs pt pt' \<longleftrightarrow> pt_write_data pt' = pt_write_data pt
     \<and> (\<exists>off. pt_entry pt' = (pt_entry pt)\<lparr>te_offset := off\<rparr>
          \<and> (\<forall>d. pt_write_data pt = Some d \<longrightarrow> placed_at start blobs off d))"

lemma placed_at_later: "placed_at (start + length d) blobs off e \<Longrightarrow> placed_at start (d @ blobs) off e"
proof -
  assume "placed_at (start + length d) blobs off e"
  then obtain before rest where "blobs = before @ e @ rest" "off = start + length d + length before"
    by (auto simp: placed_at_def)
  then show ?thesis unfolding placed_at_def by (intro exI [of _ "d @ before"] exI [of _ rest]) simp
qed

lemma assign_offsets_places:
  "assign_offsets start pts = (placed, end_at) \<Longrightarrow>
     list_all2 (places start (concat (List.map_filter pt_write_data pts))) pts placed
     \<and> end_at = start + length (concat (List.map_filter pt_write_data pts))
     \<and> map pt_write_data placed = map pt_write_data pts"
proof (induction start pts arbitrary: placed end_at rule: assign_offsets.induct)
  case (1 start)
  then show ?case by (simp add: List.map_filter_simps)
next
  case (2 start pt pts)
  show ?case
  proof (cases "pt_write_data pt")
    case None
    with "2.prems" obtain placed' where "assign_offsets start pts = (placed', end_at)" "placed = pt # placed'"
      by (auto split: prod.splits)
    moreover have "places start blobs pt pt" for blobs
      using None by (auto simp: places_def intro: exI [of _ "te_offset (pt_entry pt)"])
    ultimately show ?thesis using "2.IH"(1) [OF None] None by (auto simp: map_filter_Cons)
  next
    case (Some d)
    with "2.prems" obtain placed' where p: "assign_offsets (start + length d) pts = (placed', end_at)"
      "placed = pt\<lparr>pt_entry := (pt_entry pt)\<lparr>te_offset := start\<rparr>\<rparr> # placed'"
      by (auto split: prod.splits)
    let ?bl = "concat (List.map_filter pt_write_data pts)"
    have "places start (d @ ?bl) a b" if "places (start + length d) ?bl a b" for a b
      using that placed_at_later unfolding places_def by blast
    then have "list_all2 (places start (d @ ?bl)) pts placed'"
      using "2.IH"(2) [OF Some p(1)] by (blast intro: list_all2_mono)
    moreover have "places start (d @ ?bl) pt (pt\<lparr>pt_entry := (pt_entry pt)\<lparr>te_offset := start\<rparr>\<rparr>)"
      using Some by (auto simp: places_def placed_at_def intro: exI [of _ "[]"])
    ultimately show ?thesis using "2.IH"(2) [OF Some p(1)] Some p(2) by (simp add: map_filter_Cons)
  qed
qed

section \<open>Where the entries come from\<close>

lemma dedup_plan_eq: "dedup_plan X ts = map (\<lambda>i. dedup_owner X (take i ts) (ts ! i)) [0..<length ts]"
  using dedup_from_owner [of "[]" X "[]" ts] by (simp add: dedup_plan_def)

lemma length_dedup_plan [simp]: "length (dedup_plan X ts) = length ts"
  by (simp add: dedup_plan_def)

lemma dedup_planE:
  assumes "dedup_plan X ts ! i = Some n" and "i < length ts"
  obtains j where "j < i" "dedup_plan X ts ! j = None" "td_name (ts ! j) = n"
    "dedup_key X (ts ! j) = dedup_key X (ts ! i)"
proof -
  let ?P = "\<lambda>u. dedup_eligible u \<and> dedup_key X u = dedup_key X (ts ! i)"
  have "dedup_owner X (take i ts) (ts ! i) = Some n" using assms by (simp add: dedup_plan_eq)
  then obtain u where u: "find ?P (take i ts) = Some u" "td_name u = n"
    by (auto simp: dedup_owner_def split: if_splits)
  then obtain j where j: "j < length (take i ts)" "?P (take i ts ! j)" "u = take i ts ! j"
      "\<forall>k<j. \<not> ?P (take i ts ! k)"
    unfolding find_Some_iff by blast
  then have ji: "j < i" and uj: "u = ts ! j" by simp_all
  have "find (\<lambda>v. dedup_eligible v \<and> dedup_key X v = dedup_key X (ts ! j)) (take j ts) = None"
    using j ji uj by (auto simp: find_None_iff in_set_conv_nth)
  then have "dedup_plan X ts ! j = None" using ji assms(2) by (simp add: dedup_plan_eq dedup_owner_def)
  with that ji uj u(2) j(2,3) show thesis by simp
qed

lemma set_unique_tensors:
  "t \<in> set (unique_tensors ts (dedup_plan X ts)) \<longleftrightarrow> (\<exists>i < length ts. t = ts ! i \<and> dedup_plan X ts ! i = None)"
  by (force simp: unique_tensors_def in_set_zip image_iff)

lemma process_tensor_working:
  assumes "process_tensor B X s t cache algo ratio policy = Inr p"
  obtains w d q where "working_copy t policy = Inr (w, d, q)"
  using assms by (auto simp: process_tensor_def effect_simps)

lemma process_tensor_name:
  assumes "process_tensor B X s t cache algo ratio policy = Inr p"
  shows "te_name (pt_entry p) = td_name t" and "te_storage (pt_entry p) \<noteq> Alias"
proof -
  obtain w d q where "working_copy t policy = Inr (w, d, q)" using assms by (rule process_tensor_working)
  with assms show "te_name (pt_entry p) = td_name t" "te_storage (pt_entry p) \<noteq> Alias"
    by (cases rule: process_tensor_cases; simp)+
qed

lemma mset_map_split:
  "mset (map f (filter P xs)) + mset (map f (filter (\<lambda>x. \<not> P x) xs)) = mset (map f xs)"
  by (induction xs) auto

lemma map_filter_all:
  "(\<And>x. x \<in> set xs \<Longrightarrow> P x \<Longrightarrow> f x = Some (g x)) \<Longrightarrow> (\<And>x. x \<in> set xs \<Longrightarrow> \<not> P x \<Longrightarrow> f x = None)
    \<Longrightarrow> List.map_filter f xs = map g (filter P xs)"
  by (induction xs) (auto simp: map_filter_Cons List.map_filter_simps)

text \<open>
  The tensors of a rank with the processed form of each: a stored tensor with what
  \<^verbatim>\<open>process_tensor\<close> made of it, an alias with the stored tensor it shares its bytes with.
\<close>

definition stored_form :: "'s backend \<Rightarrow> ext \<Rightarrow> 's \<Rightarrow> 'r coordinator_config \<Rightarrow> base_cache option
    \<Rightarrow> tensor_data \<Rightarrow> processed_tensor \<Rightarrow> bool" where
  "stored_form B X s cfg cache t p \<longleftrightarrow>
     process_tensor B X s t cache (cc_compression cfg) (cc_delta_max_ratio cfg) (cc_save_dtype cfg) = Inr p"

definition alias_form :: "ext \<Rightarrow> tensor_data \<Rightarrow> tensor_data \<Rightarrow> processed_tensor \<Rightarrow> processed_tensor \<Rightarrow> bool" where
  "alias_form X t owner p0 p \<longleftrightarrow> dedup_key X owner = dedup_key X t
     \<and> p = \<lparr>pt_entry = make_alias_entry t (pt_entry p0), pt_write_data = None\<rparr>"

lemma process_rank_shape:
  assumes "process_rank B X s cfg retained base ts = Inr pts" and "distinct (map td_name ts)"
  defines "cache \<equiv> build_base_cache cfg retained base"
  shows "distinct (map (te_name \<circ> pt_entry) pts)"
    and "set (map (te_name \<circ> pt_entry) pts) = td_name ` set ts"
    and "\<And>t. t \<in> set ts \<Longrightarrow> (\<exists>p \<in> set pts. stored_form B X s cfg cache t p)
      \<or> (\<exists>owner \<in> set ts. \<exists>p0 \<in> set pts. \<exists>p \<in> set pts. stored_form B X s cfg cache owner p0 \<and> alias_form X t owner p0 p)"
    and "\<And>p. p \<in> set pts \<Longrightarrow> (\<exists>t \<in> set ts. stored_form B X s cfg cache t p)
      \<or> (\<exists>t \<in> set ts. \<exists>owner \<in> set ts. \<exists>p0 \<in> set pts. stored_form B X s cfg cache owner p0 \<and> alias_form X t owner p0 p)"
proof -
  let ?dd = "dedup_plan X ts"
  let ?us = "unique_tensors ts ?dd"
  let ?z = "zip ts ?dd"
  obtain us' where us': "map_res (\<lambda>t. process_tensor B X s t cache (cc_compression cfg)
        (cc_delta_max_ratio cfg) (cc_save_dtype cfg)) ?us = Inr us'"
    and pts: "pts = us' @ alias_entries ts ?dd us'"
    using assms(1) unfolding cache_def
    by (auto simp: process_rank_def process_tensors_parallel_def effect_simps Let_def)
  have len: "length us' = length ?us" using us' by (rule map_res_length)
  have form: "stored_form B X s cfg cache (?us ! k) (us' ! k)" if "k < length ?us" for k
    using map_res_nth [OF us' that] by (simp add: stored_form_def)
  have name: "te_name (pt_entry (us' ! k)) = td_name (?us ! k)" if "k < length ?us" for k
    using form [OF that] by (simp add: stored_form_def process_tensor_name)
  have names: "map (te_name \<circ> pt_entry) us' = map td_name ?us"
    using name len by (intro nth_equalityI) simp_all
  have zn: "map (td_name \<circ> fst) ?z = map td_name ts"
    by (metis length_dedup_plan map_fst_zip map_map)
  let ?stored = "collect_map (map (\<lambda>pt. (te_name (pt_entry pt), pt_entry pt)) us')"
  have du: "distinct (map td_name ?us)"
    using distinct_map_filter [of "td_name \<circ> fst" ?z "\<lambda>(t, a). a = None"] assms(2) zn
    by (simp add: unique_tensors_def)
  have lookup: "map_of ?stored (td_name (?us ! k)) = Some (pt_entry (us' ! k))" if "k < length ?us" for k
  proof -
    have "map fst ?stored = rev (map (te_name \<circ> pt_entry) us')" by (simp add: collect_map_def rev_map comp_def)
    then have "distinct (map fst ?stored)" unfolding names using du by simp
    moreover have "us' ! k \<in> set us'" using that len by simp
    then have "(td_name (?us ! k), pt_entry (us' ! k)) \<in> set ?stored"
      using name [OF that] by (force simp: collect_map_def)
    ultimately show ?thesis by (rule map_of_is_SomeI)
  qed
  have owner: "\<exists>k < length ?us. td_name (?us ! k) = n \<and> ?us ! k \<in> set ts \<and> dedup_key X (?us ! k) = dedup_key X t
      \<and> map_of ?stored n = Some (pt_entry (us' ! k))"
    if tn: "(t, Some n) \<in> set ?z" for t n
  proof -
    obtain i where i: "i < length ts" "t = ts ! i" "?dd ! i = Some n" using tn by (auto simp: in_set_zip)
    then obtain j where j: "j < i" "?dd ! j = None" "td_name (ts ! j) = n" "dedup_key X (ts ! j) = dedup_key X t"
      by (metis dedup_planE)
    moreover from this have "j < length ts" using i by simp
    ultimately have "ts ! j \<in> set ?us" unfolding set_unique_tensors by blast
    then obtain k where "k < length ?us" "?us ! k = ts ! j" by (auto simp: in_set_conv_nth)
    then show ?thesis using j i lookup [of k] \<open>j < length ts\<close> by (intro exI [of _ k]) auto
  qed
  let ?g = "\<lambda>(t, a). \<lparr>pt_entry = make_alias_entry t (the (map_of ?stored (the a))), pt_write_data = None\<rparr>"
  have al: "alias_entries ts ?dd us' = map ?g (filter (\<lambda>(t, a). a \<noteq> None) ?z)"
    unfolding alias_entries_def Let_def
    by (rule map_filter_all) (auto split: option.splits dest: owner)
  have an: "map (te_name \<circ> pt_entry) (alias_entries ts ?dd us') = map (td_name \<circ> fst) (filter (\<lambda>(t, a). a \<noteq> None) ?z)"
    unfolding al by (simp add: make_alias_entry_def case_prod_unfold comp_def)
  have "mset (map (te_name \<circ> pt_entry) pts) = mset (map (td_name \<circ> fst) (filter (\<lambda>(t, a). a = None) ?z))
      + mset (map (td_name \<circ> fst) (filter (\<lambda>(t, a). a \<noteq> None) ?z))"
    unfolding pts map_append mset_append names an by (simp add: unique_tensors_def)
  also have "\<dots> = mset (map (td_name \<circ> fst) ?z)"
    using mset_map_split [of "td_name \<circ> fst" "\<lambda>(t, a). a = None" ?z] by (simp add: case_prod_unfold)
  finally have ms: "mset (map (te_name \<circ> pt_entry) pts) = mset (map td_name ts)" unfolding zn .
  then show "distinct (map (te_name \<circ> pt_entry) pts)" using assms(2) by (metis mset_eq_imp_distinct_iff)
  show "set (map (te_name \<circ> pt_entry) pts) = td_name ` set ts" using ms by (metis list.set_map mset_eq_setD)
  have uform: "\<exists>p \<in> set us'. stored_form B X s cfg cache t p" if "t \<in> set ?us" for t
    using that form len by (metis in_set_conv_nth)
  have aform: "\<exists>owner \<in> set ts. \<exists>p0 \<in> set us'. stored_form B X s cfg cache owner p0
      \<and> alias_form X t owner p0 (?g (t, Some n))" if tz: "(t, Some n) \<in> set ?z" for t n
  proof -
    obtain k where "k < length ?us" "?us ! k \<in> set ts" "dedup_key X (?us ! k) = dedup_key X t"
        "map_of ?stored n = Some (pt_entry (us' ! k))"
      using owner [OF tz] by blast
    then show ?thesis using form [of k] len
      by (intro bexI [of _ "?us ! k"] bexI [of _ "us' ! k"]) (simp_all add: alias_form_def)
  qed
  show "(\<exists>p \<in> set pts. stored_form B X s cfg cache t p)
      \<or> (\<exists>owner \<in> set ts. \<exists>p0 \<in> set pts. \<exists>p \<in> set pts. stored_form B X s cfg cache owner p0 \<and> alias_form X t owner p0 p)"
    if tts: "t \<in> set ts" for t
  proof -
    obtain i where i: "i < length ts" "t = ts ! i" using tts by (auto simp: in_set_conv_nth)
    show ?thesis
    proof (cases "?dd ! i")
      case None
      with i uform [of t] pts show ?thesis by (auto simp: set_unique_tensors)
    next
      case (Some n)
      then have z: "(t, Some n) \<in> set ?z" using i by (force simp: in_set_zip)
      then have "?g (t, Some n) \<in> set (alias_entries ts ?dd us')" unfolding al by force
      with aform [OF z] pts show ?thesis by auto
    qed
  qed
  show "(\<exists>t \<in> set ts. stored_form B X s cfg cache t p)
      \<or> (\<exists>t \<in> set ts. \<exists>owner \<in> set ts. \<exists>p0 \<in> set pts. stored_form B X s cfg cache owner p0 \<and> alias_form X t owner p0 p)"
    if pin: "p \<in> set pts" for p
  proof (cases "p \<in> set us'")
    case True
    then obtain k where "k < length ?us" "p = us' ! k" using len by (auto simp: in_set_conv_nth)
    moreover from this have "?us ! k \<in> set ts" using nth_mem [of k ?us] by (auto simp: set_unique_tensors)
    ultimately show ?thesis using form [of k] by blast
  next
    case False
    then have "p \<in> set (alias_entries ts ?dd us')" using pin by (simp add: pts)
    then obtain t n where z: "(t, Some n) \<in> set ?z" "p = ?g (t, Some n)" unfolding al by auto
    then show ?thesis using aform [OF z(1)] set_zip_leftD [OF z(1)] pts by auto
  qed
qed

section \<open>A rank that has been saved\<close>

text \<open>The bytes of an entry, in the pack it was placed in.\<close>

definition pack_holds :: "bytes \<Rightarrow> tensor_entry \<Rightarrow> bytes \<Rightarrow> bool" where
  "pack_holds c e d \<longleftrightarrow> te_compressed_size e = length d \<and> te_offset e + length d \<le> length c
     \<and> take (length d) (drop (te_offset e) c) = d"

definition saved_entry :: "'s backend \<Rightarrow> ext \<Rightarrow> 's \<Rightarrow> 'r coordinator_config \<Rightarrow> base_cache option \<Rightarrow> bytes
    \<Rightarrow> tensor_data \<Rightarrow> tensor_entry \<Rightarrow> bool" where
  "saved_entry B X s cfg cache c t e \<longleftrightarrow> (\<exists>p off. stored_form B X s cfg cache t p
     \<and> e = (pt_entry p)\<lparr>te_offset := off\<rparr> \<and> (\<forall>d. pt_write_data p = Some d \<longrightarrow> pack_holds c e d))"

definition alias_entry :: "ext \<Rightarrow> tensor_data \<Rightarrow> tensor_data \<Rightarrow> tensor_entry \<Rightarrow> tensor_entry \<Rightarrow> bool" where
  "alias_entry X t owner e0 e \<longleftrightarrow> dedup_key X owner = dedup_key X t
     \<and> (\<exists>off. e = (make_alias_entry t e0)\<lparr>te_offset := off\<rparr>)"

text \<open>
  What a successful save leaves: names once each, every entry stored with its bytes in the pack or
  an alias of one that is.
\<close>

definition rank_saved :: "'s backend \<Rightarrow> ext \<Rightarrow> 's \<Rightarrow> 'r coordinator_config \<Rightarrow> base_cache option
    \<Rightarrow> tensor_data list \<Rightarrow> tensor_entry list \<Rightarrow> bytes \<Rightarrow> bool" where
  "rank_saved B X s cfg cache ts es c \<longleftrightarrow> distinct (map te_name es) \<and> te_name ` set es = td_name ` set ts
     \<and> (\<forall>e \<in> set es. (\<exists>t \<in> set ts. saved_entry B X s cfg cache c t e)
        \<or> (\<exists>t \<in> set ts. \<exists>owner \<in> set ts. \<exists>e0 \<in> set es.
             saved_entry B X s cfg cache c owner e0 \<and> alias_entry X t owner e0 e))"

lemma process_tensor_size:
  assumes "process_tensor B X s t cache algo ratio policy = Inr p" and "pt_write_data p = Some d"
  shows "te_compressed_size (pt_entry p) = length d"
proof -
  obtain w dt q where "working_copy t policy = Inr (w, dt, q)" using assms(1) by (rule process_tensor_working)
  with assms(1) show ?thesis by (cases rule: process_tensor_cases) (use assms(2) in auto)
qed

lemma process_tensor_hash:
  assumes "process_tensor B X s t cache algo ratio policy = Inr p"
  shows "te_hash_compressed (pt_entry p) = map_option (hash_hex X) (pt_write_data p)"
proof -
  obtain w dt q where "working_copy t policy = Inr (w, dt, q)" using assms(1) by (rule process_tensor_working)
  with assms(1) show ?thesis by (cases rule: process_tensor_cases) simp_all
qed

lemma saved_entry_name: "saved_entry B X s cfg cache c t e \<Longrightarrow> te_name e = td_name t \<and> te_storage e \<noteq> Alias"
  by (auto simp: saved_entry_def stored_form_def process_tensor_name)

lemma alias_entry_simps:
  assumes "alias_entry X t owner e0 e"
  shows "te_name e = td_name t" "te_storage e = Alias" "te_alias_of e = Some (te_name e0)"
    "te_hash_raw e = te_hash_raw e0" "dedup_key X owner = dedup_key X t"
  using assms by (auto simp: alias_entry_def make_alias_entry_def)

lemma save_rank_tensorsE:
  assumes "save_rank_tensors B X cfg i dir base ts cx (s, ret) = (Inr re, (s', ret'))"
  obtains processed placed blobs_end encoded where
    "process_rank B X s cfg ret base ts = Inr processed"
    "assign_offsets header_len processed = (placed, blobs_end)"
    "re = make_rank_entry (cc_rank cfg) (rank_pack_path dir (cc_rank cfg)) placed"
    "b_put_parts B (rank_pack_path dir (cc_rank cfg)) (pack_parts placed blobs_end encoded) s = (Inr (), s')"
    "ret' = (if base = None then retain_base cfg ret i ts processed else ret)"
    "js_to_vec (x_descriptor X) (make_descriptor cfg i base cx re) = Inr encoded"
  using assms
  by (auto simp: save_rank_tensors_def serialization_def Let_def split: sum.splits prod.splits)

lemma map_filter_of_map: "List.map_filter f xs = List.map_filter id (map f xs)"
  by (induction xs) (simp_all add: map_filter_Cons List.map_filter_simps split: option.splits)

lemma concat_pack_parts:
  "map pt_write_data placed = map pt_write_data processed
    \<Longrightarrow> concat (pack_parts placed blobs_end encoded)
      = encode_header (of_nat blobs_end) (of_nat (length encoded))
        @ concat (List.map_filter pt_write_data processed) @ encoded"
  by (simp add: pack_parts_def map_filter_of_map [of pt_write_data])

lemma placed_holds:
  assumes "placed_at header_len blobs off d" and "te_compressed_size e = length d"
    and "length header = header_len"
  shows "pack_holds (header @ blobs @ rest) (e\<lparr>te_offset := off\<rparr>) d"
proof -
  obtain before after where "blobs = before @ d @ after" "off = header_len + length before"
    using assms(1) by (auto simp: placed_at_def)
  with assms(2,3) show ?thesis by (simp add: pack_holds_def)
qed

lemma process_rank_saved:
  assumes "process_rank B X s cfg ret base ts = Inr processed" and "distinct (map td_name ts)"
    and "assign_offsets header_len processed = (placed, blobs_end)"
    and "c = header @ concat (List.map_filter pt_write_data processed) @ rest" and "length header = header_len"
  shows "rank_saved B X s cfg (build_base_cache cfg ret base) ts (map pt_entry placed) c"
proof -
  let ?cache = "build_base_cache cfg ret base"
  let ?blobs = "concat (List.map_filter pt_write_data processed)"
  note shape = process_rank_shape [OF assms(1,2)]
  have pl: "list_all2 (places header_len ?blobs) processed placed"
    using assign_offsets_places [OF assms(3)] by blast
  then have len: "length placed = length processed" by (simp add: list_all2_lengthD)
  have at: "places header_len ?blobs (processed ! k) (placed ! k)" if "k < length processed" for k
    using pl that by (simp add: list_all2_conv_all_nth)
  have name: "te_name (pt_entry (placed ! k)) = te_name (pt_entry (processed ! k))" if "k < length processed" for k
    using at [OF that] by (auto simp: places_def)
  have names: "map (te_name \<circ> pt_entry) placed = map (te_name \<circ> pt_entry) processed"
    using name len by (intro nth_equalityI) simp_all
  have saved: "saved_entry B X s cfg ?cache c t (pt_entry (placed ! k))"
    if k: "k < length processed" and f: "stored_form B X s cfg ?cache t (processed ! k)" for t k
  proof -
    obtain off where off: "pt_entry (placed ! k) = (pt_entry (processed ! k))\<lparr>te_offset := off\<rparr>"
        "\<And>d. pt_write_data (processed ! k) = Some d \<Longrightarrow> placed_at header_len ?blobs off d"
      using at [OF k] by (auto simp: places_def)
    have "pack_holds c ((pt_entry (processed ! k))\<lparr>te_offset := off\<rparr>) d"
      if w: "pt_write_data (processed ! k) = Some d" for d
      unfolding assms(4) using f w
      by (intro placed_holds off(2) assms(5)) (auto simp: stored_form_def process_tensor_size)
    with f off(1) show ?thesis by (auto simp: saved_entry_def)
  qed
  have mem: "\<exists>k < length processed. p = processed ! k \<and> pt_entry (placed ! k) \<in> set (map pt_entry placed)"
    if pin: "p \<in> set processed" for p
  proof -
    obtain k where "k < length processed" "p = processed ! k" using pin by (auto simp: in_set_conv_nth)
    then show ?thesis using len by (intro exI [of _ k]) simp
  qed
  have "(\<exists>t \<in> set ts. saved_entry B X s cfg ?cache c t e)
      \<or> (\<exists>t \<in> set ts. \<exists>owner \<in> set ts. \<exists>e0 \<in> set (map pt_entry placed).
           saved_entry B X s cfg ?cache c owner e0 \<and> alias_entry X t owner e0 e)"
    if ee: "e \<in> set (map pt_entry placed)" for e
  proof -
    obtain k where k: "k < length processed" "e = pt_entry (placed ! k)"
      using ee len by (auto simp: in_set_conv_nth)
    then have "processed ! k \<in> set processed" by simp
    from shape(4) [OF this] show ?thesis
    proof (elim disjE bexE conjE)
      fix t assume "t \<in> set ts" "stored_form B X s cfg ?cache t (processed ! k)"
      with saved k show ?thesis by blast
    next
      fix t owner p0
      assume t: "t \<in> set ts" "owner \<in> set ts" "p0 \<in> set processed"
        and f: "stored_form B X s cfg ?cache owner p0" "alias_form X t owner p0 (processed ! k)"
      obtain j where j: "j < length processed" "p0 = processed ! j" "pt_entry (placed ! j) \<in> set (map pt_entry placed)"
        using mem [OF t(3)] by blast
      have "make_alias_entry t (pt_entry (placed ! j)) = make_alias_entry t (pt_entry p0)"
        using at [OF j(1)] j(2) by (auto simp: places_def make_alias_entry_def)
      then have "alias_entry X t owner (pt_entry (placed ! j)) e"
        using f(2) at [OF k(1)] k(2) by (auto simp: alias_form_def alias_entry_def places_def)
      with saved [OF j(1)] f(1) j t show ?thesis by blast
    qed
  qed
  moreover have "distinct (map te_name (map pt_entry placed))"
    using shape(1) names by simp
  moreover have "te_name ` set (map pt_entry placed) = td_name ` set ts"
    using shape(2) names by (metis list.map_comp list.set_map)
  ultimately show ?thesis by (simp add: rank_saved_def)
qed

context backend_contract
begin

lemma save_rank_saved:
  assumes "save_rank_tensors B X cfg i dir base ts cx (s, ret) = (Inr re, (s', ret'))"
    and "distinct (map td_name ts)"
  obtains c where "contents s' (rank_pack_path dir (cc_rank cfg)) = Some c"
    "re_pack_file re = Some (rank_pack_path dir (cc_rank cfg))" "re_rank re = cc_rank cfg"
    "rank_saved B X s cfg (build_base_cache cfg ret base) ts (re_tensors re) c"
    "\<And>p. p \<noteq> rank_pack_path dir (cc_rank cfg) \<Longrightarrow> contents s' p = contents s p"
proof -
  obtain processed placed blobs_end encoded where p: "process_rank B X s cfg ret base ts = Inr processed"
    and off: "assign_offsets header_len processed = (placed, blobs_end)"
    and re: "re = make_rank_entry (cc_rank cfg) (rank_pack_path dir (cc_rank cfg)) placed"
    and put: "b_put_parts B (rank_pack_path dir (cc_rank cfg)) (pack_parts placed blobs_end encoded) s = (Inr (), s')"
    using assms(1) by (rule save_rank_tensorsE)
  let ?path = "rank_pack_path dir (cc_rank cfg)"
  let ?h = "encode_header (of_nat blobs_end) (of_nat (length encoded))"
  obtain n where n: "padded (concat (pack_parts placed blobs_end encoded))
      = concat (pack_parts placed blobs_end encoded) @ replicate n 0"
    using padded_zeros by blast
  have cont: "contents s' = (contents s)(?path \<mapsto> padded (concat (pack_parts placed blobs_end encoded)))"
    using put by (rule put_parts_ok)
  have "map pt_write_data placed = map pt_write_data processed" using assign_offsets_places [OF off] by blast
  from concat_pack_parts [OF this] n
  have pc: "padded (concat (pack_parts placed blobs_end encoded))
      = ?h @ concat (List.map_filter pt_write_data processed) @ (encoded @ replicate n 0)"
    by simp
  show thesis
  proof (rule that)
    show "contents s' ?path = Some (?h @ concat (List.map_filter pt_write_data processed) @ (encoded @ replicate n 0))"
      using cont pc by simp
    show "re_pack_file re = Some ?path" "re_rank re = cc_rank cfg" by (simp_all add: re make_rank_entry_def Let_def)
    show "rank_saved B X s cfg (build_base_cache cfg ret base) ts (re_tensors re)
        (?h @ concat (List.map_filter pt_write_data processed) @ (encoded @ replicate n 0))"
      using process_rank_saved [OF p assms(2) off refl] by (simp add: re make_rank_entry_def Let_def)
    show "contents s' p = contents s p" if "p \<noteq> ?path" for p using cont that by simp
  qed
qed

end

end
