(* ===== verification/LoadRank.thy ===== *)
theory LoadRank
  imports SaveRank
begin

text \<open>
  Reading a snapshot back, from \<^verbatim>\<open>src/src/coordinator/mod.rs\<close>: the whole of a rank
  (\<^verbatim>\<open>load_in_pool\<close>), some of its tensors (\<^verbatim>\<open>load_tensors\<close>) and its description. They change nothing;
  the pins around them are the registry's and are in the coordinator's own theory.
\<close>

section \<open>Finding a base tensor\<close>

definition rank_of :: "nat \<Rightarrow> snapshot \<Rightarrow> rank_entry option" where
  "rank_of rank sn = map_of (sn_ranks sn) rank"

definition find_base_tensor_entry_with_pack :: "'s backend \<Rightarrow> 's \<Rightarrow> nat \<Rightarrow> manifest \<Rightarrow> bool
    \<Rightarrow> base_resolver" where
  "find_base_tensor_entry_with_pack B s rank m whole_pack base_id tensor_name =
     bind_res (ok_or (find_snapshot m base_id) (NotFound ''Base snapshot'')) (\<lambda>base_snap.
     bind_res (ok_or (rank_of rank base_snap) (NotFound ''Rank not in base snapshot'')) (\<lambda>rank_entry.
     bind_res (ok_or (find (\<lambda>t. te_name t = tensor_name) (re_tensors rank_entry))
                 (NotFound ''Tensor not in base snapshot'')) (\<lambda>entry.
       case re_pack_file rank_entry of
         None \<Rightarrow> Inr (entry, sn_compression base_snap, PerFile)
       | Some path \<Rightarrow>
           if whole_pack
           then bind_res (b_get B s path) (\<lambda>bs. Inr (entry, sn_compression base_snap, Whole bs))
           else Inr (entry, sn_compression base_snap, Ranged path))))"

section \<open>A whole rank\<close>

text \<open>What \<^verbatim>\<open>load_in_pool\<close> prefetches of the base: its entries and its pack.\<close>

type_synonym base_ctx = "uuid \<times> (string \<times> tensor_entry) list \<times> compression_algo \<times> pack_source"

definition prefetch_base :: "'s backend \<Rightarrow> 's \<Rightarrow> nat \<Rightarrow> manifest \<Rightarrow> snapshot \<Rightarrow> rank_entry
    \<Rightarrow> base_ctx option result" where
  "prefetch_base B s rank m snap rank_entry =
     (let needs_base = list_ex (\<lambda>t. te_storage t \<noteq> Full) (re_tensors rank_entry) in
      case (needs_base, sn_base_snapshot_id snap) of
        (True, Some base_id) \<Rightarrow>
          (case find_snapshot m base_id of
             None \<Rightarrow> Inr None
           | Some bs \<Rightarrow>
               (case rank_of rank bs of
                  None \<Rightarrow> Inr None
                | Some re \<Rightarrow>
                    bind_res (case re_pack_file re of
                        Some p \<Rightarrow> bind_res (b_get B s p) (\<lambda>data. Inr (Whole data))
                      | None \<Rightarrow> Inr PerFile) (\<lambda>pack.
                      Inr (Some (base_id, collect_map (map (\<lambda>t. (te_name t, t)) (re_tensors re)),
                             sn_compression bs, pack)))))
      | _ \<Rightarrow> Inr None)"

definition load_resolver :: "'s backend \<Rightarrow> 's \<Rightarrow> nat \<Rightarrow> manifest \<Rightarrow> base_ctx option \<Rightarrow> base_resolver" where
  "load_resolver B s rank m ctx base_id tensor_name =
     (case ctx of
        Some (cached_id, entries, algo, pack) \<Rightarrow>
          if cached_id = base_id
          then bind_res (ok_or (map_of entries tensor_name) (NotFound ''Tensor not in base snapshot''))
                 (\<lambda>entry. Inr (entry, algo, pack))
          else find_base_tensor_entry_with_pack B s rank m True base_id tensor_name
      | None \<Rightarrow> find_base_tensor_entry_with_pack B s rank m True base_id tensor_name)"

text \<open>The second pass: an alias takes the bytes of a tensor that is there already.\<close>

fun load_aliases :: "tensor_entry list \<Rightarrow> (string \<times> bytes) list \<Rightarrow> (string \<times> bytes) list result" where
  "load_aliases [] out = Inr out"
| "load_aliases (entry # entries) out =
     (if te_storage entry \<noteq> Alias then load_aliases entries out
      else bind_res (ok_or (te_alias_of entry) (NotFound ''Alias has no target'')) (\<lambda>target.
        bind_res (ok_or (map_of out target) (NotFound ''Alias points at nothing'')) (\<lambda>data.
          load_aliases entries (AList.update (te_name entry) data out))))"

definition load_in_pool :: "'s backend \<Rightarrow> ext \<Rightarrow> 's \<Rightarrow> nat \<Rightarrow> manifest \<Rightarrow> uuid
    \<Rightarrow> (string \<times> bytes) list result" where
  "load_in_pool B X s rank m snap_id =
     bind_res (ok_or (find_snapshot m snap_id) (NotFound ''Snapshot'')) (\<lambda>snap.
     bind_res (ok_or (rank_of rank snap) (NotFound ''Rank not found'')) (\<lambda>rank_entry.
     bind_res (case re_pack_file rank_entry of
         Some pack_file \<Rightarrow> bind_res (b_get B s pack_file) (\<lambda>data. Inr (Whole data))
       | None \<Rightarrow> Inr PerFile) (\<lambda>pack_data.
     bind_res (prefetch_base B s rank m snap rank_entry) (\<lambda>ctx.
     bind_res (map_res (\<lambda>entry.
           bind_res (load_tensor B X s (load_resolver B s rank m ctx) entry (sn_base_snapshot_id snap)
                       (sn_compression snap) pack_data)
             (\<lambda>data. Inr (te_name entry, data)))
         (filter (\<lambda>entry. te_storage entry \<noteq> Alias) (re_tensors rank_entry))) (\<lambda>pairs.
       load_aliases (re_tensors rank_entry) (collect_map pairs))))))"

section \<open>Some tensors\<close>

definition load_one :: "'s backend \<Rightarrow> ext \<Rightarrow> 's \<Rightarrow> nat \<Rightarrow> manifest \<Rightarrow> snapshot \<Rightarrow> rank_entry \<Rightarrow> string
    \<Rightarrow> bytes result" where
  "load_one B X s rank m snap rank_entry name =
     bind_res (ok_or (find (\<lambda>t. te_name t = name) (re_tensors rank_entry))
                 (NotFound ''Tensor not in snapshot'')) (\<lambda>entry.
     bind_res (if te_storage entry = Alias
               then bind_res (ok_or (te_alias_of entry) (NotFound ''Alias has no target'')) (\<lambda>target.
                      ok_or (find (\<lambda>t. te_name t = target) (re_tensors rank_entry))
                        (NotFound ''Alias points at nothing''))
               else Inr entry) (\<lambda>stored.
       load_tensor B X s (find_base_tensor_entry_with_pack B s rank m False) stored
         (sn_base_snapshot_id snap) (sn_compression snap)
         (case re_pack_file rank_entry of Some path \<Rightarrow> Ranged path | None \<Rightarrow> PerFile)))"

definition load_named :: "'s backend \<Rightarrow> ext \<Rightarrow> 's \<Rightarrow> nat \<Rightarrow> manifest \<Rightarrow> uuid \<Rightarrow> string list
    \<Rightarrow> (string \<times> bytes) list result" where
  "load_named B X s rank m snap_id names =
     bind_res (ok_or (find_snapshot m snap_id) (NotFound ''Snapshot'')) (\<lambda>snap.
     bind_res (ok_or (rank_of rank snap) (NotFound ''Rank not found'')) (\<lambda>rank_entry.
     bind_res (map_res (\<lambda>name. bind_res (load_one B X s rank m snap rank_entry name)
         (\<lambda>data. Inr (name, data))) names) (\<lambda>pairs.
       Inr (collect_map pairs))))"

section \<open>Description\<close>

record tensor_description =
  ds_name :: string
  ds_shape :: "nat list"
  ds_dtype :: string
  ds_stored_dtype :: string
  ds_storage :: tensor_storage
  ds_alias_of :: "string option"
  ds_raw_size :: nat
  ds_compressed_size :: nat
  ds_hash_raw :: string

record snapshot_description =
  sd_id :: uuid
  sd_step :: nat
  sd_created_at :: timestamp
  sd_is_delta :: bool
  sd_base_snapshot_id :: "uuid option"
  sd_metadata :: metadata
  sd_rank :: nat
  sd_ranks :: nat
  sd_tensors :: "tensor_description list"

definition describe_tensor :: "tensor_entry \<Rightarrow> tensor_description" where
  "describe_tensor t =
     \<lparr>ds_name = te_name t, ds_shape = te_shape t,
      ds_dtype = (case te_original_dtype t of Some d \<Rightarrow> d | None \<Rightarrow> te_dtype t),
      ds_stored_dtype = te_dtype t, ds_storage = te_storage t, ds_alias_of = te_alias_of t,
      ds_raw_size = te_raw_size t, ds_compressed_size = te_compressed_size t,
      ds_hash_raw = te_hash_raw t\<rparr>"

definition describe_snapshot :: "snapshot \<Rightarrow> nat \<Rightarrow> snapshot_description result" where
  "describe_snapshot snap rank =
     bind_res (ok_or (rank_of rank snap) (NotFound ''Rank not found'')) (\<lambda>rank_entry.
       Inr \<lparr>sd_id = sn_id snap, sd_step = sn_step snap, sd_created_at = sn_created_at snap,
            sd_is_delta = (sn_base_snapshot_id snap \<noteq> None),
            sd_base_snapshot_id = sn_base_snapshot_id snap, sd_metadata = sn_metadata snap,
            sd_rank = rank, sd_ranks = length (sn_ranks snap),
            sd_tensors = map describe_tensor (re_tensors rank_entry)\<rparr>)"

definition newest_finalized :: "manifest \<Rightarrow> snapshot option" where
  "newest_finalized m = find sn_finalized (rev (mf_snapshots m))"

definition describe :: "manifest \<Rightarrow> nat \<Rightarrow> uuid \<Rightarrow> snapshot_description result" where
  "describe m rank snap_id =
     bind_res (ok_or (find_snapshot m snap_id) (NotFound ''Snapshot'')) (\<lambda>snap. describe_snapshot snap rank)"

definition describe_latest :: "manifest \<Rightarrow> nat \<Rightarrow> snapshot_description result" where
  "describe_latest m rank =
     bind_res (ok_or (newest_finalized m) (NotFound ''No finalized snapshots''))
       (\<lambda>snap. describe_snapshot snap rank)"

section \<open>One tensor of a saved rank\<close>

text \<open>What a load owes for a tensor: its bytes, through the cast the policy asked for.\<close>

definition restored_tensor :: "dtype_policy \<Rightarrow> tensor_data \<Rightarrow> bytes result" where
  "restored_tensor policy t = bind_res (working_copy t policy) (\<lambda>(w, d, q).
     if d = td_dtype t then Inr w else uncast_tensor w d (td_dtype t) q)"

lemma restored_uncast [simp]: "restored_tensor [] t = Inr (td_data t)"
  by (simp add: restored_tensor_def working_copy_def)

lemma working_copy_plain: "working_copy t policy = Inr (w, td_dtype t, q) \<Longrightarrow> w = td_data t"
  by (auto simp: working_copy_def cast_tensor_def Let_def effect_simps split: if_splits option.splits)

lemma restored_ok:
  assumes "working_copy t policy = Inr (w, d, q)"
  shows "\<exists>raw. restored_tensor policy t = Inr raw"
proof (cases "for_tensor policy (td_name t) \<noteq> DTypeNone \<and> is_castable_float (td_dtype t)")
  case True
  with assms have "cast_tensor (td_data t) (td_dtype t) (for_tensor policy (td_name t)) = Inr (w, d, q)"
    by (simp add: working_copy_def)
  from uncast_of_cast [OF this] assms show ?thesis by (auto simp: restored_tensor_def)
next
  case False
  with assms show ?thesis by (auto simp: restored_tensor_def working_copy_def)
qed

text \<open>The codecs do what they promise on every buffer.\<close>

definition zstd_sound :: "ext \<Rightarrow> compression_algo \<Rightarrow> bool" where
  "zstd_sound X algo \<longleftrightarrow> (\<forall>data. zstd_ok (x_zstd X) algo data)"

lemma pack_holds_extract:
  "pack_holds c e d \<Longrightarrow> extract_compressed B s e (Whole c) = Inr d"
  by (simp add: pack_holds_def extract_compressed_def Let_def)

lemma saved_entry_loads:
  assumes saved: "saved_entry B X s cfg cache c t e"
    and w: "working_copy t (cc_save_dtype cfg) = Inr (w, d, q)"
    and zs: "zstd_sound X (cc_compression cfg)"
    and ext: "\<And>z. pack_holds c e z \<Longrightarrow> extract_compressed B' s' e pack = Inr z"
    and base: "\<And>bc. cache = Some bc \<Longrightarrow> snap_base = Some i \<and> base_agrees B X s B' s' R i bc (td_name t) raw"
    and coll: "hash_hex X raw = hash_hex X w \<Longrightarrow> raw = w"
  shows "load_tensor B' X s' R e snap_base (cc_compression cfg) pack = restored_tensor (cc_save_dtype cfg) t"
proof -
  obtain p off where p: "stored_form B X s cfg cache t p" "e = (pt_entry p)\<lparr>te_offset := off\<rparr>"
      "\<And>z. pt_write_data p = Some z \<Longrightarrow> pack_holds c e z"
    using saved by (auto simp: saved_entry_def)
  have "load_tensor B' X s' R e snap_base (cc_compression cfg) pack
      = (if d = td_dtype t then Inr w else uncast_tensor w d (td_dtype t) q)"
  proof (rule load_processed [OF _ w])
    show "process_tensor B X s t cache (cc_compression cfg) (cc_delta_max_ratio cfg) (cc_save_dtype cfg) = Inr p"
      using p(1) by (simp add: stored_form_def)
    show "zstd_ok (x_zstd X) (cc_compression cfg) b" for b using zs by (simp add: zstd_sound_def)
    show "e = (pt_entry p)\<lparr>te_offset := off, te_filename := te_filename (pt_entry p)\<rparr>"
      unfolding p(2) by simp
    show "hash_hex X raw = hash_hex X w \<Longrightarrow> raw = w" by (rule coll)
  qed (use p(3) ext base in auto)
  with w show ?thesis by (simp add: restored_tensor_def)
qed

section \<open>The second pass\<close>

lemma load_aliases_ok:
  assumes "distinct (map te_name es)"
    and "\<And>e. e \<in> set es \<Longrightarrow> te_storage e = Alias
      \<Longrightarrow> te_name e \<notin> N \<and> (\<exists>target \<in> N. te_alias_of e = Some target)"
    and "\<And>n. n \<in> N \<Longrightarrow> map_of out n = Some (D n)"
  shows "\<exists>out'. load_aliases es out = Inr out' \<and> (\<forall>n \<in> N. map_of out' n = Some (D n))
    \<and> (\<forall>e \<in> set es. te_storage e = Alias \<longrightarrow> map_of out' (te_name e) = Some (D (the (te_alias_of e))))
    \<and> (\<forall>n. n \<notin> te_name ` set es \<longrightarrow> map_of out' n = map_of out n)"
  using assms
proof (induction es arbitrary: out)
  case (Cons e es)
  show ?case
  proof (cases "te_storage e = Alias")
    case False
    have "distinct (map te_name es)" using Cons.prems(1) by simp
    moreover have "\<And>e. e \<in> set es \<Longrightarrow> te_storage e = Alias
        \<Longrightarrow> te_name e \<notin> N \<and> (\<exists>target \<in> N. te_alias_of e = Some target)"
      using Cons.prems(2) by simp
    ultimately show ?thesis using Cons.IH [OF _ _ Cons.prems(3)] False by auto
  next
    case True
    with Cons.prems(2) obtain target where t: "te_name e \<notin> N" "target \<in> N" "te_alias_of e = Some target"
      by fastforce
    let ?out = "AList.update (te_name e) (D target) out"
    have "\<And>n. n \<in> N \<Longrightarrow> map_of ?out n = Some (D n)" using Cons.prems(3) t(1) by (auto simp: update_conv')
    then obtain out' where "load_aliases es ?out = Inr out'" "\<forall>n \<in> N. map_of out' n = Some (D n)"
        "\<forall>e \<in> set es. te_storage e = Alias \<longrightarrow> map_of out' (te_name e) = Some (D (the (te_alias_of e)))"
        "\<forall>n. n \<notin> te_name ` set es \<longrightarrow> map_of out' n = map_of ?out n"
      using Cons.IH [of ?out] Cons.prems by auto
    moreover have "te_name e \<notin> te_name ` set es" using Cons.prems(1) by auto
    ultimately show ?thesis
      using True t Cons.prems(3) [OF t(2)] by (auto simp: update_conv')
  qed
qed simp

lemma map_of_collect_pairs:
  assumes "distinct (map f xs)" and "x \<in> set xs"
  shows "map_of (collect_map (map (\<lambda>x. (f x, g x)) xs)) (f x) = Some (g x)"
proof (rule map_of_is_SomeI)
  have "map fst (collect_map (map (\<lambda>x. (f x, g x)) xs)) = rev (map f xs)"
    by (simp add: collect_map_def rev_map comp_def)
  with assms(1) show "distinct (map fst (collect_map (map (\<lambda>x. (f x, g x)) xs)))" by simp
qed (use assms(2) in \<open>auto simp: collect_map_def\<close>)

section \<open>All of a saved rank\<close>

text \<open>What the caller of a load gets: every name with the restored bytes of its tensor, or of the one it is a copy of.\<close>

definition gives_back :: "dtype_policy \<Rightarrow> ext \<Rightarrow> tensor_data list \<Rightarrow> (string \<times> bytes) list \<Rightarrow> bool" where
  "gives_back policy X ts out \<longleftrightarrow> (\<forall>t \<in> set ts. \<exists>owner \<in> set ts. dedup_key X owner = dedup_key X t
     \<and> (\<exists>raw. restored_tensor policy owner = Inr raw \<and> map_of out (td_name t) = Some raw))"

lemma saved_entry_restored:
  assumes "saved_entry B X s cfg cache c t e"
  shows "\<exists>raw. restored_tensor (cc_save_dtype cfg) t = Inr raw"
  using assms by (auto simp: saved_entry_def stored_form_def elim!: process_tensor_working dest: restored_ok)

lemma rank_saved_loads:
  assumes saved: "rank_saved B0 X s0 cfg cache ts (re_tensors re) c" and dist: "distinct (map td_name ts)"
    and find: "find_snapshot m i = Some sn" "rank_of rank sn = Some re"
    and pack: "re_pack_file re = Some path" "b_get B s path = Inr c"
    and pre: "prefetch_base B s rank m sn re = Inr ctx"
    and loads: "\<And>t e. t \<in> set ts \<Longrightarrow> saved_entry B0 X s0 cfg cache c t e
      \<Longrightarrow> load_tensor B X s (load_resolver B s rank m ctx) e (sn_base_snapshot_id sn) (sn_compression sn) (Whole c)
        = restored_tensor (cc_save_dtype cfg) t"
  shows "\<exists>out. load_in_pool B X s rank m i = Inr out \<and> gives_back (cc_save_dtype cfg) X ts out"
proof -
  let ?es = "re_tensors re"
  let ?load = "\<lambda>e. load_tensor B X s (load_resolver B s rank m ctx) e (sn_base_snapshot_id sn) (sn_compression sn) (Whole c)"
  let ?stored = "filter (\<lambda>e. te_storage e \<noteq> Alias) ?es"
  let ?saved = "saved_entry B0 X s0 cfg cache c"
  have names: "distinct (map te_name ?es)" "te_name ` set ?es = td_name ` set ts"
    and form: "\<And>e. e \<in> set ?es \<Longrightarrow> (\<exists>t \<in> set ts. ?saved t e)
      \<or> (\<exists>t \<in> set ts. \<exists>owner \<in> set ts. \<exists>e0 \<in> set ?es. ?saved owner e0 \<and> alias_entry X t owner e0 e)"
    using saved by (auto simp: rank_saved_def)
  have stored: "\<exists>t \<in> set ts. ?saved t e" if "e \<in> set ?stored" for e
    using that form [of e] by (auto simp: alias_entry_simps)
  have ok: "\<exists>raw. ?load e = Inr raw" if "e \<in> set ?stored" for e
    using stored [OF that] loads saved_entry_restored by metis
  define data where "data e = (case ?load e of Inr raw \<Rightarrow> raw | Inl _ \<Rightarrow> [])" for e
  have data: "?load e = Inr (data e)" if "e \<in> set ?stored" for e
    using ok [OF that] by (auto simp: data_def)
  have pairs: "map_res (\<lambda>entry. bind_res (?load entry) (\<lambda>d. Inr (te_name entry, d))) ?stored
      = Inr (map (\<lambda>e. (te_name e, data e)) ?stored)"
    by (rule map_res_Inr_map) (simp add: data)
  define D where "D n = (case find (\<lambda>e. te_name e = n) ?es of Some e \<Rightarrow> data e | None \<Rightarrow> [])" for n
  have D: "D (te_name e) = data e" if "e \<in> set ?es" for e
    using find_distinct [OF names(1) that] by (simp add: D_def)
  let ?out0 = "collect_map (map (\<lambda>e. (te_name e, data e)) ?stored)"
  have out0: "map_of ?out0 n = Some (D n)" if n: "n \<in> te_name ` set ?stored" for n
  proof -
    obtain e where e: "e \<in> set ?stored" "n = te_name e" using n by auto
    moreover have "distinct (map te_name ?stored)" using names(1) by (rule distinct_map_filter)
    ultimately have "map_of ?out0 (te_name e) = Some (data e)" by (intro map_of_collect_pairs)
    with e D [of e] show ?thesis by simp
  qed
  have al: "te_name e \<notin> te_name ` set ?stored \<and> (\<exists>target \<in> te_name ` set ?stored. te_alias_of e = Some target)"
    if e: "e \<in> set ?es" "te_storage e = Alias" for e
  proof -
    have "te_name e \<notin> te_name ` set ?stored"
      using e names(1) by (auto simp: distinct_map inj_on_def)
    moreover obtain t owner e0 where e0: "e0 \<in> set ?es" "?saved owner e0" "alias_entry X t owner e0 e"
      using form [OF e(1)] e(2) saved_entry_name by metis
    then have "te_name e0 \<in> te_name ` set ?stored"
      using saved_entry_name [OF e0(2)] by (intro imageI) simp
    ultimately show ?thesis using alias_entry_simps(3) [OF e0(3)] by blast
  qed
  obtain out where out: "load_aliases ?es ?out0 = Inr out" "\<forall>n \<in> te_name ` set ?stored. map_of out n = Some (D n)"
      "\<forall>e \<in> set ?es. te_storage e = Alias \<longrightarrow> map_of out (te_name e) = Some (D (the (te_alias_of e)))"
    using load_aliases_ok [OF names(1) al out0] by auto
  have "gives_back (cc_save_dtype cfg) X ts out"
    unfolding gives_back_def
  proof
    fix t assume t: "t \<in> set ts"
    have uniq: "t' = t" if "t' \<in> set ts" "td_name t' = td_name t" for t'
      using dist t that by (auto simp: distinct_map inj_on_def)
    have got: "\<exists>raw. restored_tensor (cc_save_dtype cfg) u = Inr raw \<and> D (te_name e) = raw \<and> te_name e \<in> te_name ` set ?stored"
      if u: "e \<in> set ?es" "u \<in> set ts" "?saved u e" for u e
    proof -
      have st: "e \<in> set ?stored" using u saved_entry_name [OF u(3)] by simp
      then have "te_name e \<in> te_name ` set ?stored" by (rule imageI)
      with data [OF st] loads [OF u(2,3)] D [OF u(1)] show ?thesis by simp
    qed
    obtain e where e: "e \<in> set ?es" "te_name e = td_name t" using t names(2) by (metis imageE imageI)
    from form [OF e(1)] show "\<exists>owner \<in> set ts. dedup_key X owner = dedup_key X t
        \<and> (\<exists>raw. restored_tensor (cc_save_dtype cfg) owner = Inr raw \<and> map_of out (td_name t) = Some raw)"
    proof (elim disjE bexE conjE)
      fix u assume u: "u \<in> set ts" "?saved u e"
      then have "u = t" using uniq e(2) saved_entry_name by metis
      with got [OF e(1) u] out(2) e(2) t show ?thesis by (intro bexI [of _ t]) auto
    next
      fix u owner e0
      assume u: "u \<in> set ts" "owner \<in> set ts" "e0 \<in> set ?es" "?saved owner e0" "alias_entry X u owner e0 e"
      then have "u = t" using uniq e(2) by (simp add: alias_entry_simps)
      with got [OF u(3,2,4)] out(3) e u show ?thesis
        by (intro bexI [of _ owner]) (auto simp: alias_entry_simps)
    qed
  qed
  moreover have "load_in_pool B X s rank m i = Inr out"
    using find pack pre pairs out(1) by (simp add: load_in_pool_def cong: list.map_cong)
  ultimately show ?thesis by blast
qed

section \<open>A base as both sides see it\<close>

text \<open>\<open>find\<close> in the entries and the map collected from them name the same entry.\<close>

lemma find_collect:
  assumes "distinct (map te_name es)"
  shows "map_of (collect_map (map (\<lambda>t. (te_name t, t)) es)) n = find (\<lambda>t. te_name t = n) es"
proof (cases "find (\<lambda>t. te_name t = n) es")
  case None
  then have "n \<notin> fst ` set (collect_map (map (\<lambda>t. (te_name t, t)) es))"
    by (auto simp: collect_map_def find_None_iff)
  then show ?thesis using None by (simp add: map_of_eq_None_iff)
next
  case (Some e)
  then have "e \<in> set es" "te_name e = n" by (auto dest: find_Some_iff_mem)
  with map_of_collect_pairs [OF assms, of e "\<lambda>t. t"] Some show ?thesis by auto
qed

text \<open>Whether prefetched or looked up one by one, the base's entries come with its whole pack.\<close>

lemma load_resolver_base:
  assumes "find_snapshot m b = Some bs" "rank_of rank bs = Some re" "re_pack_file re = Some path"
    "b_get B s path = Inr c" "distinct (map te_name (re_tensors re))"
    and "prefetch_base B s rank m sn re' = Inr ctx" and "sn_base_snapshot_id sn = Some b"
    and "find (\<lambda>t. te_name t = n) (re_tensors re) = Some e"
  shows "load_resolver B s rank m ctx b n = Inr (e, sn_compression bs, Whole c)"
proof -
  have direct: "find_base_tensor_entry_with_pack B s rank m True b n = Inr (e, sn_compression bs, Whole c)"
    using assms(1-4,8) by (simp add: find_base_tensor_entry_with_pack_def)
  show ?thesis
  proof (cases "list_ex (\<lambda>t. te_storage t \<noteq> Full) (re_tensors re')")
    case True
    then have "ctx = Some (b, collect_map (map (\<lambda>t. (te_name t, t)) (re_tensors re)), sn_compression bs, Whole c)"
      using assms(1-4,6,7) by (simp add: prefetch_base_def)
    then show ?thesis using assms(8) find_collect [OF assms(5), of n] by (simp add: load_resolver_def)
  next
    case False
    then have "ctx = None" using assms(6) by (simp add: prefetch_base_def)
    then show ?thesis using direct by (simp add: load_resolver_def)
  qed
qed

text \<open>A full snapshot stores every tensor in full.\<close>

lemma saved_full_entry:
  assumes "saved_entry B X s cfg None c t e" and "working_copy t (cc_save_dtype cfg) = Inr (w, d, q)"
  obtains z where "te_storage e = Full" "te_hash_raw e = hash_hex X w"
    "te_hash_compressed e = Some (hash_hex X z)" "pack_holds c e z"
    "compress (x_zstd X) w (cc_compression cfg) = Inr z"
    "te_original_dtype e = (if d \<noteq> td_dtype t then Some (td_dtype t) else None)"
proof -
  obtain p off where p: "stored_form B X s cfg None t p" "e = (pt_entry p)\<lparr>te_offset := off\<rparr>"
      "\<And>z. pt_write_data p = Some z \<Longrightarrow> pack_holds c e z"
    using assms(1) by (auto simp: saved_entry_def)
  have "process_tensor B X s t None (cc_compression cfg) (cc_delta_max_ratio cfg) (cc_save_dtype cfg) = Inr p"
    using p(1) by (simp add: stored_form_def)
  from this assms(2) show thesis
    by (cases rule: process_tensor_cases) (use that p(2,3) in auto)
qed

lemma placed_entry:
  assumes "assign_offsets start pts = (placed, end_at)" and "p \<in> set pts"
  shows "\<exists>off. (pt_entry p)\<lparr>te_offset := off\<rparr> \<in> pt_entry ` set placed"
proof -
  have pl: "list_all2 (places start (concat (List.map_filter pt_write_data pts))) pts placed"
    using assign_offsets_places [OF assms(1)] by blast
  obtain k where k: "k < length pts" "p = pts ! k" using assms(2) by (auto simp: in_set_conv_nth)
  then have "places start (concat (List.map_filter pt_write_data pts)) p (placed ! k)"
      "placed ! k \<in> set placed"
    using pl by (auto simp: list_all2_conv_all_nth)
  then show ?thesis by (force simp: places_def)
qed

context reliable_backend
begin

text \<open>
  The base agreement that loading a delta needs, from a full snapshot saved by the same code: the
  saver diffs against the bytes the loader will find, whether it took them from memory or from the
  pack.
\<close>

lemma saved_base_agrees:
  assumes full: "save_rank_tensors B X cfg b dir None ts1 cx (s0, ret0) = (Inr re1, (s1, ret1))"
    and dist: "distinct (map td_name ts1)"
    and zs: "zstd_sound X (cc_compression cfg)"
    and bs: "sn_id bs = b" "rank_of (cc_rank cfg) bs = Some re1" "sn_compression bs = cc_compression cfg"
    and ret0: "\<And>r. ret0 = Some r \<Longrightarrow> rb_snap_id r \<noteq> b"
    and kept: "contents s2 (rank_pack_path dir (cc_rank cfg)) = contents s1 (rank_pack_path dir (cc_rank cfg))"
    and ret: "ret = ret1 \<or> (\<forall>r. ret = Some r \<longrightarrow> rb_snap_id r \<noteq> b)"
    and cache: "build_base_cache cfg ret (Some bs) = Some bc"
    and e: "map_of (bc_entries bc) n = Some e"
    and R: "\<And>k f. find (\<lambda>t. te_name t = k) (re_tensors re1) = Some f
      \<Longrightarrow> R b k = Inr (f, cc_compression cfg, Whole c)"
    and c: "contents s1 (rank_pack_path dir (cc_rank cfg)) = Some c"
  shows "\<exists>t \<in> set ts1. \<exists>w d q. working_copy t (cc_save_dtype cfg) = Inr (w, d, q)
    \<and> base_agrees B X s2 B' s' R b bc n w"
proof -
  let ?path = "rank_pack_path dir (cc_rank cfg)"
  let ?es = "re_tensors re1"
  let ?saved = "saved_entry B X s0 cfg None c"
  obtain processed placed where p: "process_rank B X s0 cfg ret0 None ts1 = Inr processed"
      and re1: "re1 = make_rank_entry (cc_rank cfg) ?path placed"
      and ret1: "ret1 = retain_base cfg ret0 b ts1 processed"
      and off: "\<exists>e. assign_offsets header_len processed = (placed, e)"
    using full by (elim save_rank_tensorsE) auto
  have rs: "rank_saved B X s0 cfg None ts1 ?es c" "re_pack_file re1 = Some ?path"
    using save_rank_saved [OF full dist] c by (auto simp: build_base_cache_def)
  then have names: "distinct (map te_name ?es)"
    and form: "\<And>e. e \<in> set ?es \<Longrightarrow> (\<exists>t \<in> set ts1. ?saved t e)
      \<or> (\<exists>t \<in> set ts1. \<exists>owner \<in> set ts1. \<exists>e0 \<in> set ?es. ?saved owner e0 \<and> alias_entry X t owner e0 e)"
    by (auto simp: rank_saved_def)
  have bc: "bc_pack_file bc = Some ?path" "bc_compression bc = cc_compression cfg"
      "bc_entries bc = collect_map (map (\<lambda>t. (te_name t, t)) ?es)"
      "bc_raw bc = (case ret of Some r \<Rightarrow> if rb_snap_id r = b then Some (rb_tensors r) else None | None \<Rightarrow> None)"
    using cache bs rs(2) by (auto simp: build_base_cache_def rank_of_def split: option.splits)
  have fe: "find (\<lambda>t. te_name t = n) ?es = Some e" using e find_collect [OF names] bc(3) by simp
  then have en: "e \<in> set ?es" "te_name e = n" by (auto dest: find_Some_iff_mem)
  have load: "load_tensor_raw B' X s' R f None (cc_compression cfg) (Whole c) = Inr w \<and> te_storage f \<noteq> Alias
      \<and> te_hash_raw f = hash_hex X w"
    if f: "?saved t f" and w: "working_copy t (cc_save_dtype cfg) = Inr (w, d, q)" for t f w d q
  proof -
    obtain z where z: "te_storage f = Full" "te_hash_raw f = hash_hex X w" "te_hash_compressed f = Some (hash_hex X z)"
        "pack_holds c f z" "compress (x_zstd X) w (cc_compression cfg) = Inr z"
      using f w by (rule saved_full_entry)
    have "decompress (x_zstd X) z (cc_compression cfg) = Inr w"
      using zs z(5) by (auto simp: zstd_sound_def intro: decompress_compressed)
    with z show ?thesis by (simp add: load_full_entry pack_holds_extract)
  qed
  from form [OF en(1)] show ?thesis
  proof (elim disjE bexE conjE)
    fix t assume t: "t \<in> set ts1" "?saved t e"
    then obtain w d q where w: "working_copy t (cc_save_dtype cfg) = Inr (w, d, q)"
      by (auto simp: saved_entry_def stored_form_def elim!: process_tensor_working)
    obtain z where z: "te_storage e = Full" "te_hash_raw e = hash_hex X w" "pack_holds c e z"
        "compress (x_zstd X) w (cc_compression cfg) = Inr z"
        "te_original_dtype e = (if d \<noteq> td_dtype t then Some (td_dtype t) else None)"
      using t(2) w by (rule saved_full_entry)
    have "resolve_base_entry R b n = Inr (e, cc_compression cfg, Whole c)"
      using R [OF fe] z(1) by (simp add: resolve_base_entry_def numeral_eq_Suc)
    moreover have "bb = w" if bb: "base_bytes B X s2 bc e = Inr (Some bb)" for bb
    proof (cases "case bc_raw bc of None \<Rightarrow> None | Some r \<Rightarrow> map_of r (te_name e)")
      case None
      have "bind_res (read_compressed B s2 bc e) (\<lambda>r. case r of
              Some z \<Rightarrow> bind_res (decompress (x_zstd X) z (cc_compression cfg)) (\<lambda>raw. Inr (Some raw))
            | None \<Rightarrow> Inr None) = Inr (Some bb)"
        using bb None z(1) bc(2) by (simp add: base_bytes_def)
      then obtain z' where z': "read_compressed B s2 bc e = Inr (Some z')"
          "decompress (x_zstd X) z' (cc_compression cfg) = Inr bb"
        by (auto simp: effect_simps split: option.splits)
      then have "b_get_range B s2 ?path (te_offset e) (te_compressed_size e) = Inr z'"
        using bc(1) by (auto simp: read_compressed_def effect_simps split: if_splits)
      then have "z' = z" using range_sound kept c z(3) by (fastforce simp: pack_holds_def)
      moreover have "decompress (x_zstd X) z (cc_compression cfg) = Inr w"
        using zs z(4) by (auto simp: zstd_sound_def intro: decompress_compressed)
      ultimately show ?thesis using z'(2) by simp
    next
      case (Some data)
      then obtain r where r: "ret1 = Some r" "rb_snap_id r = b" "map_of (rb_tensors r) n = Some data"
        using bc(4) en(2) ret by (auto split: option.splits if_splits)
      have bbd: "bb = data" using bb Some z(1) by (simp add: base_bytes_def)
      have keep: "cc_keep_base_in_memory cfg" using r ret0 ret1 by (auto simp: retain_base_def split: if_splits)
      obtain u q' where u: "u \<in> set ts1" "td_name u = n" "td_data u = data"
          and q': "q' \<in> set processed" "te_name (pt_entry q') = n" "te_original_dtype (pt_entry q') = None"
        using r ret1 keep by (auto simp: retain_base_def collect_map_def Let_def dest!: map_of_SomeD)
      have "td_name t = n" using saved_entry_name [OF t(2)] en(2) by simp
      then have "u = t" using dist t(1) u(1,2) by (auto simp: distinct_map inj_on_def)
      obtain fin where fin: "assign_offsets header_len processed = (placed, fin)" using off by blast
      obtain off where "(pt_entry q')\<lparr>te_offset := off\<rparr> \<in> set ?es"
        using fin placed_entry [OF _ q'(1)] by (fastforce simp: re1 make_rank_entry_def Let_def)
      moreover have "f = e" if "f \<in> set ?es" "te_name f = te_name e" for f
        using names that en(1) by (auto simp: distinct_map inj_on_def)
      ultimately have "te_original_dtype e = None" using q' en(2) by force
      with z(5) have "d = td_dtype t" by (auto split: if_splits)
      with w have "w = td_data t" using working_copy_plain by blast
      with \<open>u = t\<close> u(3) bbd show ?thesis by simp
    qed
    ultimately show ?thesis using t(1) w load [OF t(2) w] e
      by (intro bexI [of _ t] exI [of _ w] exI [of _ d] exI [of _ q])
        (auto simp: base_agrees_def split: sum.splits option.splits)
  next
    fix t owner e0
    assume a: "owner \<in> set ts1" "e0 \<in> set ?es" "?saved owner e0" "alias_entry X t owner e0 e"
    then obtain w d q where w: "working_copy owner (cc_save_dtype cfg) = Inr (w, d, q)"
      by (auto simp: saved_entry_def stored_form_def elim!: process_tensor_working)
    have f0: "find (\<lambda>t. te_name t = te_name e0) ?es = Some e0" using names a(2) by (rule find_distinct)
    have "resolve_base_entry R b n = Inr (e0, cc_compression cfg, Whole c)"
      using R [OF fe] R [OF f0] a(4) load [OF a(3) w]
      by (simp add: resolve_base_entry_def numeral_eq_Suc alias_entry_simps)
    then show ?thesis using a(1) w load [OF a(3) w] e a(4)
      by (intro bexI [of _ owner] exI [of _ w] exI [of _ d] exI [of _ q])
        (auto simp: base_agrees_def alias_entry_simps base_bytes_def split: sum.splits option.splits)
  qed
qed

end

section \<open>Saves and loads of a rank\<close>

text \<open>No two of these buffers share a hash.\<close>

definition hashes_apart :: "ext \<Rightarrow> bytes set \<Rightarrow> bool" where
  "hashes_apart X bs \<longleftrightarrow> inj_on (hash_hex X) bs"

definition stored_bytes :: "dtype_policy \<Rightarrow> tensor_data \<Rightarrow> bytes" where
  "stored_bytes policy t = (case working_copy t policy of Inr (w, _, _) \<Rightarrow> w | Inl _ \<Rightarrow> [])"

text \<open>The snapshot a save is recorded as, in the manifest the load reads.\<close>

definition recorded :: "'r coordinator_config \<Rightarrow> manifest \<Rightarrow> uuid \<Rightarrow> uuid option \<Rightarrow> rank_entry \<Rightarrow> bool" where
  "recorded cfg m i base re \<longleftrightarrow> (\<exists>sn. find_snapshot m i = Some sn \<and> sn_base_snapshot_id sn = base
     \<and> sn_compression sn = cc_compression cfg \<and> rank_of (cc_rank cfg) sn = Some re)"

context reliable_backend
begin

lemma save_rank_other:
  assumes "save_rank_tensors B X cfg i dir base ts cx (s, ret) = (Inr re, (s', ret'))" and "distinct (map td_name ts)"
    and "p \<noteq> rank_pack_path dir (cc_rank cfg)"
  shows "contents s' p = contents s p"
  using save_rank_saved [OF assms(1,2)] assms(3) by metis

lemma full_loads:
  assumes full: "save_rank_tensors B X cfg i dir None ts cx (s, ret) = (Inr re, (s', ret'))"
    and dist: "distinct (map td_name ts)" and zs: "zstd_sound X (cc_compression cfg)"
    and rec: "recorded cfg m i None re"
    and kept: "contents t (rank_pack_path dir (cc_rank cfg)) = contents s' (rank_pack_path dir (cc_rank cfg))"
  shows "\<exists>out. load_in_pool B X t (cc_rank cfg) m i = Inr out \<and> gives_back (cc_save_dtype cfg) X ts out"
proof -
  obtain c where c: "contents s' (rank_pack_path dir (cc_rank cfg)) = Some c"
      "re_pack_file re = Some (rank_pack_path dir (cc_rank cfg))"
      "rank_saved B X s cfg None ts (re_tensors re) c"
    using save_rank_saved [OF full dist] by (auto simp: build_base_cache_def)
  obtain sn where sn: "find_snapshot m i = Some sn" "sn_base_snapshot_id sn = None"
      "sn_compression sn = cc_compression cfg" "rank_of (cc_rank cfg) sn = Some re"
    using rec by (auto simp: recorded_def)
  have get: "b_get B t (rank_pack_path dir (cc_rank cfg)) = Inr c" using c(1) kept by (simp add: get_complete)
  have pre: "prefetch_base B t (cc_rank cfg) m sn re = Inr None" by (simp add: prefetch_base_def sn(2) split: bool.splits)
  show ?thesis
  proof (rule rank_saved_loads [OF c(3) dist sn(1,4) c(2) get pre])
    fix u e assume u: "u \<in> set ts" "saved_entry B X s cfg None c u e"
    then obtain w d q where "working_copy u (cc_save_dtype cfg) = Inr (w, d, q)"
      by (auto simp: saved_entry_def stored_form_def elim!: process_tensor_working)
    from saved_entry_loads [OF u(2) this zs, where raw = w]
    show "load_tensor B X t (load_resolver B t (cc_rank cfg) m None) e (sn_base_snapshot_id sn)
        (sn_compression sn) (Whole c) = restored_tensor (cc_save_dtype cfg) u"
      unfolding sn(3) by (simp add: pack_holds_extract)
  qed
qed

lemma delta_loads:
  assumes full: "save_rank_tensors B X cfg b dir1 None ts1 cx1 (s0, ret0) = (Inr re1, (s1, ret1))"
    and delta: "save_rank_tensors B X cfg i dir2 (Some bs) ts2 cx2 (s2, ret) = (Inr re2, (s3, ret2))"
    and dist: "distinct (map td_name ts1)" "distinct (map td_name ts2)"
    and zs: "zstd_sound X (cc_compression cfg)"
    and bs: "sn_id bs = b" "rank_of (cc_rank cfg) bs = Some re1" "sn_compression bs = cc_compression cfg"
    and rec: "recorded cfg m b None re1" "recorded cfg m i (Some b) re2"
    and ret0: "\<And>r. ret0 = Some r \<Longrightarrow> rb_snap_id r \<noteq> b"
    and ret: "ret = ret1 \<or> (\<forall>r. ret = Some r \<longrightarrow> rb_snap_id r \<noteq> b)"
    and kept: "contents s2 (rank_pack_path dir1 (cc_rank cfg)) = contents s1 (rank_pack_path dir1 (cc_rank cfg))"
    and now: "contents s (rank_pack_path dir1 (cc_rank cfg)) = contents s1 (rank_pack_path dir1 (cc_rank cfg))"
      "contents s (rank_pack_path dir2 (cc_rank cfg)) = contents s3 (rank_pack_path dir2 (cc_rank cfg))"
    and coll: "hashes_apart X (stored_bytes (cc_save_dtype cfg) ` (set ts1 \<union> set ts2))"
  shows "\<exists>out. load_in_pool B X s (cc_rank cfg) m i = Inr out \<and> gives_back (cc_save_dtype cfg) X ts2 out"
proof -
  let ?rank = "cc_rank cfg"
  let ?p1 = "rank_pack_path dir1 ?rank" and ?p2 = "rank_pack_path dir2 ?rank"
  obtain c1 where c1: "contents s1 ?p1 = Some c1" "re_pack_file re1 = Some ?p1"
      "rank_saved B X s0 cfg None ts1 (re_tensors re1) c1"
    using save_rank_saved [OF full dist(1)] by (auto simp: build_base_cache_def)
  then have names1: "distinct (map te_name (re_tensors re1))" by (simp add: rank_saved_def)
  obtain c2 where c2: "contents s3 ?p2 = Some c2" "re_pack_file re2 = Some ?p2"
      "rank_saved B X s2 cfg (build_base_cache cfg ret (Some bs)) ts2 (re_tensors re2) c2"
    using save_rank_saved [OF delta dist(2)] by auto
  obtain sb where sb: "find_snapshot m b = Some sb" "sn_compression sb = cc_compression cfg"
      "rank_of ?rank sb = Some re1"
    using rec(1) by (auto simp: recorded_def)
  obtain sn where sn: "find_snapshot m i = Some sn" "sn_base_snapshot_id sn = Some b"
      "sn_compression sn = cc_compression cfg" "rank_of ?rank sn = Some re2"
    using rec(2) by (auto simp: recorded_def)
  have get2: "b_get B s ?p2 = Inr c2" using c2(1) now(2) by (simp add: get_complete)
  have get1: "b_get B s ?p1 = Inr c1" using c1(1) now(1) by (simp add: get_complete)
  obtain ctx where pre: "prefetch_base B s ?rank m sn re2 = Inr ctx"
    using sn(2) sb c1(2) get1 by (cases "list_ex (\<lambda>t. te_storage t \<noteq> Full) (re_tensors re2)")
      (auto simp: prefetch_base_def)
  let ?R = "load_resolver B s ?rank m ctx"
  have R: "?R b k = Inr (f, cc_compression cfg, Whole c1)"
    if "find (\<lambda>t. te_name t = k) (re_tensors re1) = Some f" for k f
    using load_resolver_base [OF sb(1,3) c1(2) get1 names1 pre sn(2) that] sb(2) by simp
  show ?thesis
  proof (rule rank_saved_loads [OF c2(3) dist(2) sn(1,4) c2(2) get2 pre])
    fix u e assume u: "u \<in> set ts2" "saved_entry B X s2 cfg (build_base_cache cfg ret (Some bs)) c2 u e"
    then obtain w d q where w: "working_copy u (cc_save_dtype cfg) = Inr (w, d, q)"
      by (auto simp: saved_entry_def stored_form_def elim!: process_tensor_working)
    have "\<exists>raw. (hash_hex X raw = hash_hex X w \<longrightarrow> raw = w)
        \<and> (\<forall>bc. build_base_cache cfg ret (Some bs) = Some bc \<longrightarrow> base_agrees B X s2 B s ?R b bc (td_name u) raw)"
    proof (cases "\<exists>bc e1. build_base_cache cfg ret (Some bs) = Some bc \<and> map_of (bc_entries bc) (td_name u) = Some e1")
      case False
      then have "base_agrees B X s2 B s ?R b bc (td_name u) w"
        if "build_base_cache cfg ret (Some bs) = Some bc" for bc
        using that by (auto simp: base_agrees_def split: option.splits)
      then show ?thesis by blast
    next
      case True
      then obtain bc e1 where bc: "build_base_cache cfg ret (Some bs) = Some bc" "map_of (bc_entries bc) (td_name u) = Some e1"
        by blast
      obtain t w1 d1 q1 where t: "t \<in> set ts1" "working_copy t (cc_save_dtype cfg) = Inr (w1, d1, q1)"
          "base_agrees B X s2 B s ?R b bc (td_name u) w1"
        using saved_base_agrees [where R = ?R and B' = B and s' = s, OF full dist(1) zs bs ret0 kept ret bc R c1(1)]
        by blast
      have "stored_bytes (cc_save_dtype cfg) t = w1" "stored_bytes (cc_save_dtype cfg) u = w"
        using t(2) w by (simp_all add: stored_bytes_def)
      then have "hash_hex X w1 = hash_hex X w \<longrightarrow> w1 = w"
        using coll t(1) u(1) unfolding hashes_apart_def inj_on_def by blast
      with t(3) bc(1) show ?thesis by auto
    qed
    then obtain raw where raw: "hash_hex X raw = hash_hex X w \<Longrightarrow> raw = w"
        "\<And>bc. build_base_cache cfg ret (Some bs) = Some bc \<Longrightarrow> base_agrees B X s2 B s ?R b bc (td_name u) raw"
      by blast
    show "load_tensor B X s ?R e (sn_base_snapshot_id sn) (sn_compression sn) (Whole c2)
        = restored_tensor (cc_save_dtype cfg) u"
      unfolding sn(2,3) using raw
      by (intro saved_entry_loads [OF u(2) w zs, where raw = raw and i = b]) (simp_all add: pack_holds_extract)
  qed
qed

end

lemma gives_back_exact:
  assumes "gives_back [] X ts out" and "hashes_apart X (td_data ` set ts)" and "t \<in> set ts"
  shows "map_of out (td_name t) = Some (td_data t)"
proof -
  obtain owner where "owner \<in> set ts" "dedup_key X owner = dedup_key X t" "map_of out (td_name t) = Some (td_data owner)"
    using assms(1,3) by (auto simp: gives_back_def)
  with assms(2,3) show ?thesis by (auto simp: dedup_key_def hashes_apart_def inj_on_def)
qed

text \<open>
  C6. A full checkpoint comes back: once \<^verbatim>\<open>save_rank_tensors\<close> reports success and the snapshot is in
  the manifest, loading it gives every tensor that was saved, under its name, tied weights
  included, through the cast the policy asked for; with no policy, byte for byte.
\<close>

theorem full_save_loads:
  assumes "save_rank_tensors (local_backend fsync ps) X cfg i dir None ts cx (s, ret) = (Inr re, (s', ret'))"
    and "distinct (map td_name ts)" and "zstd_sound X (cc_compression cfg)"
    and "recorded cfg m i None re" and "hashes_apart X (td_data ` set ts)"
  shows "\<exists>out. load_in_pool (local_backend fsync ps) X s' (cc_rank cfg) m i = Inr out
    \<and> gives_back (cc_save_dtype cfg) X ts out
    \<and> (cc_save_dtype cfg = [] \<longrightarrow> (\<forall>t \<in> set ts. map_of out (td_name t) = Some (td_data t)))"
  using local_disk.full_loads [OF assms(1-4) refl] gives_back_exact assms(5) by metis

text \<open>
  C5. A delta checkpoint comes back too: when it was saved against a full snapshot that the same
  code saved and whose pack is still there, loading it gives the tensors it was given, whether
  each was skipped, diffed against the bytes kept in memory or on disk, stored in full or found to
  be a copy of another; with no cast, byte for byte.
\<close>

theorem delta_save_loads:
  assumes "save_rank_tensors (local_backend fsync ps) X cfg b dir1 None ts1 cx1 (s0, ret0) = (Inr re1, (s1, ret1))"
    and "save_rank_tensors (local_backend fsync ps) X cfg i dir2 (Some bs) ts2 cx2 (s2, ret1) = (Inr re2, (s3, ret2))"
    and "distinct (map td_name ts1)" and "distinct (map td_name ts2)"
    and "zstd_sound X (cc_compression cfg)"
    and "sn_id bs = b" and "rank_of (cc_rank cfg) bs = Some re1" and "sn_compression bs = cc_compression cfg"
    and "recorded cfg m b None re1" and "recorded cfg m i (Some b) re2"
    and "\<And>r. ret0 = Some r \<Longrightarrow> rb_snap_id r \<noteq> b"
    and "fs_contents s2 (rank_pack_path dir1 (cc_rank cfg)) = fs_contents s1 (rank_pack_path dir1 (cc_rank cfg))"
    and "rank_pack_path dir1 (cc_rank cfg) \<noteq> rank_pack_path dir2 (cc_rank cfg)"
    and "hashes_apart X (stored_bytes (cc_save_dtype cfg) ` (set ts1 \<union> set ts2))"
  shows "\<exists>out. load_in_pool (local_backend fsync ps) X s3 (cc_rank cfg) m i = Inr out
    \<and> gives_back (cc_save_dtype cfg) X ts2 out
    \<and> (cc_save_dtype cfg = [] \<longrightarrow> (\<forall>t \<in> set ts2. map_of out (td_name t) = Some (td_data t)))"
proof -
  obtain out where out: "load_in_pool (local_backend fsync ps) X s3 (cc_rank cfg) m i = Inr out"
      "gives_back (cc_save_dtype cfg) X ts2 out"
    using local_disk.delta_loads [OF assms(1-11) disjI1 [OF refl] assms(12) _ refl assms(14)]
      local_disk.save_rank_other [OF assms(2,4,13)] assms(12) by metis
  have "map_of out (td_name t) = Some (td_data t)" if "cc_save_dtype cfg = []" "t \<in> set ts2" for t
  proof (rule gives_back_exact [OF _ _ that(2)])
    show "gives_back [] X ts2 out" using out(2) that(1) by simp
    have "stored_bytes [] = td_data" by (auto simp: stored_bytes_def working_copy_def)
    then show "hashes_apart X (td_data ` set ts2)"
      using assms(14) that(1) by (auto simp: hashes_apart_def intro: inj_on_subset)
  qed
  with out show ?thesis by blast
qed

section \<open>Two concrete saves\<close>

text \<open>A full snapshot with one tensor; then a delta in which it has not changed and another is new.\<close>

definition run_config :: "local_fs coordinator_config" where
  "run_config = default_config"

definition run_ts1 :: "tensor_data list" where
  "run_ts1 = [sample_tensor]"

definition run_ts2 :: "tensor_data list" where
  "run_ts2 = [sample_tensor, \<lparr>td_name = ''b'', td_shape = [1], td_dtype = ''uint8'', td_data = [9, 9]\<rparr>]"

definition run_cx :: snapshot_context where
  "run_cx = \<lparr>cx_step = 1, cx_created_at = 0, cx_metadata = []\<rparr>"

definition run_snapshot :: "uuid \<Rightarrow> uuid option \<Rightarrow> rank_entry \<Rightarrow> snapshot" where
  "run_snapshot i base re = \<lparr>sn_id = i, sn_step = i, sn_created_at = 0, sn_ranks = [(0, re)],
     sn_base_snapshot_id = base, sn_metadata = [], sn_compression = Zstd 3, sn_finalized = True, sn_pinned = False\<rparr>"

lemma run_config_simps [simp]:
  "cc_save_dtype run_config = []" "cc_compression run_config = Zstd 3" "cc_rank run_config = 0"
  by (simp_all add: run_config_def default_config_def)

lemma run_paths [simp]:
  "rank_pack_path (snapshot_dir codec_ext 1) 0 = ''snapshots/a/rank_0.pack''"
  "rank_pack_path (snapshot_dir codec_ext (Suc 0)) 0 = ''snapshots/a/rank_0.pack''"
  "rank_pack_path (snapshot_dir codec_ext 2) 0 = ''snapshots/aa/rank_0.pack''"
  by (simp_all add: rank_pack_path_def snapshot_dir_def codec_ext_def nat_str.simps dec_digit_def numeral_2_eq_2)

lemma small_not_aliased: "list_all (\<lambda>t. length (td_data t) < tensor_delta_min_size) ts \<Longrightarrow> dedup_plan X ts = map (\<lambda>_. None) ts"
proof -
  have "list_all (\<lambda>t. length (td_data t) < tensor_delta_min_size) ts \<Longrightarrow> dedup_from X seen ts = map (\<lambda>_. None) ts" for seen
    by (induction ts) (auto simp: dedup_from_Cons dedup_eligible_def)
  then show "list_all (\<lambda>t. length (td_data t) < tensor_delta_min_size) ts \<Longrightarrow> dedup_plan X ts = map (\<lambda>_. None) ts"
    by (simp add: dedup_plan_def)
qed

lemma process_small:
  assumes "list_all (\<lambda>t. length (td_data t) < tensor_delta_min_size) ts"
    and "process_tensors_parallel B X s ts (build_base_cache cfg ret base) (cc_compression cfg)
      (cc_delta_max_ratio cfg) (cc_save_dtype cfg) = Inr ps"
  shows "process_rank B X s cfg ret base ts = Inr ps"
proof -
  have "filter (\<lambda>(t, a). a = None) (zip us (map (\<lambda>_. None :: string option) us))
      = zip us (map (\<lambda>_. None) us)" for us :: "tensor_data list"
    by (induction us) auto
  moreover have "List.map_filter (\<lambda>(t, a). case a of None \<Rightarrow> None | Some owner \<Rightarrow> f t owner) (zip us (map (\<lambda>_. None) us)) = []"
    for us :: "tensor_data list" and f :: "tensor_data \<Rightarrow> string \<Rightarrow> processed_tensor option"
    by (induction us) (auto simp: map_filter_Cons List.map_filter_simps)
  ultimately show ?thesis
    using assms(2) small_not_aliased [OF assms(1)]
    by (simp add: process_rank_def unique_tensors_def alias_entries_def Let_def)
qed

lemma save_runs:
  assumes "process_rank (local_backend f ps) codec_ext s cfg ret base ts = Inr processed"
    and "\<And>parts. fst (write_parts f ps (rank_pack_path dir (cc_rank cfg)) parts s) = Inr ()"
  shows "\<exists>re s' ret'. save_rank_tensors (local_backend f ps) codec_ext cfg i dir base ts cx (s, ret) = (Inr re, (s', ret'))"
proof -
  obtain placed e where "assign_offsets header_len processed = (placed, e)" by fastforce
  moreover obtain s' where "write_parts f ps (rank_pack_path dir (cc_rank cfg)) (pack_parts placed e [123, 125]) s = (Inr (), s')"
    using assms(2) by (metis prod.collapse)
  ultimately show ?thesis
    using assms(1)
    by (simp add: save_rank_tensors_def Let_def serialization_def codec_ext_def one_json_def local_backend_def)
qed

lemma put_first: "fst (write_parts False 0 ''snapshots/a/rank_0.pack'' parts empty_fs) = Inr ()"
  by (simp add: write_parts_def Let_def missing_dirs.simps existing_ancestor_def fs_is_dir_def
      fs_is_file_def empty_fs_def parent_path_def)

lemma put_second:
  assumes "write_parts False 0 ''snapshots/a/rank_0.pack'' parts empty_fs = (Inr u, s1)"
  shows "fst (write_parts False 0 ''snapshots/aa/rank_0.pack'' parts' s1) = Inr ()"
proof -
  have "fs_dirs s1 = [''snapshots'', ''snapshots/a''] \<and> map fst (fs_files s1) = [''snapshots/a/rank_0.pack'']"
    using assms by (auto simp: write_parts_def Let_def missing_dirs.simps existing_ancestor_def fs_is_dir_def
      fs_is_file_def empty_fs_def parent_path_def rename_over_def)
  then obtain d where "fs_dirs s1 = [''snapshots'', ''snapshots/a'']" "fs_files s1 = [(''snapshots/a/rank_0.pack'', d)]"
    by (cases "fs_files s1") auto
  then show ?thesis
    by (simp add: write_parts_def Let_def missing_dirs.simps existing_ancestor_def fs_is_dir_def
      fs_is_file_def parent_path_def)
qed

lemma codec_sound: "zstd_sound codec_ext algo"
  by (simp add: zstd_sound_def codec_ext_def stored_zstd_sound)

lemma codec_compresses: "\<exists>z. compress (x_zstd codec_ext) data algo = Inr z"
  using codec_sound decompress_of_compress unfolding zstd_sound_def by blast

lemma full_entry_runs:
  assumes "cache = None \<or> (\<exists>c. cache = Some c \<and> map_of (bc_entries c) (td_name t) = None)"
  shows "\<exists>p. process_tensor B codec_ext s t cache (Zstd 3) ratio [] = Inr p"
proof -
  obtain z where "compress (x_zstd codec_ext) (td_data t) (Zstd 3) = Inr z" using codec_compresses by blast
  then show ?thesis using assms
    by (auto simp: process_tensor_def working_copy_def make_full_entry_def simp del: compress.simps)
qed

lemma run_full:
  "\<exists>re s1 ret1. save_rank_tensors (local_backend False 0) codec_ext run_config 1 (snapshot_dir codec_ext 1)
     None run_ts1 run_cx (empty_fs, None) = (Inr re, (s1, ret1))"
proof -
  let ?B = "local_backend False 0"
  obtain p where "process_tensor ?B codec_ext empty_fs sample_tensor None (Zstd 3) (cc_delta_max_ratio run_config) [] = Inr p"
    by (metis full_entry_runs)
  then have "process_rank ?B codec_ext empty_fs run_config None None run_ts1 = Inr [p]"
    by (intro process_small)
      (simp_all add: run_ts1_def sample_tensor_def tensor_delta_min_size_def process_tensors_parallel_def build_base_cache_def)
  from save_runs [OF this, of "snapshot_dir codec_ext 1"] show ?thesis
    using put_first by simp
qed

definition run_manifest :: "snapshot list \<Rightarrow> manifest" where
  "run_manifest sns = default_manifest\<lparr>mf_snapshots := sns\<rparr>"

lemma run_recorded:
  "recorded run_config (run_manifest (run_snapshot i base re # sns)) i base re"
  "i \<noteq> j \<Longrightarrow> recorded run_config (run_manifest [run_snapshot j base' re', run_snapshot i base re]) i base re"
  by (simp_all add: recorded_def run_manifest_def find_snapshot_def run_snapshot_def rank_of_def)

lemma run_hashes: "hashes_apart codec_ext (td_data ` set run_ts2)"
proof -
  have "hash_hex codec_ext [1, 2, 3] \<noteq> hash_hex codec_ext [9, 9]"
    unfolding hash_hex_eq_iff by (simp add: codec_ext_def)
  then show ?thesis by (auto simp: hashes_apart_def run_ts2_def sample_tensor_def inj_on_def)
qed

lemma put_after:
  assumes "save_rank_tensors (local_backend False 0) codec_ext run_config 1 (snapshot_dir codec_ext 1)
    None run_ts1 run_cx (empty_fs, None) = (Inr re, (s1, ret1))"
  shows "fst (write_parts False 0 ''snapshots/aa/rank_0.pack'' parts s1) = Inr ()"
proof -
  obtain parts' where "b_put_parts (local_backend False 0) (rank_pack_path (snapshot_dir codec_ext 1) 0) parts' empty_fs = (Inr (), s1)"
    using assms by (elim save_rank_tensorsE) simp
  then show ?thesis by (intro put_second) (simp add: local_backend_def)
qed

text \<open>The entry of a full snapshot of one tensor.\<close>

lemma saved_single:
  assumes "rank_saved B X s cfg None [t] es c"
  obtains e where "map_of (collect_map (map (\<lambda>t. (te_name t, t)) es)) (td_name t) = Some e"
    "\<And>w d q. working_copy t (cc_save_dtype cfg) = Inr (w, d, q) \<Longrightarrow> te_hash_raw e = hash_hex X w"
proof -
  have names: "distinct (map te_name es)" "te_name ` set es = {td_name t}"
    using assms by (simp_all add: rank_saved_def)
  then obtain e where e: "e \<in> set es" "te_name e = td_name t" by (metis imageE insertI1)
  have only: "f = e" if f: "f \<in> set es" for f
  proof -
    have "te_name f \<in> {td_name t}" unfolding names(2) [symmetric] using f by (rule imageI)
    then show ?thesis using names(1) e f by (simp add: distinct_map inj_on_def)
  qed
  have "saved_entry B X s cfg None c t e"
  proof -
    have "saved_entry B X s cfg None c t e \<or> (\<exists>e0 \<in> set es. saved_entry B X s cfg None c t e0 \<and> alias_entry X t t e0 e)"
      using assms e(1) by (auto simp: rank_saved_def)
    then show ?thesis
    proof
      assume "\<exists>e0 \<in> set es. saved_entry B X s cfg None c t e0 \<and> alias_entry X t t e0 e"
      then obtain e0 where "e0 \<in> set es" "saved_entry B X s cfg None c t e0" by blast
      with only [of e0] show ?thesis by simp
    qed
  qed
  moreover have "map_of (collect_map (map (\<lambda>t. (te_name t, t)) es)) (td_name t) = Some e"
    using map_of_collect_pairs [OF names(1) e(1), of "\<lambda>t. t"] e(2) by simp
  ultimately show thesis using that by (blast elim: saved_full_entry)
qed

theorem full_save_loads_witness:
  "\<exists>re s' ret' out. save_rank_tensors (local_backend False 0) codec_ext run_config 1 (snapshot_dir codec_ext 1)
       None run_ts1 run_cx (empty_fs, None) = (Inr re, (s', ret'))
     \<and> load_in_pool (local_backend False 0) codec_ext s' 0 (run_manifest [run_snapshot 1 None re]) 1 = Inr out
     \<and> map_of out ''w'' = Some [1, 2, 3]"
proof -
  obtain re s' ret' where save: "save_rank_tensors (local_backend False 0) codec_ext run_config 1
      (snapshot_dir codec_ext 1) None run_ts1 run_cx (empty_fs, None) = (Inr re, (s', ret'))"
    using run_full by blast
  have "distinct (map td_name run_ts1)" "hashes_apart codec_ext (td_data ` set run_ts1)"
    by (simp_all add: run_ts1_def hashes_apart_def)
  from full_save_loads [OF save this(1) codec_sound run_recorded(1) this(2)] save
  show ?thesis by (auto simp: run_ts1_def sample_tensor_def)
qed

theorem delta_save_loads_witness:
  "\<exists>re1 re2 s1 ret1 s2 ret2 out.
     save_rank_tensors (local_backend False 0) codec_ext run_config 1 (snapshot_dir codec_ext 1)
       None run_ts1 run_cx (empty_fs, None) = (Inr re1, (s1, ret1))
     \<and> save_rank_tensors (local_backend False 0) codec_ext run_config 2 (snapshot_dir codec_ext 2)
       (Some (run_snapshot 1 None re1)) run_ts2 run_cx (s1, ret1) = (Inr re2, (s2, ret2))
     \<and> load_in_pool (local_backend False 0) codec_ext s2 0
         (run_manifest [run_snapshot 1 None re1, run_snapshot 2 (Some 1) re2]) 2 = Inr out
     \<and> map_of out ''w'' = Some [1, 2, 3] \<and> map_of out ''b'' = Some [9, 9]"
proof -
  let ?B = "local_backend False 0" and ?d1 = "snapshot_dir codec_ext 1" and ?d2 = "snapshot_dir codec_ext 2"
  obtain re1 s1 ret1 where full: "save_rank_tensors ?B codec_ext run_config 1 ?d1 None run_ts1 run_cx
      (empty_fs, None) = (Inr re1, (s1, ret1))"
    using run_full by blast
  have names: "distinct (map td_name run_ts1)" "distinct (map td_name run_ts2)"
    by (simp_all add: run_ts1_def run_ts2_def sample_tensor_def)
  let ?bs = "run_snapshot 1 None re1"
  obtain c where saved: "rank_saved ?B codec_ext empty_fs run_config None run_ts1 (re_tensors re1) c"
    using local_store.save_rank_saved [OF full names(1)] by (auto simp: build_base_cache_def)
  obtain bc where bc: "build_base_cache run_config ret1 (Some ?bs) = Some bc"
      "bc_entries bc = collect_map (map (\<lambda>t. (te_name t, t)) (re_tensors re1))"
    by (simp add: build_base_cache_def run_snapshot_def)
  have other: "map_of (bc_entries bc) ''b'' = None"
  proof -
    have "fst ` set (bc_entries bc) = te_name ` set (re_tensors re1)"
      by (simp add: bc(2) collect_map_def image_image)
    also have "\<dots> = {''w''}" using saved by (simp add: rank_saved_def run_ts1_def sample_tensor_def)
    finally show ?thesis by (simp add: map_of_eq_None_iff)
  qed
  obtain e where e: "map_of (bc_entries bc) ''w'' = Some e" "te_hash_raw e = hash_hex codec_ext [1, 2, 3]"
    using saved_single [OF saved [unfolded run_ts1_def]] bc(2)
    by (auto simp: working_copy_def sample_tensor_def)
  have skip: "\<exists>p. process_tensor ?B codec_ext s1 sample_tensor (Some bc) (Zstd 3) r [] = Inr p" for r
    using e by (simp add: process_tensor_def working_copy_def sample_tensor_def)
  obtain p q where "process_tensor ?B codec_ext s1 sample_tensor (Some bc) (Zstd 3) (cc_delta_max_ratio run_config) [] = Inr p"
      "process_tensor ?B codec_ext s1 \<lparr>td_name = ''b'', td_shape = [1], td_dtype = ''uint8'', td_data = [9, 9]\<rparr>
        (Some bc) (Zstd 3) (cc_delta_max_ratio run_config) [] = Inr q"
    using skip full_entry_runs [of "Some bc" "\<lparr>td_name = ''b'', td_shape = [1], td_dtype = ''uint8'', td_data = [9, 9]\<rparr>"]
      other by (metis option.inject tensor_data.select_convs(1))
  then have "process_rank ?B codec_ext s1 run_config ret1 (Some ?bs) run_ts2 = Inr [p, q]"
    by (intro process_small)
      (simp_all add: run_ts2_def sample_tensor_def tensor_delta_min_size_def process_tensors_parallel_def bc(1) [simplified])
  from save_runs [OF this, of ?d2] obtain re2 s2 ret2 where
    delta: "save_rank_tensors ?B codec_ext run_config 2 ?d2 (Some ?bs) run_ts2 run_cx (s1, ret1) = (Inr re2, (s2, ret2))"
    using put_after [OF full] by fastforce
  let ?m = "run_manifest [?bs, run_snapshot 2 (Some 1) re2]"
  have "\<exists>out. load_in_pool ?B codec_ext s2 (cc_rank run_config) ?m 2 = Inr out
      \<and> gives_back (cc_save_dtype run_config) codec_ext run_ts2 out
      \<and> (cc_save_dtype run_config = [] \<longrightarrow> (\<forall>t \<in> set run_ts2. map_of out (td_name t) = Some (td_data t)))"
  proof (rule delta_save_loads [OF full delta names codec_sound])
    show "hashes_apart codec_ext (stored_bytes (cc_save_dtype run_config) ` (set run_ts1 \<union> set run_ts2))"
    proof -
      have "stored_bytes [] = td_data" by (auto simp: stored_bytes_def working_copy_def)
      moreover have "set run_ts1 \<union> set run_ts2 = set run_ts2" by (auto simp: run_ts1_def run_ts2_def)
      ultimately show ?thesis using run_hashes by simp
    qed
    show "recorded run_config ?m 1 None re1" by (rule run_recorded(1))
    show "recorded run_config ?m 2 (Some 1) re2" by (rule run_recorded(2)) simp
  qed (simp_all add: run_snapshot_def rank_of_def)
  then show ?thesis using full delta by (auto simp: run_ts2_def sample_tensor_def)
qed

end
