(* ===== verification/Retention.thy ===== *)
theory Retention
  imports ManifestIO "HOL-Library.Multiset"
begin

text \<open>
  Pins and retention of \<^verbatim>\<open>src/src/coordinator/mod.rs\<close>: which snapshots are kept, which are evicted,
  and what a listing says of those that remain. The operations work on the manifest under its
  lock and on the store, as \<^verbatim>\<open>persist\<close> does.
\<close>

section \<open>Pins\<close>

definition pins_file :: string where
  "pins_file = ''pins.json''"

definition read_pins :: "'s backend \<Rightarrow> ext \<Rightarrow> 's \<Rightarrow> nat list option result" where
  "read_pins B X s =
     (case b_get B s pins_file of
        Inr bytes \<Rightarrow>
          (case js_from_slice (x_pins X) (strip_zeros bytes) of
             Inr steps \<Rightarrow> Inr (Some steps) | Inl e \<Rightarrow> Inl (SerializationErr e))
      | Inl (NotFound p) \<Rightarrow> Inr None
      | Inl e \<Rightarrow> Inl e)"

definition write_pins :: "'s backend \<Rightarrow> ext \<Rightarrow> nat list \<Rightarrow> ('s, unit) io" where
  "write_pins B X steps =
     bind_io (lift_io (serialization (js_to_vec (x_pins X) steps))) (\<lambda>json. b_put B pins_file json)"

definition set_pins :: "nat list \<Rightarrow> manifest \<Rightarrow> manifest" where
  "set_pins steps m = m\<lparr>mf_snapshots := map (\<lambda>sn.
     if sn_finalized sn then sn\<lparr>sn_pinned := (sn_step sn \<in> set steps)\<rparr> else sn) (mf_snapshots m)\<rparr>"

definition sync_pins :: "'s backend \<Rightarrow> ext \<Rightarrow> 's \<Rightarrow> manifest \<Rightarrow> manifest result" where
  "sync_pins B X s m =
     bind_res (read_pins B X s) (\<lambda>r. case r of
         None \<Rightarrow> Inr m
       | Some steps \<Rightarrow> Inr (set_pins steps m))"

definition pinned_flags :: "manifest \<Rightarrow> nat list" where
  "pinned_flags m = map sn_step (filter (\<lambda>sn. sn_pinned sn \<and> sn_finalized sn) (mf_snapshots m))"

definition sort_dedup :: "nat list \<Rightarrow> nat list" where
  "sort_dedup steps = remdups_adj (sort steps)"

definition pinned_steps :: "'s backend \<Rightarrow> ext \<Rightarrow> 's \<Rightarrow> manifest \<Rightarrow> nat list \<times> manifest" where
  "pinned_steps B X s m =
     (let m' = (case sync_pins B X s m of Inl e \<Rightarrow> m | Inr m' \<Rightarrow> m')
      in (sort_dedup (pinned_flags m'), m'))"

definition flag_snapshot :: "uuid \<Rightarrow> bool \<Rightarrow> manifest \<Rightarrow> manifest" where
  "flag_snapshot i pinned m = m\<lparr>mf_snapshots := map (\<lambda>sn.
     if sn_id sn = i \<and> sn_pinned sn \<noteq> pinned then sn\<lparr>sn_pinned := pinned\<rparr> else sn) (mf_snapshots m)\<rparr>"

definition new_pins :: "nat \<Rightarrow> bool \<Rightarrow> nat list \<Rightarrow> nat list" where
  "new_pins step pinned steps =
     sort_dedup (let kept = filter (\<lambda>st. st \<noteq> step) steps in if pinned then kept @ [step] else kept)"

definition set_pinned :: "'s backend \<Rightarrow> ext \<Rightarrow> nat \<Rightarrow> bool \<Rightarrow> ('s \<times> manifest, bool) io" where
  "set_pinned B X step pinned sm =
     (case sm of (s, m) \<Rightarrow>
       (case find (\<lambda>sn. sn_step sn = step \<and> sn_finalized sn) (rev (mf_snapshots m)) of
          None \<Rightarrow> (Inr False, (s, m))
        | Some target \<Rightarrow>
            let i = sn_id target;
                changed = list_ex (\<lambda>sn. sn_id sn = i \<and> sn_pinned sn \<noteq> pinned) (mf_snapshots m);
                m1 = flag_snapshot i pinned m
            in (case (if changed then persist B X (s, m1) else (Inr (), (s, m1))) of
                  (Inl e, sm') \<Rightarrow> (Inl e, sm')
                | (Inr _, (s1, m2)) \<Rightarrow>
                    (case read_pins B X s1 of
                       Inl e \<Rightarrow> (Inl e, (s1, m2))
                     | Inr r \<Rightarrow>
                         let steps = (case r of Some steps \<Rightarrow> steps | None \<Rightarrow> pinned_flags m2)
                         in (case write_pins B X (new_pins step pinned steps) s1 of
                               (Inl e, s2) \<Rightarrow> (Inl e, (s2, m2))
                             | (Inr _, s2) \<Rightarrow> (Inr True, (s2, m2)))))))"

section \<open>Retention\<close>

definition full_count :: "snapshot list \<Rightarrow> nat" where
  "full_count sns = length (filter (\<lambda>s. sn_base_snapshot_id s = None \<and> sn_finalized s) sns)"

text \<open>\<^verbatim>\<open>remove_snapshots\<close>: what was evicted, and what is left.\<close>

definition remove_snapshots :: "snapshot list \<Rightarrow> uuid list \<Rightarrow> snapshot list \<times> snapshot list" where
  "remove_snapshots sns to_remove =
     (filter (\<lambda>s. sn_id s \<in> set to_remove) sns, filter (\<lambda>s. sn_id s \<notin> set to_remove) sns)"

definition remove_snapshot_group :: "snapshot list \<Rightarrow> uuid \<Rightarrow> snapshot list \<times> snapshot list" where
  "remove_snapshot_group sns full_id =
     remove_snapshots sns
       (map sn_id (filter (\<lambda>s. sn_id s = full_id \<or> sn_base_snapshot_id s = Some full_id) sns))"

definition oldest_removable :: "uuid list \<Rightarrow> snapshot list \<Rightarrow> uuid option" where
  "oldest_removable rollback_ids sns =
     map_option sn_id (find (\<lambda>s. sn_base_snapshot_id s = None \<and> sn_finalized s
        \<and> sn_id s \<notin> set rollback_ids) sns)"

lemma remove_snapshots_shorter:
  "x \<in> set sns \<Longrightarrow> sn_id x \<in> set ids \<Longrightarrow> length (snd (remove_snapshots sns ids)) < length sns"
  by (simp add: remove_snapshots_def length_filter_less)

lemma remove_group_shorter:
  "x \<in> set sns \<Longrightarrow> sn_id x = i \<Longrightarrow> length (snd (remove_snapshot_group sns i)) < length sns"
  unfolding remove_snapshot_group_def by (rule remove_snapshots_shorter) auto

lemma oldest_removable_SomeD:
  "oldest_removable ids sns = Some i \<Longrightarrow> \<exists>x \<in> set sns. sn_id x = i \<and> sn_base_snapshot_id x = None
     \<and> sn_finalized x \<and> i \<notin> set ids"
  by (auto simp: oldest_removable_def dest: find_Some_iff_mem)

lemma group_shorter:
  assumes "remove_snapshot_group sns i = (gone, rest)" and "oldest_removable ids sns = Some i"
  shows "length rest < length sns"
  using oldest_removable_SomeD [OF assms(2)] remove_group_shorter [of _ sns i] assms(1) by auto

lemma candidate_shorter:
  assumes "remove_snapshots sns [sn_id c] = (gone, rest)" and "find P (filter Q sns) = Some c"
  shows "length rest < length sns"
  using find_Some_iff_mem [OF assms(2)] remove_snapshots_shorter [of c sns "[sn_id c]"] assms(1) by simp

text \<open>Pass 1: the loop that caps the full snapshots.\<close>

function cap_fulls :: "uuid list \<Rightarrow> nat \<Rightarrow> snapshot list \<Rightarrow> snapshot list \<times> snapshot list" where
  "cap_fulls rollback_ids max_full sns =
     (if full_count sns \<le> max_full then ([], sns)
      else case oldest_removable rollback_ids sns of
        None \<Rightarrow> ([], sns)
      | Some oldest_id \<Rightarrow>
          let (gone, rest) = remove_snapshot_group sns oldest_id;
              (more, final) = cap_fulls rollback_ids max_full rest
          in (gone @ more, final))"
  by pat_completeness auto
termination
  by (relation "measure (\<lambda>(_, _, sns). length sns)")
    (auto dest: group_shorter simp: eq_commute [of _ "remove_snapshot_group _ _"])

declare cap_fulls.simps [simp del]

definition cap_candidate :: "uuid list \<Rightarrow> snapshot list \<Rightarrow> uuid \<Rightarrow> snapshot \<Rightarrow> bool" where
  "cap_candidate rollback_ids sns newest s \<longleftrightarrow>
     sn_id s \<noteq> newest \<and> sn_id s \<notin> set rollback_ids
     \<and> (sn_base_snapshot_id s \<noteq> None
        \<or> \<not> list_ex (\<lambda>d. sn_base_snapshot_id d = Some (sn_id s)) sns)"

text \<open>Pass 2: the loop that caps the total.\<close>

function cap_total :: "uuid list \<Rightarrow> nat \<Rightarrow> snapshot list \<Rightarrow> snapshot list \<times> snapshot list" where
  "cap_total rollback_ids max_total sns =
     (let finalized = filter sn_finalized sns in
      if length finalized \<le> max_total \<or> finalized = [] then ([], sns)
      else case find (cap_candidate rollback_ids sns (sn_id (last finalized))) finalized of
        None \<Rightarrow> ([], sns)
      | Some c \<Rightarrow>
          let (gone, rest) = remove_snapshots sns [sn_id c];
              (more, final) = cap_total rollback_ids max_total rest
          in (gone @ more, final))"
  by pat_completeness auto
termination
  by (relation "measure (\<lambda>(_, _, sns). length sns)")
    (auto dest: candidate_shorter simp: eq_commute [of _ "remove_snapshots _ _"])

declare cap_total.simps [simp del]

definition retained :: "manifest \<Rightarrow> snapshot list \<times> snapshot list" where
  "retained m =
     (let rollback_ids = protected_snapshot_ids m;
          (gone1, sns1) = cap_fulls rollback_ids (rp_max_full_snapshots (mf_retention m)) (mf_snapshots m);
          (gone2, sns2) = cap_total rollback_ids (effective_total_cap (mf_retention m)) sns1
      in (gone1 @ gone2, sns2))"

definition apply_retention :: "'s backend \<Rightarrow> ext \<Rightarrow> ('s \<times> manifest, snapshot list) io" where
  "apply_retention B X sm =
     (case sm of (s, m) \<Rightarrow>
       (case sync_pins B X s m of
          Inl e \<Rightarrow> (Inl e, (s, m))
        | Inr m1 \<Rightarrow>
            (case retained m1 of (evicted, kept) \<Rightarrow>
               (case persist B X (s, m1\<lparr>mf_snapshots := kept\<rparr>) of
                  (Inl e, sm') \<Rightarrow> (Inl e, sm')
                | (Inr _, sm') \<Rightarrow> (Inr evicted, sm')))))"

section \<open>What a pass promises\<close>

text \<open>Every delta has its base in the list, and the base is a full; no id occurs twice.\<close>

definition chained :: "snapshot list \<Rightarrow> bool" where
  "chained sns \<longleftrightarrow> distinct (map sn_id sns)
     \<and> list_all (\<lambda>s. case sn_base_snapshot_id s of None \<Rightarrow> True
         | Some b \<Rightarrow> list_ex (\<lambda>f. sn_id f = b \<and> sn_base_snapshot_id f = None) sns) sns"

text \<open>The protected ids take a protected delta's base with them.\<close>

definition protects :: "uuid list \<Rightarrow> snapshot list \<Rightarrow> bool" where
  "protects ids sns \<longleftrightarrow> list_all (\<lambda>s. sn_id s \<in> set ids \<longrightarrow>
     (case sn_base_snapshot_id s of None \<Rightarrow> True | Some b \<Rightarrow> b \<in> set ids)) sns"

lemma chained_base:
  "chained sns \<Longrightarrow> s \<in> set sns \<Longrightarrow> sn_base_snapshot_id s = Some b
    \<Longrightarrow> \<exists>f \<in> set sns. sn_id f = b \<and> sn_base_snapshot_id f = None"
  by (fastforce simp: chained_def list_all_iff list_ex_iff)

lemma chained_id: "chained sns \<Longrightarrow> s \<in> set sns \<Longrightarrow> t \<in> set sns \<Longrightarrow> sn_id s = sn_id t \<Longrightarrow> s = t"
  by (auto simp: chained_def distinct_map inj_on_def)

lemma chainedI:
  assumes "distinct (map sn_id sns)"
    and "\<And>s b. s \<in> set sns \<Longrightarrow> sn_base_snapshot_id s = Some b
      \<Longrightarrow> \<exists>f \<in> set sns. sn_id f = b \<and> sn_base_snapshot_id f = None"
  shows "chained sns"
  using assms by (fastforce simp: chained_def list_all_iff list_ex_iff split: option.splits)

text \<open>What is dropped may be anything whose dependants are dropped with it.\<close>

lemma chained_filter:
  assumes "chained sns"
    and "\<And>s f. s \<in> set sns \<Longrightarrow> f \<in> set sns \<Longrightarrow> sn_base_snapshot_id s = Some (sn_id f) \<Longrightarrow> P s \<Longrightarrow> P f"
  shows "chained (filter P sns)"
proof (rule chainedI)
  show "distinct (map sn_id (filter P sns))"
    using assms(1) by (auto simp: chained_def intro: distinct_map_filter)
next
  fix s b assume s: "s \<in> set (filter P sns)" and b: "sn_base_snapshot_id s = Some b"
  then obtain f where "f \<in> set sns" "sn_id f = b" "sn_base_snapshot_id f = None"
    using chained_base [OF assms(1)] by auto
  moreover from this s b have "P f" using assms(2) [of s f] by simp
  ultimately show "\<exists>f \<in> set (filter P sns). sn_id f = b \<and> sn_base_snapshot_id f = None" by auto
qed

locale eviction_pass =
  fixes evict :: "uuid list \<Rightarrow> nat \<Rightarrow> snapshot list \<Rightarrow> snapshot list \<times> snapshot list"
  assumes partition: "evict ids n sns = (gone, kept) \<Longrightarrow>
      subseq kept sns \<and> mset gone + mset kept = mset sns"
    and keeps_chained: "evict ids n sns = (gone, kept) \<Longrightarrow> chained sns \<Longrightarrow> chained kept"
    and keeps_protected: "evict ids n sns = (gone, kept) \<Longrightarrow> chained sns \<Longrightarrow> protects ids sns
      \<Longrightarrow> s \<in> set sns \<Longrightarrow> sn_id s \<in> set ids \<Longrightarrow> s \<in> set kept"
begin

lemma kept_subset: "evict ids n sns = (gone, kept) \<Longrightarrow> set kept \<subseteq> set sns"
  using partition [of ids n sns gone kept] by (metis set_mset_mset set_mset_union Un_upper2)

lemma gone_subset: "evict ids n sns = (gone, kept) \<Longrightarrow> set gone \<subseteq> set sns"
  using partition by (metis set_mset_mset set_mset_union Un_upper1)

lemma keeps_protects: "evict ids n sns = (gone, kept) \<Longrightarrow> protects ids sns \<Longrightarrow> protects ids kept"
  using kept_subset by (fastforce simp: protects_def list_all_iff)

lemma evicted_unprotected:
  assumes "evict ids n sns = (gone, kept)" "chained sns" "protects ids sns" "s \<in> set gone"
  shows "sn_id s \<notin> set ids"
proof
  assume p: "sn_id s \<in> set ids"
  have "s \<in> set sns" using assms(4) gone_subset [OF assms(1)] by auto
  with assms p have "s \<in> set kept" by (blast intro: keeps_protected)
  with assms(4) have "0 < count (mset gone) s" "0 < count (mset kept) s" by simp_all
  then have "2 \<le> count (mset gone + mset kept) s" unfolding count_union by linarith
  moreover have "distinct sns" using assms(2) by (auto simp: chained_def distinct_map)
  then have "count (mset sns) s \<le> 1" by (simp add: distinct_count_atmost_1)
  ultimately show False using partition [OF assms(1)] by simp
qed

end

text \<open>Two passes in a row, as the code runs them, are a pass again.\<close>

locale two_passes = first: eviction_pass ev1 + second: eviction_pass ev2
  for ev1 ev2 :: "uuid list \<Rightarrow> nat \<Rightarrow> snapshot list \<Rightarrow> snapshot list \<times> snapshot list"
begin

lemma both:
  assumes "ev1 ids n sns = (gone1, mid)" and "ev2 ids k mid = (gone2, kept)"
  shows "subseq kept sns \<and> mset (gone1 @ gone2) + mset kept = mset sns"
    and "chained sns \<Longrightarrow> chained kept"
    and "chained sns \<Longrightarrow> protects ids sns \<Longrightarrow> s \<in> set sns \<Longrightarrow> sn_id s \<in> set ids \<Longrightarrow> s \<in> set kept"
proof -
  note p1 = first.partition [OF assms(1)] and p2 = second.partition [OF assms(2)]
  then show "subseq kept sns \<and> mset (gone1 @ gone2) + mset kept = mset sns"
    by (metis add.assoc mset_append subseq_order.order_trans)
  show "chained sns \<Longrightarrow> chained kept"
    using first.keeps_chained [OF assms(1)] second.keeps_chained [OF assms(2)] by blast
  show "chained sns \<Longrightarrow> protects ids sns \<Longrightarrow> s \<in> set sns \<Longrightarrow> sn_id s \<in> set ids \<Longrightarrow> s \<in> set kept"
    using first.keeps_chained [OF assms(1)] first.keeps_protected [OF assms(1)]
      first.keeps_protects [OF assms(1)] second.keeps_protected [OF assms(2)] by blast
qed

end

section \<open>The first pass\<close>

lemma removed_partition:
  "subseq (snd (remove_snapshots sns ids)) sns
    \<and> mset (fst (remove_snapshots sns ids)) + mset (snd (remove_snapshots sns ids)) = mset sns"
  by (simp add: remove_snapshots_def flip: multiset_partition)

lemma set_group:
  "chained sns \<Longrightarrow> set (snd (remove_snapshot_group sns i))
     = {s \<in> set sns. sn_id s \<noteq> i \<and> sn_base_snapshot_id s \<noteq> Some i}"
  by (auto simp: remove_snapshot_group_def remove_snapshots_def dest: chained_id)

lemma group_chained:
  assumes "chained sns"
  shows "chained (snd (remove_snapshot_group sns i))"
proof -
  let ?ids = "map sn_id (filter (\<lambda>s. sn_id s = i \<or> sn_base_snapshot_id s = Some i) sns)"
  have "sn_id f \<notin> set ?ids"
    if st: "s \<in> set sns" "f \<in> set sns" "sn_base_snapshot_id s = Some (sn_id f)" "sn_id s \<notin> set ?ids" for s f
  proof
    assume "sn_id f \<in> set ?ids"
    then obtain g where "g \<in> set sns" "sn_id g = sn_id f" "sn_id g = i \<or> sn_base_snapshot_id g = Some i" by auto
    moreover obtain b where "b \<in> set sns" "sn_id b = sn_id f" "sn_base_snapshot_id b = None"
      using chained_base [OF assms st(1,3)] by auto
    ultimately have "sn_id f = i" using chained_id [OF assms, of b g] by auto
    with st show False by auto
  qed
  then show ?thesis
    unfolding remove_snapshot_group_def remove_snapshots_def snd_conv
    by (rule chained_filter [OF assms])
qed

lemma cap_fulls_induct_step:
  assumes "cap_fulls ids n sns = (gone, kept)"
  obtains "gone = []" "kept = sns" "full_count sns \<le> n \<or> oldest_removable ids sns = None"
  | i gone1 rest gone2 where "oldest_removable ids sns = Some i" "n < full_count sns"
      "remove_snapshot_group sns i = (gone1, rest)"
      "cap_fulls ids n rest = (gone2, kept)" "gone = gone1 @ gone2"
  using assms by (subst (asm) cap_fulls.simps) (auto split: if_splits option.splits prod.splits)

interpretation full_cap: eviction_pass cap_fulls
proof unfold_locales
  fix ids n sns gone kept s
  show "cap_fulls ids n sns = (gone, kept) \<Longrightarrow> subseq kept sns \<and> mset gone + mset kept = mset sns"
  proof (induction ids n sns arbitrary: gone rule: cap_fulls.induct)
    case (1 ids n sns)
    from "1.prems" show ?case
    proof (cases rule: cap_fulls_induct_step)
      case (2 i gone1 rest gone2)
      then have "subseq kept rest \<and> mset gone2 + mset kept = mset rest" using "1.IH" by simp
      moreover have "subseq rest sns \<and> mset gone1 + mset rest = mset sns"
        using removed_partition 2(3) by (metis fst_conv snd_conv remove_snapshot_group_def)
      ultimately show ?thesis using 2(5)
        by (metis add.assoc mset_append subseq_order.order_trans)
    qed simp
  qed
  show "cap_fulls ids n sns = (gone, kept) \<Longrightarrow> chained sns \<Longrightarrow> chained kept"
  proof (induction ids n sns arbitrary: gone rule: cap_fulls.induct)
    case (1 ids n sns)
    from "1.prems"(1) show ?case
    proof (cases rule: cap_fulls_induct_step)
      case (2 i gone1 rest gone2)
      moreover have "chained rest" using group_chained [OF "1.prems"(2), of i] 2(3) by simp
      ultimately show ?thesis using "1.IH" by simp
    qed (use "1.prems" in simp)
  qed
  show "cap_fulls ids n sns = (gone, kept) \<Longrightarrow> chained sns \<Longrightarrow> protects ids sns
      \<Longrightarrow> s \<in> set sns \<Longrightarrow> sn_id s \<in> set ids \<Longrightarrow> s \<in> set kept"
  proof (induction ids n sns arbitrary: gone rule: cap_fulls.induct)
    case (1 ids n sns)
    from "1.prems"(1) show ?case
    proof (cases rule: cap_fulls_induct_step)
      case (2 i gone1 rest gone2)
      have rest: "set rest = {s \<in> set sns. sn_id s \<noteq> i \<and> sn_base_snapshot_id s \<noteq> Some i}"
        using set_group [OF "1.prems"(2), of i] 2(3) by simp
      have "i \<notin> set ids" using 2(1) by (auto dest: oldest_removable_SomeD)
      with rest "1.prems" have "s \<in> set rest" "protects ids rest"
        by (auto simp: protects_def list_all_iff split: option.splits)
      moreover have "chained rest" using group_chained [OF "1.prems"(2), of i] 2(3) by simp
      ultimately show ?thesis using 2 "1.IH" "1.prems"(5) by simp
    qed (use "1.prems" in simp)
  qed
qed

section \<open>The second pass\<close>

lemma cap_total_induct_step:
  assumes "cap_total ids n sns = (gone, kept)"
  obtains "gone = []" "kept = sns"
      "length (filter sn_finalized sns) \<le> n
        \<or> find (cap_candidate ids sns (sn_id (last (filter sn_finalized sns)))) (filter sn_finalized sns) = None"
  | c gone1 rest gone2 where "c \<in> set sns" "sn_finalized c" "n < length (filter sn_finalized sns)"
      "cap_candidate ids sns (sn_id (last (filter sn_finalized sns))) c"
      "remove_snapshots sns [sn_id c] = (gone1, rest)"
      "cap_total ids n rest = (gone2, kept)" "gone = gone1 @ gone2"
proof (cases "find (cap_candidate ids sns (sn_id (last (filter sn_finalized sns)))) (filter sn_finalized sns)")
  case None
  with assms that(1) show thesis
    by (subst (asm) cap_total.simps) (auto simp: Let_def split: if_splits)
next
  case (Some c)
  show thesis
  proof (cases "length (filter sn_finalized sns) \<le> n")
    case True
    with assms that(1) show thesis by (subst (asm) cap_total.simps) (simp add: Let_def)
  next
    case False
    moreover have "c \<in> set sns" "sn_finalized c" "filter sn_finalized sns \<noteq> []"
        "cap_candidate ids sns (sn_id (last (filter sn_finalized sns))) c"
      using find_Some_iff_mem [OF Some] by (auto simp: filter_empty_conv)
    ultimately show thesis
      using assms Some that(2) by (subst (asm) cap_total.simps) (auto simp: Let_def split: prod.splits)
  qed
qed

lemma single_chained:
  assumes "chained sns" and "cap_candidate ids sns newest c" and "c \<in> set sns"
  shows "chained (snd (remove_snapshots sns [sn_id c]))"
  unfolding remove_snapshots_def snd_conv
proof (rule chained_filter [OF assms(1)])
  fix s f assume s: "s \<in> set sns" "f \<in> set sns" "sn_base_snapshot_id s = Some (sn_id f)"
  show "sn_id f \<notin> set [sn_id c]"
  proof
    assume "sn_id f \<in> set [sn_id c]"
    then have "f = c" using chained_id [OF assms(1)] s(2) assms(3) by simp
    moreover have "sn_base_snapshot_id f = None"
      using chained_base [OF assms(1) s(1,3)] chained_id [OF assms(1) _ s(2)] by auto
    ultimately show False using assms(2) s by (auto simp: cap_candidate_def list_ex_iff)
  qed
qed

interpretation total_cap: eviction_pass cap_total
proof unfold_locales
  fix ids n sns gone kept s
  show "cap_total ids n sns = (gone, kept) \<Longrightarrow> subseq kept sns \<and> mset gone + mset kept = mset sns"
  proof (induction "length sns" arbitrary: sns gone rule: less_induct)
    case less
    from less.prems show ?case
    proof (cases rule: cap_total_induct_step)
      case (2 c gone1 rest gone2)
      have "length rest < length sns" using remove_snapshots_shorter [of c sns "[sn_id c]"] 2 by simp
      with 2 have "subseq kept rest \<and> mset gone2 + mset kept = mset rest" using less.hyps by simp
      moreover have "subseq rest sns \<and> mset gone1 + mset rest = mset sns"
        using removed_partition 2(5) by (metis fst_conv snd_conv)
      ultimately show ?thesis using 2(7)
        by (metis add.assoc mset_append subseq_order.order_trans)
    qed simp
  qed
  show "cap_total ids n sns = (gone, kept) \<Longrightarrow> chained sns \<Longrightarrow> chained kept"
  proof (induction "length sns" arbitrary: sns gone rule: less_induct)
    case less
    from less.prems(1) show ?case
    proof (cases rule: cap_total_induct_step)
      case (2 c gone1 rest gone2)
      have "length rest < length sns" using remove_snapshots_shorter [of c sns "[sn_id c]"] 2 by simp
      moreover have "chained rest" using single_chained [OF less.prems(2) 2(4) 2(1)] 2(5) by simp
      ultimately show ?thesis using less.hyps 2(6) by simp
    qed (use less.prems in simp)
  qed
  show "cap_total ids n sns = (gone, kept) \<Longrightarrow> chained sns \<Longrightarrow> protects ids sns
      \<Longrightarrow> s \<in> set sns \<Longrightarrow> sn_id s \<in> set ids \<Longrightarrow> s \<in> set kept"
  proof (induction "length sns" arbitrary: sns gone rule: less_induct)
    case less
    from less.prems(1) show ?case
    proof (cases rule: cap_total_induct_step)
      case (2 c gone1 rest gone2)
      have "length rest < length sns" using remove_snapshots_shorter [of c sns "[sn_id c]"] 2 by simp
      moreover have "chained rest" using single_chained [OF less.prems(2) 2(4) 2(1)] 2(5) by simp
      moreover have "s \<in> set rest" "protects ids rest"
        using 2 less.prems by (auto simp: remove_snapshots_def cap_candidate_def protects_def list_all_iff)
      ultimately show ?thesis using less.hyps [of rest] 2 less.prems(5) by simp
    qed (use less.prems in simp)
  qed
qed

interpretation retention_passes: two_passes cap_fulls cap_total
  by unfold_locales

section \<open>Where the passes stop\<close>

definition all_fulls_protected :: "uuid list \<Rightarrow> snapshot list \<Rightarrow> bool" where
  "all_fulls_protected ids sns \<longleftrightarrow>
     list_all (\<lambda>s. is_full s \<and> sn_finalized s \<longrightarrow> sn_id s \<in> set ids) sns"

text \<open>Nothing can go: each one left is the newest, protected, or a base somebody needs.\<close>

definition nothing_to_spare :: "uuid list \<Rightarrow> snapshot list \<Rightarrow> bool" where
  "nothing_to_spare ids sns \<longleftrightarrow>
     list_all (\<lambda>s. \<not> cap_candidate ids sns (sn_id (last (filter sn_finalized sns))) s)
       (filter sn_finalized sns)"

lemma cap_fulls_post:
  "cap_fulls ids n sns = (gone, kept) \<Longrightarrow> full_count kept \<le> n \<or> all_fulls_protected ids kept"
proof (induction ids n sns arbitrary: gone rule: cap_fulls.induct)
  case (1 ids n sns)
  from "1.prems" show ?case
  proof (cases rule: cap_fulls_induct_step)
    case 1
    then show ?thesis
      by (auto simp: oldest_removable_def find_None_all all_fulls_protected_def is_full_def list_all_iff)
  next
    case (2 i gone1 rest gone2)
    with "1.IH" show ?thesis by simp
  qed
qed

lemma cap_total_post:
  "cap_total ids n sns = (gone, kept)
    \<Longrightarrow> length (filter sn_finalized kept) \<le> n \<or> nothing_to_spare ids kept"
proof (induction "length sns" arbitrary: sns gone rule: less_induct)
  case less
  from less.prems show ?case
  proof (cases rule: cap_total_induct_step)
    case 1
    then show ?thesis by (auto simp: find_None_all nothing_to_spare_def list_all_iff)
  next
    case (2 c gone1 rest gone2)
    have "length rest < length sns" using remove_snapshots_shorter [of c sns "[sn_id c]"] 2 by simp
    with 2 less.hyps show ?thesis by simp
  qed
qed

lemma subseq_count_le: "subseq xs ys \<Longrightarrow> length (filter P xs) \<le> length (filter P ys)"
  by (induction rule: list_emb.induct) auto

lemma last_filter_drop:
  "filter P xs \<noteq> [] \<Longrightarrow> Q (last (filter P xs)) \<Longrightarrow> last (filter P (filter Q xs)) = last (filter P xs)
     \<and> filter P (filter Q xs) \<noteq> []"
proof (induction xs rule: rev_induct)
  case (snoc x xs)
  then show ?case by (cases "P x") auto
qed simp

lemma cap_total_newest:
  "cap_total ids n sns = (gone, kept) \<Longrightarrow> chained sns \<Longrightarrow> filter sn_finalized sns \<noteq> []
    \<Longrightarrow> last (filter sn_finalized kept) = last (filter sn_finalized sns) \<and> filter sn_finalized kept \<noteq> []"
proof (induction "length sns" arbitrary: sns gone rule: less_induct)
  case less
  from less.prems(1) show ?case
  proof (cases rule: cap_total_induct_step)
    case (2 c gone1 rest gone2)
    have "length rest < length sns" using remove_snapshots_shorter [of c sns "[sn_id c]"] 2 by simp
    moreover have "chained rest" using single_chained [OF less.prems(2) 2(4) 2(1)] 2(5) by simp
    moreover have "last (filter sn_finalized rest) = last (filter sn_finalized sns) \<and> filter sn_finalized rest \<noteq> []"
      using last_filter_drop [OF less.prems(3), of "\<lambda>s. sn_id s \<notin> set [sn_id c]"] 2(4,5)
      by (auto simp: remove_snapshots_def cap_candidate_def)
    ultimately show ?thesis using less.hyps [of rest gone2] 2(6) by simp
  qed (use less.prems in simp)
qed

section \<open>Retention as a whole\<close>

lemma set_pins_simps [simp]:
  "map sn_id (mf_snapshots (set_pins steps m)) = map sn_id (mf_snapshots m)"
  "mf_retention (set_pins steps m) = mf_retention m"
  by (simp_all add: set_pins_def comp_def) (rule map_cong; simp)?

lemma set_pins_finalized [simp]:
  "map sn_id (filter sn_finalized (mf_snapshots (set_pins steps m)))
     = map sn_id (filter sn_finalized (mf_snapshots m))"
  "full_count (mf_snapshots (set_pins steps m)) = full_count (mf_snapshots m)"
proof -
  let ?f = "\<lambda>sn. if sn_finalized sn then sn\<lparr>sn_pinned := (sn_step sn \<in> set steps)\<rparr> else sn"
  have "map sn_id (filter sn_finalized (map ?f sns)) = map sn_id (filter sn_finalized sns)
      \<and> full_count (map ?f sns) = full_count sns" for sns
    by (induction sns) (auto simp: full_count_def)
  then show "map sn_id (filter sn_finalized (mf_snapshots (set_pins steps m)))
        = map sn_id (filter sn_finalized (mf_snapshots m))"
    "full_count (mf_snapshots (set_pins steps m)) = full_count (mf_snapshots m)"
    by (simp_all add: set_pins_def)
qed

text \<open>Whether a list is chained is a matter of ids and bases.\<close>

lemma chained_map:
  assumes "\<And>s. sn_id (f s) = sn_id s" and "\<And>s. sn_base_snapshot_id (f s) = sn_base_snapshot_id s"
  shows "chained (map f sns) = chained sns"
proof -
  have "list_ex (\<lambda>g. sn_id g = b \<and> sn_base_snapshot_id g = None) (map f sns)
      = list_ex (\<lambda>g. sn_id g = b \<and> sn_base_snapshot_id g = None) sns" for b
    by (simp add: list_ex_iff assms)
  then show ?thesis
    by (simp add: chained_def comp_def list_all_iff assms cong: option.case_cong)
qed

lemma chained_set_pins [simp]: "chained (mf_snapshots (set_pins steps m)) = chained (mf_snapshots m)"
  by (simp add: set_pins_def chained_map)

lemma sync_pins_Inr:
  "sync_pins B X s m = Inr m1 \<Longrightarrow> m1 = m \<or> (\<exists>steps. read_pins B X s = Inr (Some steps) \<and> m1 = set_pins steps m)"
  by (auto simp: sync_pins_def effect_simps split: option.splits)

lemma chained_sync: "sync_pins B X s m = Inr m1 \<Longrightarrow> chained (mf_snapshots m1) = chained (mf_snapshots m)"
  by (auto dest: sync_pins_Inr)

lemma protects_protected:
  assumes "chained (mf_snapshots m)"
  shows "protects (protected_snapshot_ids m) (mf_snapshots m)"
proof -
  have "b \<in> set (protected_snapshot_ids m)"
    if s: "s \<in> set (mf_snapshots m)" "sn_id s \<in> set (protected_snapshot_ids m)"
      and b: "sn_base_snapshot_id s = Some b" for s b
  proof -
    have not_full: "\<not> is_full t" if "t \<in> set (mf_snapshots m)" "sn_id t = sn_id s" for t
      using chained_id [OF assms that(1) s(1) that(2)] b by (simp add: is_full_def)
    from s(2) consider "sn_id s \<in> set (rollback_snapshot_ids m)"
      | t where "t \<in> set (mf_snapshots m)" "sn_pinned t" "sn_id s = sn_id t"
      | t where "t \<in> set (mf_snapshots m)" "sn_base_snapshot_id t = Some (sn_id s)"
      unfolding set_protected_ids by auto
    then show ?thesis
    proof cases
      case 1
      then show ?thesis using rollback_idsD not_full by blast
    next
      case (2 t)
      then have "t = s" using chained_id [OF assms] s(1) by simp
      with 2 b show ?thesis unfolding set_protected_ids by auto
    next
      case (3 t)
      then obtain f where "f \<in> set (mf_snapshots m)" "sn_id f = sn_id s" "sn_base_snapshot_id f = None"
        using chained_base [OF assms 3(1)] by blast
      with not_full [of f] show ?thesis by (simp add: is_full_def)
    qed
  qed
  then show ?thesis by (auto simp: protects_def list_all_iff split: option.splits)
qed

lemma retainedE:
  assumes "retained m = (gone, kept)"
  obtains gone1 mid gone2 where
    "cap_fulls (protected_snapshot_ids m) (rp_max_full_snapshots (mf_retention m)) (mf_snapshots m) = (gone1, mid)"
    "cap_total (protected_snapshot_ids m) (effective_total_cap (mf_retention m)) mid = (gone2, kept)"
    "gone = gone1 @ gone2"
  using assms by (auto simp: retained_def Let_def split: prod.splits)

lemma retained_partition:
  assumes "retained m = (gone, kept)"
  shows "subseq kept (mf_snapshots m) \<and> mset gone + mset kept = mset (mf_snapshots m)"
  using assms by (rule retainedE) (metis retention_passes.both(1))

lemma retained_chained:
  assumes "retained m = (gone, kept)" and "chained (mf_snapshots m)"
  shows "chained kept"
  using assms(1) by (rule retainedE) (metis assms(2) retention_passes.both(2))

lemma retained_protected:
  assumes "retained m = (gone, kept)" and "chained (mf_snapshots m)"
    and "s \<in> set (mf_snapshots m)" and "sn_id s \<in> set (protected_snapshot_ids m)"
  shows "s \<in> set kept"
  using assms(1) by (rule retainedE) (metis assms(2-4) protects_protected retention_passes.both(3))

text \<open>What the manifest holds once retention ran, whether or not it could then be written.\<close>

lemma apply_retention_manifest:
  assumes "apply_retention B X (s, m) = (r, (s', m'))" and "sync_pins B X s m = Inr m1"
    and "retained m1 = (gone, kept)"
  shows "mf_snapshots m' = kept \<and> (\<forall>evicted. r = Inr evicted \<longrightarrow> evicted = gone)"
  using assms by (auto simp: apply_retention_def persist_def Let_def split: prod.splits sum.splits)

lemma apply_retention_synced:
  assumes "apply_retention B X (s, m) = (Inr evicted, (s', m'))"
  obtains m1 where "sync_pins B X s m = Inr m1" "retained m1 = (evicted, mf_snapshots m')"
proof -
  obtain m1 where m1: "sync_pins B X s m = Inr m1"
    using assms by (auto simp: apply_retention_def split: sum.splits)
  obtain gone kept where "retained m1 = (gone, kept)" by fastforce
  with apply_retention_manifest [OF assms m1] that m1 show thesis by auto
qed

text \<open>
  C19. A pin keeps a checkpoint: a finalised snapshot whose step is in \<^verbatim>\<open>pins.json\<close> - whichever
  process wrote it there - is still in the manifest after retention, and so is the full it is
  computed against, whatever the caps say and whether or not the manifest could be written.
\<close>

theorem retention_keeps_pinned:
  assumes "apply_retention B X (s, m) = (r, (s', m'))"
    and "read_pins B X s = Inr (Some steps)" and "chained (mf_snapshots m)"
    and "sn \<in> set (mf_snapshots m)" and "sn_finalized sn" and "sn_step sn \<in> set steps"
  shows "(\<exists>kept \<in> set (mf_snapshots m'). sn_id kept = sn_id sn \<and> sn_pinned kept)
    \<and> (\<forall>b. sn_base_snapshot_id sn = Some b \<longrightarrow> b \<in> sn_id ` set (mf_snapshots m'))"
proof -
  let ?m1 = "set_pins steps m"
  obtain gone kept where ret: "retained ?m1 = (gone, kept)" by fastforce
  have "sync_pins B X s m = Inr ?m1" using assms(2) by (simp add: sync_pins_def)
  with assms(1) ret have m': "mf_snapshots m' = kept" by (auto dest: apply_retention_manifest)
  let ?sn = "sn\<lparr>sn_pinned := True\<rparr>"
  have sn: "?sn \<in> set (mf_snapshots ?m1)" using assms(4-6) by (force simp: set_pins_def)
  then have "sn_id ?sn \<in> set (protected_snapshot_ids ?m1)"
    unfolding set_protected_ids by (intro UnI2 CollectI bexI [of _ ?sn]) simp_all
  with sn assms(3) have k: "?sn \<in> set kept" by (intro retained_protected [OF ret]) simp_all
  moreover have "chained kept" using retained_chained [OF ret] assms(3) by simp
  ultimately show ?thesis using chained_base [of kept ?sn] m' by (force intro: bexI [of _ ?sn])
qed

text \<open>
  C20. Retention never strands a delta and never invents or duplicates anything: what is left is
  part of what was there, in its order, what was handed back for unlinking is the rest, and in
  what is left every delta still has the full it is computed against.
\<close>

theorem retention_keeps_chains:
  assumes "apply_retention B X (s, m) = (Inr evicted, (s', m'))" and "chained (mf_snapshots m)"
  shows "chained (mf_snapshots m')
    \<and> subseq (map sn_id (mf_snapshots m')) (map sn_id (mf_snapshots m))
    \<and> mset (map sn_id evicted) + mset (map sn_id (mf_snapshots m')) = mset (map sn_id (mf_snapshots m))"
proof -
  obtain m1 where m1: "sync_pins B X s m = Inr m1" "retained m1 = (evicted, mf_snapshots m')"
    using assms(1) by (rule apply_retention_synced)
  have "map sn_id (mf_snapshots m1) = map sn_id (mf_snapshots m)" using sync_pins_Inr [OF m1(1)] by auto
  then show ?thesis
    using retained_chained [OF m1(2)] retained_partition [OF m1(2)] assms(2) chained_sync [OF m1(1)]
    by (metis (no_types, lifting) mset_map image_mset_union subseq_map)
qed

text \<open>
  Retention stops only where it has to: either the full snapshots are within their cap or the
  finalised fulls left are all protected, and either the total is within its cap or each finalised
  snapshot left is the newest, protected, or a full some delta needs.
\<close>

theorem retention_caps:
  assumes "apply_retention B X (s, m) = (Inr evicted, (s', m'))" and "sync_pins B X s m = Inr m1"
  shows "(full_count (mf_snapshots m') \<le> rp_max_full_snapshots (mf_retention m)
       \<or> all_fulls_protected (protected_snapshot_ids m1) (mf_snapshots m'))
    \<and> (length (filter sn_finalized (mf_snapshots m')) \<le> effective_total_cap (mf_retention m)
       \<or> nothing_to_spare (protected_snapshot_ids m1) (mf_snapshots m'))"
proof -
  have ret: "retained m1 = (evicted, mf_snapshots m')"
    using apply_retention_synced [OF assms(1)] assms(2) by (metis sum.inject(2))
  have rp: "mf_retention m1 = mf_retention m" using sync_pins_Inr [OF assms(2)] by auto
  obtain gone1 mid gone2 where
    p1: "cap_fulls (protected_snapshot_ids m1) (rp_max_full_snapshots (mf_retention m1)) (mf_snapshots m1) = (gone1, mid)"
    and p2: "cap_total (protected_snapshot_ids m1) (effective_total_cap (mf_retention m1)) mid = (gone2, mf_snapshots m')"
    using ret by (rule retainedE)
  have "full_count (mf_snapshots m') \<le> full_count mid"
    using total_cap.partition [OF p2] by (simp add: full_count_def subseq_count_le)
  moreover have "all_fulls_protected ids mid \<Longrightarrow> all_fulls_protected ids (mf_snapshots m')" for ids
    using total_cap.kept_subset [OF p2] by (auto simp: all_fulls_protected_def list_all_iff)
  ultimately show ?thesis
    using cap_fulls_post [OF p1] cap_total_post [OF p2] rp by auto
qed

text \<open>
  The cap on the total never takes the newest checkpoint: while the fulls are within their own
  cap, the newest finalised snapshot is still the newest after retention.
\<close>

theorem retention_keeps_newest:
  assumes "apply_retention B X (s, m) = (Inr evicted, (s', m'))" and "sync_pins B X s m = Inr m1"
    and "chained (mf_snapshots m)" and "filter sn_finalized (mf_snapshots m) \<noteq> []"
    and "full_count (mf_snapshots m) \<le> rp_max_full_snapshots (mf_retention m)"
  shows "sn_id (last (filter sn_finalized (mf_snapshots m'))) = sn_id (last (filter sn_finalized (mf_snapshots m)))"
proof -
  have ret: "retained m1 = (evicted, mf_snapshots m')"
    using apply_retention_synced [OF assms(1)] assms(2) by (metis sum.inject(2))
  have same: "mf_retention m1 = mf_retention m" "full_count (mf_snapshots m1) = full_count (mf_snapshots m)"
      "map sn_id (filter sn_finalized (mf_snapshots m1)) = map sn_id (filter sn_finalized (mf_snapshots m))"
    using sync_pins_Inr [OF assms(2)] by auto
  have ne: "filter sn_finalized (mf_snapshots m1) \<noteq> []" using same(3) assms(4) by (metis map_is_Nil_conv)
  obtain gone1 mid gone2 where
    p1: "cap_fulls (protected_snapshot_ids m1) (rp_max_full_snapshots (mf_retention m1)) (mf_snapshots m1) = (gone1, mid)"
    and p2: "cap_total (protected_snapshot_ids m1) (effective_total_cap (mf_retention m1)) mid = (gone2, mf_snapshots m')"
    using ret by (rule retainedE)
  have "mid = mf_snapshots m1" using p1 same assms(5) by (simp add: cap_fulls.simps)
  then have "last (filter sn_finalized (mf_snapshots m')) = last (filter sn_finalized (mf_snapshots m1))"
    using cap_total_newest [OF p2] chained_sync [OF assms(2)] assms(3) ne by simp
  then show ?thesis using same(3) ne assms(4) by (metis last_map)
qed

section \<open>A concrete run\<close>

text \<open>A codec for lists of steps: each step in unary, with a mark at its end.\<close>

definition steps_bytes :: "nat list \<Rightarrow> bytes" where
  "steps_bytes steps = 1 # concat (map (\<lambda>n. replicate n 2 @ [3]) steps)"

fun bytes_steps :: "nat \<Rightarrow> bytes \<Rightarrow> nat list" where
  "bytes_steps n [] = []"
| "bytes_steps n (b # bs) = (if b = 2 then bytes_steps (Suc n) bs else n # bytes_steps 0 bs)"

definition steps_json :: "nat list json" where
  "steps_json = \<lparr>js_to_vec = (\<lambda>steps. Inr (steps_bytes steps)), js_from_slice = (\<lambda>b. Inr (bytes_steps 0 (tl b)))\<rparr>"

lemma bytes_steps_unary: "bytes_steps k (replicate n 2 @ 3 # bs) = (k + n) # bytes_steps 0 bs"
  by (induction n arbitrary: k) simp_all

lemma steps_json_ok: "json_ok steps_json steps"
proof -
  have "bytes_steps 0 (concat (map (\<lambda>n. replicate n 2 @ [3]) steps)) = steps"
    by (induction steps) (simp_all add: bytes_steps_unary)
  moreover have "last (steps_bytes steps) \<noteq> 0"
    by (cases steps rule: rev_cases) (simp_all add: steps_bytes_def)
  ultimately show ?thesis by (simp add: json_ok_def steps_json_def) (simp add: steps_bytes_def)
qed

definition pins_ext :: ext where
  "pins_ext = sample_io_ext\<lparr>x_pins := steps_json\<rparr>"

definition pins_fs :: "nat list \<Rightarrow> local_fs" where
  "pins_fs steps = empty_fs\<lparr>fs_files := [(pins_file, steps_bytes steps)]\<rparr>"

lemma read_sample_pins: "read_pins (local_backend True 16) pins_ext (pins_fs steps) = Inr (Some steps)"
proof -
  obtain b where b: "js_to_vec steps_json steps = Inr b" "b \<noteq> []" "last b \<noteq> 0" "js_from_slice steps_json b = Inr steps"
    using steps_json_ok [of steps] by (auto simp: json_ok_def)
  then have "b = steps_bytes steps" by (simp add: steps_json_def)
  with b show ?thesis
    by (simp add: read_pins_def local_backend_def local_get_def pins_fs_def pins_ext_def)
qed

definition plain :: "uuid \<Rightarrow> nat \<Rightarrow> uuid option \<Rightarrow> snapshot" where
  "plain i step base = \<lparr>sn_id = i, sn_step = step, sn_created_at = 0, sn_ranks = [],
     sn_base_snapshot_id = base, sn_metadata = [], sn_compression = NoCompression,
     sn_finalized = True, sn_pinned = False\<rparr>"

lemma plain_simps [simp]:
  "sn_id (plain i k b) = i" "sn_step (plain i k b) = k" "sn_base_snapshot_id (plain i k b) = b"
  "sn_ranks (plain i k b) = []" "sn_finalized (plain i k b)" "\<not> sn_pinned (plain i k b)"
  "sn_id (plain i k b\<lparr>sn_pinned := p\<rparr>) = i"
  by (simp_all add: plain_def)

text \<open>A full, a delta on it, and a newer full.\<close>

definition three_snapshots :: "nat \<Rightarrow> nat \<Rightarrow> manifest" where
  "three_snapshots max_full cap = default_manifest\<lparr>
     mf_snapshots := [plain 1 10 None, plain 2 20 (Some 1), plain 3 30 None],
     mf_retention := default_retention\<lparr>rp_max_full_snapshots := max_full, rp_max_total_snapshots := Some cap\<rparr>\<rparr>"

lemma three_chained: "chained (mf_snapshots (three_snapshots max_full cap))"
  by (simp add: chained_def three_snapshots_def)

lemma persist_without_ranks:
  assumes "list_all (\<lambda>sn. sn_ranks sn = []) (mf_snapshots m)" and "fs_dirs fs = []"
    and "map_of (fs_files fs) [] = None"
  shows "fst (persist (local_backend f ps) pins_ext (fs, m)) = Inr ()"
proof -
  have none: "unwritten_ids m = []"
    using assms(1) by (auto simp: unwritten_ids_def out_of_line_def list_all_iff filter_empty_conv)
  show ?thesis
    using assms(2,3)
    by (simp add: persist_def none pins_ext_def sample_io_ext_def one_json_def serialization_def
        local_backend_def write_parts_def Let_def missing_dirs.simps existing_ancestor_def fs_is_dir_def
        fs_is_file_def parent_path_def manifest_path_def split: prod.splits)
qed

lemma retain_three:
  "retained (set_pins [20] (three_snapshots 1 9))
     = ([plain 3 30 None], [plain 1 10 None, (plain 2 20 (Some 1))\<lparr>sn_pinned := True\<rparr>])"
proof -
  let ?b = "(plain 2 20 (Some 1))\<lparr>sn_pinned := True\<rparr>"
  let ?m = "set_pins [20] (three_snapshots 1 9)"
  have sns: "mf_snapshots ?m = [plain 1 10 None, ?b, plain 3 30 None]"
    by (simp add: set_pins_def three_snapshots_def plain_def)
  have "mf_lineage ?m = default_lineage" by (simp add: set_pins_def three_snapshots_def default_manifest_def)
  then have prot: "protected_snapshot_ids ?m = [1, 2]"
    unfolding protected_snapshot_ids_def rollback_snapshot_ids_def sns by (simp add: default_lineage_def)
  have "cap_fulls [1, 2] 1 [plain 1 10 None, ?b, plain 3 30 None] = ([plain 3 30 None], [plain 1 10 None, ?b])"
    by (simp add: cap_fulls.simps full_count_def oldest_removable_def remove_snapshot_group_def remove_snapshots_def)
  moreover have "cap_total [1, 2] 9 [plain 1 10 None, ?b] = ([], [plain 1 10 None, ?b])"
    by (simp add: cap_total.simps)
  moreover have "rp_max_full_snapshots (mf_retention ?m) = 1" "effective_total_cap (mf_retention ?m) = 9"
    by (simp_all add: three_snapshots_def effective_total_cap_def)
  ultimately show ?thesis unfolding retained_def prot sns by (simp add: Let_def)
qed

text \<open>
  The first pass has no such care for the newest: with the older fulls protected, the full just
  saved is the one that goes.
\<close>

lemma cap_fulls_evicts_newest:
  "\<exists>m. chained (mf_snapshots m) \<and> sn_id (last (mf_snapshots m)) = 3 \<and> fst (retained m) = [last (mf_snapshots m)]"
proof -
  let ?m = "set_pins [20] (three_snapshots 1 9)"
  have "last (mf_snapshots ?m) = plain 3 30 None" by (simp add: set_pins_def three_snapshots_def plain_def)
  then show ?thesis using three_chained by (intro exI [of _ ?m]) (simp add: retain_three [simplified])
qed

lemma apply_retention_runs:
  assumes "sync_pins B X s m = Inr m1" and "retained m1 = (gone, kept)"
    and "fst (persist B X (s, m1\<lparr>mf_snapshots := kept\<rparr>)) = Inr ()"
  shows "\<exists>s' m'. apply_retention B X (s, m) = (Inr gone, (s', m'))"
  using assms by (cases "persist B X (s, m1\<lparr>mf_snapshots := kept\<rparr>)") (auto simp: apply_retention_def)

lemma run_retention:
  "\<exists>s' m'. apply_retention (local_backend True 16) pins_ext (pins_fs [20], three_snapshots 1 9)
     = (Inr [plain 3 30 None], (s', m'))"
proof (rule apply_retention_runs [OF _ retain_three])
  show "sync_pins (local_backend True 16) pins_ext (pins_fs [20]) (three_snapshots 1 9)
      = Inr (set_pins [20] (three_snapshots 1 9))"
    using read_sample_pins by (simp add: sync_pins_def)
qed (rule persist_without_ranks; simp add: pins_fs_def empty_fs_def pins_file_def plain_def)

theorem retention_keeps_pinned_witness:
  "\<exists>r s' m'. apply_retention (local_backend True 16) pins_ext (pins_fs [20], three_snapshots 1 9) = (r, (s', m'))
     \<and> (\<exists>kept \<in> set (mf_snapshots m'). sn_id kept = 2 \<and> sn_pinned kept)
     \<and> 1 \<in> sn_id ` set (mf_snapshots m')"
proof -
  obtain r s' m' where run: "apply_retention (local_backend True 16) pins_ext (pins_fs [20], three_snapshots 1 9) = (r, (s', m'))"
    using run_retention by blast
  have "plain 2 20 (Some 1) \<in> set (mf_snapshots (three_snapshots 1 9))" by (simp add: three_snapshots_def)
  from retention_keeps_pinned [OF run read_sample_pins three_chained this] run show ?thesis by auto
qed

theorem retention_keeps_chains_witness:
  "\<exists>s' m'. apply_retention (local_backend True 16) pins_ext (pins_fs [20], three_snapshots 1 9)
       = (Inr [plain 3 30 None], (s', m')) \<and> chained (mf_snapshots m')"
proof -
  obtain s' m' where run: "apply_retention (local_backend True 16) pins_ext (pins_fs [20], three_snapshots 1 9)
      = (Inr [plain 3 30 None], (s', m'))"
    using run_retention by blast
  with retention_keeps_chains [OF run three_chained] show ?thesis by blast
qed

theorem retention_caps_witness:
  "\<exists>s' m'. apply_retention (local_backend True 16) pins_ext (pins_fs [20], three_snapshots 1 9)
       = (Inr [plain 3 30 None], (s', m'))
     \<and> (full_count (mf_snapshots m') \<le> 1
        \<or> all_fulls_protected (protected_snapshot_ids (set_pins [20] (three_snapshots 1 9))) (mf_snapshots m'))"
proof -
  obtain s' m' where run: "apply_retention (local_backend True 16) pins_ext (pins_fs [20], three_snapshots 1 9)
      = (Inr [plain 3 30 None], (s', m'))"
    using run_retention by blast
  have "sync_pins (local_backend True 16) pins_ext (pins_fs [20]) (three_snapshots 1 9)
      = Inr (set_pins [20] (three_snapshots 1 9))"
    using read_sample_pins by (simp add: sync_pins_def)
  from retention_caps [OF run this] have "full_count (mf_snapshots m') \<le> rp_max_full_snapshots (mf_retention (three_snapshots 1 9))
      \<or> all_fulls_protected (protected_snapshot_ids (set_pins [20] (three_snapshots 1 9))) (mf_snapshots m')"
    by (rule conjunct1)
  then show ?thesis using run by (simp add: three_snapshots_def)
qed

theorem retention_keeps_newest_witness:
  "\<exists>evicted s' m'. apply_retention (local_backend True 16) pins_ext (pins_fs [], three_snapshots 2 1) = (Inr evicted, (s', m'))
     \<and> sn_id (last (filter sn_finalized (mf_snapshots m'))) = 3"
proof -
  let ?B = "local_backend True 16" and ?m = "three_snapshots 2 1"
  have sync: "sync_pins ?B pins_ext (pins_fs []) ?m = Inr (set_pins [] ?m)"
    using read_sample_pins by (simp add: sync_pins_def)
  obtain gone kept where ret: "retained (set_pins [] ?m) = (gone, kept)" by fastforce
  have "set kept \<subseteq> set (mf_snapshots (set_pins [] ?m))"
    using retained_partition [OF ret] by (metis set_mset_mset set_mset_union Un_upper2)
  then have "list_all (\<lambda>sn. sn_ranks sn = []) kept"
    by (auto simp: list_all_iff set_pins_def three_snapshots_def)
  then have "fst (persist ?B pins_ext (pins_fs [], (set_pins [] ?m)\<lparr>mf_snapshots := kept\<rparr>)) = Inr ()"
    by (intro persist_without_ranks) (simp_all add: pins_fs_def empty_fs_def pins_file_def)
  then obtain s' m' where run: "apply_retention ?B pins_ext (pins_fs [], ?m) = (Inr gone, (s', m'))"
    using apply_retention_runs [OF sync ret] by blast
  have "sn_id (last (filter sn_finalized (mf_snapshots m'))) = sn_id (last (filter sn_finalized (mf_snapshots ?m)))"
    using retention_keeps_newest [OF run sync three_chained]
    by (simp add: three_snapshots_def full_count_def)
  with run show ?thesis by (auto simp: three_snapshots_def)
qed

section \<open>Setting a pin\<close>

lemma sort_dedup_set [simp]: "set (sort_dedup steps) = set steps"
  by (simp add: sort_dedup_def)

lemma mem_new_pins: "k \<in> set (new_pins step pinned steps) \<longleftrightarrow> (if k = step then pinned else k \<in> set steps)"
  by (auto simp: new_pins_def Let_def)

lemma pins_file_other [simp]: "pins_file \<noteq> manifest_path" "pins_file \<noteq> ranks_path X i"
  by (simp_all add: pins_file_def manifest_path_def ranks_path_def)

context reliable_backend
begin

lemma read_pins_cong: "contents s pins_file = contents s' pins_file \<Longrightarrow> b_get B s pins_file = b_get B s' pins_file
    \<Longrightarrow> read_pins B X s = read_pins B X s'"
  by (simp add: read_pins_def)

lemma write_then_read_pins:
  assumes "write_pins B X steps s = (Inr u, s')" and "json_ok (x_pins X) steps"
  shows "read_pins B X s' = Inr (Some steps)"
proof -
  obtain b where b: "js_to_vec (x_pins X) steps = Inr b" "serialization (js_to_vec (x_pins X) steps) = Inr b"
      "b \<noteq> []" "last b \<noteq> 0" "js_from_slice (x_pins X) b = Inr steps"
    using assms(2) by (rule json_okE)
  then have "b_put B pins_file b s = (Inr u, s')"
    using assms(1) by (simp add: write_pins_def bind_io_def lift_io_def)
  then have "contents s' pins_file = Some (padded b)" by (auto dest: put_ok)
  moreover obtain n where "padded b = b @ replicate n 0" using padded_zeros by blast
  ultimately show ?thesis using b by (simp add: read_pins_def get_iff [THEN iffD2])
qed

end

text \<open>
  Pinning a step writes it down where every process looks: when \<^verbatim>\<open>set_pinned\<close> reports that it
  changed a snapshot, the pins file of the local store lists that step exactly if it was pinned,
  so the next retention keeps it or is free to let it go.
\<close>

theorem set_pinned_recorded:
  assumes "set_pinned (local_backend fsync ps) X step pinned (s, m) = (Inr True, (s', m'))"
    and "\<And>steps. json_ok (x_pins X) steps"
  shows "\<exists>steps. read_pins (local_backend fsync ps) X s' = Inr (Some steps) \<and> (step \<in> set steps \<longleftrightarrow> pinned)"
proof -
  obtain s1 steps where "write_pins (local_backend fsync ps) X (new_pins step pinned steps) s1 = (Inr (), s')"
    using assms(1) by (auto simp: set_pinned_def Let_def split: option.splits prod.splits sum.splits if_splits)
  then have "read_pins (local_backend fsync ps) X s' = Inr (Some (new_pins step pinned steps))"
    using assms(2) by (rule local_disk.write_then_read_pins)
  then show ?thesis by (simp add: mem_new_pins)
qed

theorem set_pinned_recorded_witness:
  "\<exists>s' m' steps. set_pinned (local_backend True 16) pins_ext 20 False (pins_fs [20], three_snapshots 2 9)
       = (Inr True, (s', m'))
     \<and> read_pins (local_backend True 16) pins_ext s' = Inr (Some steps) \<and> 20 \<notin> set steps"
proof -
  let ?B = "local_backend True 16" and ?m = "three_snapshots 2 9"
  have w: "fst (write_pins ?B pins_ext steps (pins_fs [20])) = Inr ()" for steps
    by (simp add: write_pins_def pins_ext_def steps_json_def serialization_def bind_io_def lift_io_def
        local_backend_def write_parts_def Let_def missing_dirs.simps existing_ancestor_def fs_is_dir_def
        fs_is_file_def parent_path_def pins_fs_def empty_fs_def pins_file_def)
  obtain s' where "write_pins ?B pins_ext (new_pins 20 False [20]) (pins_fs [20]) = (Inr (), s')"
    using w by (metis prod.collapse)
  then have run: "set_pinned ?B pins_ext 20 False (pins_fs [20], ?m) = (Inr True, (s', flag_snapshot 2 False ?m))"
    using read_sample_pins [of "[20]"] by (simp add: set_pinned_def three_snapshots_def)
  have "\<And>steps. json_ok (x_pins pins_ext) steps" by (simp add: pins_ext_def steps_json_ok)
  from set_pinned_recorded [OF run this] run show ?thesis by auto
qed

section \<open>Listing\<close>

record snapshot_info =
  si_id :: uuid
  si_step :: nat
  si_is_delta :: bool
  si_metadata :: metadata
  si_total_compressed :: nat
  si_total_raw :: nat
  si_skipped_tensors :: nat
  si_delta_tensors :: nat
  si_full_tensors :: nat
  si_ranks :: nat

definition snapshot_info_of :: "snapshot \<Rightarrow> snapshot_info" where
  "snapshot_info_of sn = (let rs = map snd (sn_ranks sn) in
     \<lparr>si_id = sn_id sn, si_step = sn_step sn, si_is_delta = (sn_base_snapshot_id sn \<noteq> None),
      si_metadata = sn_metadata sn,
      si_total_compressed = sum_list (map re_total_compressed rs),
      si_total_raw = sum_list (map re_total_raw rs),
      si_skipped_tensors = sum_list (map re_skipped_count rs),
      si_delta_tensors = sum_list (map re_delta_count rs),
      si_full_tensors = sum_list (map re_full_count rs),
      si_ranks = length (sn_ranks sn)\<rparr>)"

definition list_snapshots :: "manifest \<Rightarrow> snapshot_info list" where
  "list_snapshots m = map snapshot_info_of (filter sn_finalized (mf_snapshots m))"

end
