(* ===== verification/Inflight.thy ===== *)
theory Inflight
  imports Manifest
begin

text \<open>
  Which snapshots are being read and which a merge has claimed, \<^verbatim>\<open>src/src/inflight.rs\<close>: the registry
  with its guards, and the system of readers, saves, merges and retention around it as a step
  relation. The mutex makes each operation one step.
\<close>

record inflight =
  if_pinned :: "(uuid \<times> nat) list"
  if_doomed :: "uuid set"

definition empty_inflight :: inflight where
  "empty_inflight = \<lparr>if_pinned = [], if_doomed = {}\<rparr>"

definition pinned_count :: "inflight \<Rightarrow> uuid \<Rightarrow> nat" where
  "pinned_count st i = (case map_of (if_pinned st) i of None \<Rightarrow> 0 | Some n \<Rightarrow> n)"

definition any_pinned :: "inflight \<Rightarrow> uuid list \<Rightarrow> bool" where
  "any_pinned st ids = list_ex (\<lambda>i. case map_of (if_pinned st) i of None \<Rightarrow> False | Some n \<Rightarrow> 0 < n) ids"

text \<open>\<^verbatim>\<open>pin\<close>; the guard it returns is \<open>ids\<close>, and \<open>drop_pin\<close> is the guard's \<^verbatim>\<open>Drop\<close>.\<close>

definition pin :: "inflight \<Rightarrow> uuid list \<Rightarrow> inflight" where
  "pin st ids = st\<lparr>if_pinned := fold (\<lambda>i p. AList.update i ((case map_of p i of None \<Rightarrow> 0 | Some n \<Rightarrow> n) + 1) p)
     ids (if_pinned st)\<rparr>"

definition drop_pin :: "inflight \<Rightarrow> uuid list \<Rightarrow> inflight" where
  "drop_pin st ids = st\<lparr>if_pinned := fold (\<lambda>i p. case map_of p i of
       Some n \<Rightarrow> if 1 < n then AList.update i (n - 1) p else AList.delete i p
     | None \<Rightarrow> AList.delete i p) ids (if_pinned st)\<rparr>"

definition is_doomed :: "inflight \<Rightarrow> uuid \<Rightarrow> bool" where
  "is_doomed st i \<longleftrightarrow> i \<in> if_doomed st"

definition claim :: "inflight \<Rightarrow> uuid list \<Rightarrow> inflight option" where
  "claim st ids = (if any_pinned st ids then None else Some (st\<lparr>if_doomed := if_doomed st \<union> set ids\<rparr>))"

definition drop_claim :: "inflight \<Rightarrow> uuid list \<Rightarrow> inflight" where
  "drop_claim st ids = st\<lparr>if_doomed := if_doomed st - set ids\<rparr>"

text \<open>
  The wait before an unlink: \<open>seen\<close> are the states of the registry at each wake-up before the
  deadline, the present one first.
\<close>

fun wait_until_unpinned :: "inflight list \<Rightarrow> uuid list \<Rightarrow> bool" where
  "wait_until_unpinned [] ids = False"
| "wait_until_unpinned (st # seen) ids = (if any_pinned st ids then wait_until_unpinned seen ids else True)"

section \<open>Counting readers\<close>

lemma count_pin: "pinned_count (pin st ids) i = pinned_count st i + count_list ids i"
proof -
  have "(case map_of (fold (\<lambda>i p. AList.update i ((case map_of p i of None \<Rightarrow> 0 | Some n \<Rightarrow> n) + 1) p) ids p) i of
      None \<Rightarrow> 0 | Some n \<Rightarrow> n) = (case map_of p i of None \<Rightarrow> 0 | Some n \<Rightarrow> n) + count_list ids i" for p :: "(uuid \<times> nat) list"
    by (induction ids arbitrary: p) (auto simp: update_conv')
  then show ?thesis by (simp add: pinned_count_def pin_def)
qed

lemma count_drop_pin: "pinned_count (drop_pin st ids) i = pinned_count st i - count_list ids i"
proof -
  have "(case map_of (fold (\<lambda>i p. case map_of p i of
        Some n \<Rightarrow> if 1 < n then AList.update i (n - 1) p else AList.delete i p
      | None \<Rightarrow> AList.delete i p) ids p) i of None \<Rightarrow> 0 | Some n \<Rightarrow> n)
    = (case map_of p i of None \<Rightarrow> 0 | Some n \<Rightarrow> n) - count_list ids i" for p :: "(uuid \<times> nat) list"
    by (induction ids arbitrary: p) (auto simp: update_conv' delete_conv' split: option.splits)
  then show ?thesis by (simp add: pinned_count_def drop_pin_def)
qed

lemma any_pinned_iff: "any_pinned st ids \<longleftrightarrow> (\<exists>i \<in> set ids. 0 < pinned_count st i)"
  by (auto simp: any_pinned_def pinned_count_def list_ex_iff split: option.splits)

lemma pinned_count_claims [simp]:
  "claim st ids = Some st' \<Longrightarrow> pinned_count st' i = pinned_count st i"
  "pinned_count (drop_claim st ids) i = pinned_count st i"
  by (auto simp: claim_def drop_claim_def pinned_count_def split: if_splits)

lemma wait_ends_clear:
  "wait_until_unpinned seen ids \<Longrightarrow> \<exists>st \<in> set seen. \<not> any_pinned st ids"
  by (induction seen) (auto split: if_splits)

section \<open>Readers, merges and retention together\<close>

text \<open>
  \<open>ws_manifest\<close> are the ids the manifest names, \<open>ws_files\<close> those whose packs are in storage,
  \<open>ws_readers\<close> and \<open>ws_claims\<close> the guards that are alive.
\<close>

record world =
  ws_registry :: inflight
  ws_readers :: "uuid list list"
  ws_claims :: "uuid list list"
  ws_manifest :: "uuid set"
  ws_files :: "uuid set"

definition initial_world :: world where
  "initial_world = \<lparr>ws_registry = empty_inflight, ws_readers = [], ws_claims = [],
     ws_manifest = {}, ws_files = {}\<rparr>"

text \<open>
  A reader pins what it found in the manifest, under the manifest lock. A snapshot is published
  with its files. A merge or retention takes ids out of the manifest, and unlinks their files
  after \<open>wait_until_unpinned\<close> found nobody inside.
\<close>

inductive world_step :: "world \<Rightarrow> world \<Rightarrow> bool" where
  step_pin: "set ids \<subseteq> ws_manifest w \<Longrightarrow>
    world_step w (w\<lparr>ws_registry := pin (ws_registry w) ids, ws_readers := ids # ws_readers w\<rparr>)"
| step_drop_pin: "ids \<in> set (ws_readers w) \<Longrightarrow>
    world_step w (w\<lparr>ws_registry := drop_pin (ws_registry w) ids, ws_readers := remove1 ids (ws_readers w)\<rparr>)"
| step_claim: "set ids \<subseteq> ws_manifest w \<Longrightarrow> claim (ws_registry w) ids = Some reg \<Longrightarrow>
    world_step w (w\<lparr>ws_registry := reg, ws_claims := ids # ws_claims w\<rparr>)"
| step_drop_claim: "ids \<in> set (ws_claims w) \<Longrightarrow>
    world_step w (w\<lparr>ws_registry := drop_claim (ws_registry w) ids, ws_claims := remove1 ids (ws_claims w)\<rparr>)"
| step_publish: "world_step w (w\<lparr>ws_manifest := insert i (ws_manifest w), ws_files := insert i (ws_files w)\<rparr>)"
| step_remove: "world_step w (w\<lparr>ws_manifest := ws_manifest w - set ids\<rparr>)"
| step_unlink: "set ids \<inter> ws_manifest w = {} \<Longrightarrow> wait_until_unpinned [ws_registry w] ids \<Longrightarrow>
    world_step w (w\<lparr>ws_files := ws_files w - set ids\<rparr>)"

inductive_cases world_stepE: "world_step w w'"

inductive reachable_world :: "world \<Rightarrow> bool" where
  reach_initial: "reachable_world initial_world"
| reach_step: "reachable_world w \<Longrightarrow> world_step w w' \<Longrightarrow> reachable_world w'"

definition world_inv :: "world \<Rightarrow> bool" where
  "world_inv w \<longleftrightarrow> ws_manifest w \<subseteq> ws_files w
     \<and> (\<forall>g \<in> set (ws_readers w). set g \<subseteq> ws_files w)
     \<and> (\<forall>i. pinned_count (ws_registry w) i = (\<Sum>g\<leftarrow>ws_readers w. count_list g i))"

lemma sum_list_remove1:
  "g \<in> set gs \<Longrightarrow> (\<Sum>x\<leftarrow>remove1 g gs. f x) = (\<Sum>x\<leftarrow>gs. f x) - (f g :: nat)"
  by (induction gs) (auto simp: member_le_sum_list)

lemma pinned_iff_reader:
  assumes "world_inv w"
  shows "0 < pinned_count (ws_registry w) i \<longleftrightarrow> (\<exists>g \<in> set (ws_readers w). i \<in> set g)"
proof -
  have "(\<Sum>g\<leftarrow>gs. count_list g i) = 0 \<longleftrightarrow> (\<forall>g \<in> set gs. i \<notin> set g)" for gs
    by (induction gs) (auto simp: count_list_0_iff)
  with assms show ?thesis by (auto simp: world_inv_def zero_less_iff_neq_zero)
qed

lemma pinned_count_simps [simp]:
  "pinned_count (ws_registry (w\<lparr>ws_manifest := m\<rparr>)) i = pinned_count (ws_registry w) i"
  by simp

lemma world_inv_step:
  assumes inv: "world_inv w" and "world_step w w'"
  shows "world_inv w'"
  using assms(2)
proof (cases rule: world_step.cases)
  case (step_pin ids)
  with inv show ?thesis by (auto simp: world_inv_def count_pin)
next
  case (step_drop_pin ids)
  with inv show ?thesis
    by (auto simp: world_inv_def count_drop_pin sum_list_remove1 dest: notin_set_remove1 in_set_remove1)
next
  case (step_claim ids reg)
  with inv show ?thesis by (simp add: world_inv_def)
next
  case (step_drop_claim ids)
  with inv show ?thesis by (simp add: world_inv_def)
next
  case (step_publish i)
  with inv show ?thesis by (auto simp: world_inv_def)
next
  case (step_remove ids)
  with inv show ?thesis by (auto simp: world_inv_def)
next
  case (step_unlink ids)
  have "\<not> any_pinned (ws_registry w) ids" using step_unlink by (simp split: if_splits)
  then have "g \<in> set (ws_readers w) \<Longrightarrow> set g \<inter> set ids = {}" for g
    using pinned_iff_reader [OF inv] by (auto simp: any_pinned_iff)
  with inv step_unlink show ?thesis by (simp add: world_inv_def) blast
qed

lemma reachable_world_inv: "reachable_world w \<Longrightarrow> world_inv w"
proof (induction rule: reachable_world.induct)
  case reach_initial
  show ?case by (simp add: world_inv_def initial_world_def empty_inflight_def pinned_count_def)
next
  case (reach_step w w')
  then show ?case by (blast intro: world_inv_step)
qed


text \<open>
  A merge stands down exactly when somebody is reading: a claim is refused when a live guard
  holds one of the ids, and granted otherwise, so no guard is lost count of by nested or
  repeated pins.
\<close>

theorem claim_refused_iff:
  assumes "reachable_world w"
  shows "claim (ws_registry w) ids = None \<longleftrightarrow> (\<exists>g \<in> set (ws_readers w). set g \<inter> set ids \<noteq> {})"
proof -
  have "any_pinned (ws_registry w) ids \<longleftrightarrow> (\<exists>g \<in> set (ws_readers w). set g \<inter> set ids \<noteq> {})"
    unfolding any_pinned_iff pinned_iff_reader [OF reachable_world_inv [OF assms]] by blast
  then show ?thesis by (simp add: claim_def)
qed

text \<open>A reader enters, a merge takes the snapshot out of the manifest, the reader is still inside.\<close>

definition sample_world :: world where
  "sample_world = \<lparr>ws_registry = pin empty_inflight [1], ws_readers = [[1]], ws_claims = [],
     ws_manifest = {}, ws_files = {1}\<rparr>"

lemma sample_world_reachable: "reachable_world sample_world"
proof -
  let ?w1 = "initial_world\<lparr>ws_manifest := {1}, ws_files := {1}\<rparr>"
  let ?w2 = "?w1\<lparr>ws_registry := pin empty_inflight [1], ws_readers := [[1]]\<rparr>"
  have "world_step initial_world ?w1"
    using step_publish [of initial_world 1] by (simp add: initial_world_def)
  then have "reachable_world ?w1" by (rule reach_step [OF reach_initial])
  moreover have "world_step ?w1 ?w2" using step_pin [of "[1]" ?w1] by (simp add: initial_world_def)
  ultimately have "reachable_world ?w2" by (rule reach_step)
  moreover have "world_step ?w2 sample_world"
    using step_remove [of ?w2 "[1]"] by (simp add: sample_world_def initial_world_def)
  ultimately show ?thesis by (rule reach_step)
qed


theorem claim_refused_iff_witness: "claim (ws_registry sample_world) [1] = None"
  using claim_refused_iff [OF sample_world_reachable, of "[1]"] by (simp add: sample_world_def)

end
