(* ===== verification/RemoteSync.thy ===== *)
theory RemoteSync
  imports Storage ManifestIO
begin

text \<open>
  Copies of a store, \<^verbatim>\<open>src/src/remote_sync.rs\<close>: the queue of remote deletions, the walks that copy
  what the other side lacks with the manifest last, the memory budget its transfers share, and the
  worker that answers the coordinator's commands. Transfers run side by side in the code; a walk is
  modelled as it runs with one worker, and the budget on its own as a step relation. \<open>get\<close> is what
  a file reads as at the moment it is copied: it may have been deleted since it was listed.
\<close>

section \<open>Deletions\<close>

record pending_deletes =
  pq_keys :: "string list"
  pq_collecting :: bool

definition default_pending :: pending_deletes where
  "default_pending = \<lparr>pq_keys = [], pq_collecting = True\<rparr>"

definition disabled_pending :: pending_deletes where
  "disabled_pending = \<lparr>pq_keys = [], pq_collecting = False\<rparr>"

definition push_delete :: "pending_deletes \<Rightarrow> string \<Rightarrow> pending_deletes" where
  "push_delete q key = (if \<not> pq_collecting q then q else q\<lparr>pq_keys := pq_keys q @ [key]\<rparr>)"

definition drain_deletes :: "pending_deletes \<Rightarrow> string list \<times> pending_deletes" where
  "drain_deletes q = (pq_keys q, q\<lparr>pq_keys := []\<rparr>)"

text \<open>Every key is tried; the result counts those that could not be deleted.\<close>

fun delete_keys :: "'r backend \<Rightarrow> string list \<Rightarrow> 'r \<Rightarrow> nat \<times> 'r" where
  "delete_keys R [] rs = (0, rs)"
| "delete_keys R (key # keys) rs =
     (case b_delete R key rs of (r, rs1) \<Rightarrow>
       (case delete_keys R keys rs1 of (failed, rs2) \<Rightarrow> ((if is_ok r then failed else failed + 1), rs2)))"

definition apply_deletes :: "'r backend \<Rightarrow> pending_deletes \<Rightarrow> 'r \<Rightarrow> pending_deletes \<times> 'r" where
  "apply_deletes R q rs = (case drain_deletes q of (keys, q') \<Rightarrow> (q', snd (delete_keys R keys rs)))"

section \<open>Copying\<close>

record copied =
  cp_synced :: nat
  cp_skipped :: nat
  cp_vanished :: nat

definition nothing_copied :: copied where
  "nothing_copied = \<lparr>cp_synced = 0, cp_skipped = 0, cp_vanished = 0\<rparr>"

definition copy_one :: "(string \<Rightarrow> bytes result) \<Rightarrow> 't backend \<Rightarrow> string \<Rightarrow> ('t, bool) io" where
  "copy_one get T file ts =
     (case get file of
        Inr data \<Rightarrow> bind_io (b_put_exact T file data) (\<lambda>_. ret_io True) ts
      | Inl (NotFound _) \<Rightarrow> (Inr False, ts)
      | Inl e \<Rightarrow> (Inl e, ts))"

fun copy_files :: "(string \<Rightarrow> bytes result) \<Rightarrow> 't backend \<Rightarrow> string list \<Rightarrow> nat \<times> nat \<Rightarrow> ('t, nat \<times> nat) io" where
  "copy_files get T [] counts ts = (Inr counts, ts)"
| "copy_files get T (file # files) (synced, vanished) ts =
     bind_io (copy_one get T file) (\<lambda>there.
       copy_files get T files (if there then (synced + 1, vanished) else (synced, vanished + 1))) ts"

text \<open>
  What the destination has comes from one listing; when that fails each file is asked for, and one
  whose answer fails is copied.
\<close>

definition present_at :: "'t backend \<Rightarrow> 't \<Rightarrow> string \<Rightarrow> string \<Rightarrow> bool" where
  "present_at T ts pre file =
     (case b_list T ts pre of
        Inr keys \<Rightarrow> file \<in> set keys
      | Inl _ \<Rightarrow> b_exists T ts file = Inr True)"

definition copy_absent :: "(string \<Rightarrow> bytes result) \<Rightarrow> 't backend \<Rightarrow> string \<Rightarrow> string list \<Rightarrow> ('t, copied) io" where
  "copy_absent get T pre files ts =
     (let missing = filter (\<lambda>f. \<not> present_at T ts pre f) files;
          skipped = length (filter (present_at T ts pre) files)
      in bind_io (copy_files get T missing (0, 0)) (\<lambda>(synced, vanished).
           ret_io \<lparr>cp_synced = synced, cp_skipped = skipped, cp_vanished = vanished\<rparr>) ts)"

definition single_file :: "string \<Rightarrow> bool" where
  "single_file pre \<longleftrightarrow> pre \<noteq> [] \<and> CHR ''/'' \<notin> set pre \<and> CHR ''.'' \<in> set pre"

definition sync_prefix_skipping :: "'f backend \<Rightarrow> 'f \<Rightarrow> 't backend \<Rightarrow> string \<Rightarrow> string list \<Rightarrow> ('t, copied) io" where
  "sync_prefix_skipping F fs T pre skip ts =
     (if single_file pre then
        (case b_get F fs pre of
           Inr data \<Rightarrow> bind_io (b_put_exact T pre data) (\<lambda>_. ret_io nothing_copied) ts
         | Inl (NotFound _) \<Rightarrow> (Inr nothing_copied, ts)
         | Inl e \<Rightarrow> (Inl e, ts))
      else bind_io (lift_io (b_list_sized F fs pre)) (\<lambda>files.
        copy_absent (b_get F fs) T pre (filter (\<lambda>f. f \<notin> set skip) (map fst files))) ts)"

definition sync_prefix :: "'f backend \<Rightarrow> 'f \<Rightarrow> 't backend \<Rightarrow> string \<Rightarrow> ('t, copied) io" where
  "sync_prefix F fs T pre = sync_prefix_skipping F fs T pre []"

text \<open>The whole store, manifest last; a save may come between the walk (\<open>fs\<close>) and the manifest (\<open>fs'\<close>).\<close>

definition sync_store :: "'f backend \<Rightarrow> 'f \<Rightarrow> 'f \<Rightarrow> 't backend \<Rightarrow> ('t, unit) io" where
  "sync_store F fs fs' T ts =
     bind_io (sync_prefix_skipping F fs T [] [manifest_path]) (\<lambda>_.
       bind_io (sync_prefix F fs' T manifest_path) (\<lambda>_. ret_io ())) ts"

definition restore_manifest :: "'f backend \<Rightarrow> 'f \<Rightarrow> 't backend \<Rightarrow> ('t, bool) io" where
  "restore_manifest F fs T ts =
     bind_io (sync_prefix F fs T manifest_path) (\<lambda>_ ts1.
       (Inr (case b_exists T ts1 manifest_path of Inr there \<Rightarrow> there | Inl _ \<Rightarrow> False), ts1)) ts"

definition restore_from_remote :: "'f backend \<Rightarrow> 'f \<Rightarrow> 't backend \<Rightarrow> ('t, bool) io" where
  "restore_from_remote F fs T ts =
     bind_io (restore_manifest F fs T) (\<lambda>arrived.
       if \<not> arrived then ret_io False
       else bind_io (sync_prefix_skipping F fs T [] [manifest_path]) (\<lambda>_. ret_io True)) ts"

section \<open>Log level\<close>

definition is_space :: "char \<Rightarrow> bool" where
  "is_space c \<longleftrightarrow> (let n = (of_char c :: nat) in n = 32 \<or> (9 \<le> n \<and> n \<le> 13))"

definition trim_text :: "string \<Rightarrow> string" where
  "trim_text s = rev (dropWhile is_space (rev (dropWhile is_space s)))"

definition to_lower :: "char \<Rightarrow> char" where
  "to_lower c = (let n = (of_char c :: nat) in if 65 \<le> n \<and> n \<le> 90 then char_of (n + 32) else c)"

definition is_debug_level :: "string option \<Rightarrow> bool" where
  "is_debug_level value = (case value of None \<Rightarrow> False
     | Some v \<Rightarrow> map to_lower (trim_text v) = ''debug'')"

section \<open>The worker\<close>

datatype sync_command = SyncPrefix string bool | SyncAll | Shutdown_Sync

text \<open>
  What the syncer's thread does with a command: the outcome is what the caller of \<^verbatim>\<open>sync_now\<close> gets
  (a failure of a periodic sync is only logged), and the deletions follow whatever happened.
\<close>

definition run_command :: "'f backend \<Rightarrow> 'f \<Rightarrow> 't backend \<Rightarrow> sync_command
    \<Rightarrow> ('t \<times> pending_deletes, unit) io" where
  "run_command F fs T cmd st =
     (case st of (ts, q) \<Rightarrow>
       (case cmd of
          SyncPrefix pre quiet \<Rightarrow>
            (case sync_prefix F fs T pre ts of (_, ts1) \<Rightarrow>
              (case apply_deletes T q ts1 of (q', ts2) \<Rightarrow> (Inr (), (ts2, q'))))
        | SyncAll \<Rightarrow>
            (case sync_store F fs fs T ts of (r, ts1) \<Rightarrow>
              (case apply_deletes T q ts1 of (q', ts2) \<Rightarrow>
                (case r of Inr _ \<Rightarrow> (Inr (), (ts2, q')) | Inl e \<Rightarrow> (Inl (StorageErr ''Remote sync failed''), (ts2, q')))))
        | Shutdown_Sync \<Rightarrow> (Inr (), (ts, q))))"

record remote_syncer =
  rs_sender :: bool
  rs_save_counter :: nat
  rs_sync_every :: nat
  rs_queue :: "sync_command list"
  rs_dead :: bool

definition new_syncer :: "nat \<Rightarrow> remote_syncer" where
  "new_syncer every = \<lparr>rs_sender = True, rs_save_counter = 0, rs_sync_every = every, rs_queue = [], rs_dead = False\<rparr>"

text \<open>A send fails when the worker is gone (\<open>alive\<close> is whether its receiver is there).\<close>

definition notify_save :: "bool \<Rightarrow> remote_syncer \<Rightarrow> remote_syncer" where
  "notify_save alive sy =
     (if rs_sync_every sy = 0 then sy
      else let count = rs_save_counter sy + 1; sy1 = sy\<lparr>rs_save_counter := count\<rparr> in
        if count mod rs_sync_every sy = 0 \<and> rs_sender sy then
          (if alive then sy1\<lparr>rs_queue := rs_queue sy @ [SyncPrefix ''snapshots'' False, SyncPrefix manifest_path False]\<rparr>
           else sy1\<lparr>rs_dead := True\<rparr>)
        else sy1)"

definition queue_prefix :: "bool \<Rightarrow> string \<Rightarrow> remote_syncer \<Rightarrow> unit result \<times> remote_syncer" where
  "queue_prefix alive pre sy =
     (if \<not> rs_sender sy then (Inr (), sy)
      else if alive then (Inr (), sy\<lparr>rs_queue := rs_queue sy @ [SyncPrefix pre True]\<rparr>)
      else (Inl (StorageErr ''Remote sync thread is gone''), sy\<lparr>rs_dead := True\<rparr>))"

text \<open>The worker empties its queue in the order it was filled, up to a shutdown.\<close>

fun run_queue :: "'f backend \<Rightarrow> 'f \<Rightarrow> 't backend \<Rightarrow> sync_command list \<Rightarrow> 't \<times> pending_deletes \<Rightarrow> 't \<times> pending_deletes" where
  "run_queue F fs T [] st = st"
| "run_queue F fs T (cmd # cmds) st =
     (if cmd = Shutdown_Sync then st else run_queue F fs T cmds (snd (run_command F fs T cmd st)))"

text \<open>
  The forced sync waits for its answer, behind whatever was queued before it; \<open>answers\<close> is whether
  the worker lives to give one.
\<close>

definition sync_now :: "bool \<Rightarrow> bool \<Rightarrow> 'f backend \<Rightarrow> 'f \<Rightarrow> 't backend
    \<Rightarrow> remote_syncer \<times> 't \<times> pending_deletes \<Rightarrow> unit result \<times> remote_syncer \<times> 't \<times> pending_deletes" where
  "sync_now alive answers F fs T st =
     (case st of (sy, world) \<Rightarrow>
       (if \<not> rs_sender sy then (Inr (), sy, world)
        else if \<not> alive then (Inl (StorageErr ''Remote sync thread is gone''), sy\<lparr>rs_dead := True\<rparr>, world)
        else if \<not> answers then (Inl (StorageErr ''Remote sync thread stopped''), sy\<lparr>rs_dead := True\<rparr>, world)
        else (case run_command F fs T SyncAll (run_queue F fs T (rs_queue sy) world) of
          (r, world') \<Rightarrow> (r, sy\<lparr>rs_queue := []\<rparr>, world'))))"

definition sync_shutdown :: "'f backend \<Rightarrow> 'f \<Rightarrow> 't backend
    \<Rightarrow> remote_syncer \<times> 't \<times> pending_deletes \<Rightarrow> remote_syncer \<times> 't \<times> pending_deletes" where
  "sync_shutdown F fs T st =
     (case st of (sy, world) \<Rightarrow>
       (if \<not> rs_sender sy then st
        else (sy\<lparr>rs_sender := False, rs_queue := []\<rparr>, run_queue F fs T (rs_queue sy @ [Shutdown_Sync]) world)))"

section \<open>Between two stores\<close>

text \<open>
  A source whose reads and listings can be relied on and a destination that keeps the contract; a
  destination that cannot list still knows what it has.
\<close>

locale two_stores =
  src: reliable_backend F fc fpad + dst: backend_contract T tc tpad
  for F :: "'f backend" and fc :: "'f \<Rightarrow> string \<Rightarrow> bytes option" and fpad :: "bytes \<Rightarrow> bytes"
    and T :: "'t backend" and tc :: "'t \<Rightarrow> string \<Rightarrow> bytes option" and tpad :: "bytes \<Rightarrow> bytes" +
  assumes exists_sound: "b_list_sized T ts pre = Inl e \<Longrightarrow> b_exists T ts f = Inr True \<Longrightarrow> f \<in> dom (tc ts)"
begin

lemma present_dom:
  assumes "present_at T ts pre f"
  shows "f \<in> dom (tc ts)"
proof (cases "b_list_sized T ts pre")
  case (Inl e)
  with assms exists_sound show ?thesis by (simp add: present_at_def b_list_def)
next
  case (Inr ks)
  with assms dst.list_sound [OF Inr] show ?thesis by (auto simp: present_at_def b_list_def)
qed

lemma copy_one_True:
  "copy_one get T f ts = (Inr True, ts') \<Longrightarrow> \<exists>d. get f = Inr d \<and> tc ts' = (tc ts)(f \<mapsto> d)"
  by (auto simp: copy_one_def bind_io_def ret_io_def split: sum.splits prod.splits moonclip_error.splits
      dest: dst.put_exact_ok)

lemma copy_one_False:
  "copy_one get T f ts = (Inr False, ts') \<Longrightarrow> (\<exists>e. get f = Inl e) \<and> ts' = ts"
  by (auto simp: copy_one_def bind_io_def ret_io_def split: sum.splits prod.splits moonclip_error.splits)

lemma copy_one_effect:
  assumes "copy_one get T f ts = (r, ts')"
  shows "tc ts' = tc ts \<or> (\<exists>d. get f = Inr d \<and> tc ts' = (tc ts)(f \<mapsto> d))"
proof (cases "get f")
  case (Inl e)
  with assms show ?thesis by (auto simp: copy_one_def split: moonclip_error.splits)
next
  case (Inr d)
  obtain r1 ts1 where "b_put_exact T f d ts = (r1, ts1)" by fastforce
  with assms Inr show ?thesis
    by (cases r1) (auto simp: copy_one_def bind_io_def ret_io_def dest: dst.put_exact_ok dst.put_exact_err)
qed

text \<open>However a walk ends, each file is as it was or as the source has it.\<close>

lemma copy_files_effect:
  "copy_files get T files counts ts = (r, ts') \<Longrightarrow>
     tc ts' f = tc ts f \<or> (f \<in> set files \<and> (\<exists>d. get f = Inr d \<and> tc ts' f = Some d))"
proof (induction files arbitrary: counts ts)
  case (Cons x files)
  obtain synced vanished where counts: "counts = (synced, vanished)" by fastforce
  obtain r1 ts1 where one: "copy_one get T x ts = (r1, ts1)" by fastforce
  have step: "tc ts1 f = tc ts f \<or> (f = x \<and> (\<exists>d. get f = Inr d \<and> tc ts1 f = Some d))"
    using copy_one_effect [OF one] by (auto split: if_splits)
  show ?case
  proof (cases r1)
    case (Inl e)
    with Cons.prems one counts step show ?thesis by (auto simp: bind_io_def)
  next
    case (Inr there)
    with Cons.prems one counts obtain c1 where "copy_files get T files c1 ts1 = (r, ts')"
      by (auto simp: bind_io_def)
    from Cons.IH [OF this] step show ?thesis by auto
  qed
qed simp

text \<open>A walk that succeeds has copied everything it could read.\<close>

lemma copy_files_done:
  "copy_files get T files counts ts = (Inr u, ts') \<Longrightarrow> f \<in> set files \<Longrightarrow> get f = Inr d \<Longrightarrow> tc ts' f = Some d"
proof (induction files arbitrary: counts ts)
  case (Cons x files)
  obtain synced vanished where counts: "counts = (synced, vanished)" by fastforce
  obtain there ts1 where one: "copy_one get T x ts = (Inr there, ts1)"
    using Cons.prems(1) counts by (auto simp: bind_io_Inr_iff)
  with Cons.prems(1) counts obtain c1 where rest: "copy_files get T files c1 ts1 = (Inr u, ts')"
    by (auto simp: bind_io_def)
  show ?case
  proof (cases "f \<in> set files")
    case True
    with Cons.IH [OF rest] Cons.prems(3) show ?thesis by simp
  next
    case False
    with Cons.prems(2) have "f = x" by simp
    with one Cons.prems(3) have "tc ts1 f = Some d"
      by (cases there) (auto dest: copy_one_True copy_one_False)
    with copy_files_effect [OF rest, of f] False show ?thesis by simp
  qed
qed simp

lemma copy_absent_effect:
  "copy_absent get T pre files ts = (r, ts') \<Longrightarrow>
     tc ts' f = tc ts f \<or> (f \<in> set files \<and> \<not> present_at T ts pre f \<and> (\<exists>d. get f = Inr d \<and> tc ts' f = Some d))"
  using copy_files_effect [of get "filter (\<lambda>f. \<not> present_at T ts pre f) files" "(0, 0)" ts _ ts' f]
  by (auto simp: copy_absent_def Let_def bind_io_def ret_io_def split: prod.splits sum.splits)

lemma copy_absent_done:
  assumes "copy_absent get T pre files ts = (Inr u, ts')" and "f \<in> set files" and "get f = Inr d"
  shows "f \<in> dom (tc ts') \<and> (tc ts f = None \<longrightarrow> tc ts' f = Some d)"
proof (cases "present_at T ts pre f")
  case True
  then have "f \<in> dom (tc ts)" by (rule present_dom)
  with copy_absent_effect [OF assms(1), of f] show ?thesis by (auto simp: dom_def)
next
  case False
  with assms(2) have "f \<in> set (filter (\<lambda>f. \<not> present_at T ts pre f) files)" by simp
  moreover obtain c ts'' where "copy_files get T (filter (\<lambda>f. \<not> present_at T ts pre f) files) (0, 0) ts = (Inr c, ts')"
    using assms(1) by (auto simp: copy_absent_def Let_def bind_io_Inr_iff ret_io_def split: prod.splits)
  ultimately have "tc ts' f = Some d" using assms(3) by (intro copy_files_done)
  then show ?thesis by auto
qed

lemma not_single_Nil [simp]: "\<not> single_file []"
  by (simp add: single_file_def)

lemma single_manifest [simp]: "single_file manifest_path"
  by (simp add: single_file_def manifest_path_def)

lemma walk_effect:
  assumes "sync_prefix_skipping F fs T [] skip ts = (r, ts')"
  shows "tc ts' f = tc ts f \<or> (f \<notin> set skip \<and> tc ts' f = fc fs f)"
proof (cases "b_list_sized F fs []")
  case (Inl e)
  with assms show ?thesis by (simp add: sync_prefix_skipping_def bind_io_def lift_io_def)
next
  case (Inr ks)
  then have "copy_absent (b_get F fs) T [] (filter (\<lambda>f. f \<notin> set skip) (map fst ks)) ts = (r, ts')"
    using assms by (simp add: sync_prefix_skipping_def bind_io_def lift_io_def)
  from copy_absent_effect [OF this, of f] src.get_iff [of fs f] show ?thesis by auto
qed

lemma walk_keeps_skipped:
  "sync_prefix_skipping F fs T [] skip ts = (r, ts') \<Longrightarrow> f \<in> set skip \<Longrightarrow> tc ts' f = tc ts f"
  using walk_effect [of fs skip ts r ts' f] by auto

lemma walk_done:
  assumes "sync_prefix_skipping F fs T [] skip ts = (Inr u, ts')"
    and "b_list_sized F fs [] = Inr ks" and "f \<in> fst ` set ks" and "f \<notin> set skip"
  shows "f \<in> dom (tc ts') \<and> (tc ts f = None \<longrightarrow> tc ts' f = fc fs f)"
proof -
  obtain d where d: "fc fs f = Some d" using src.list_sound [OF assms(2)] assms(3) by blast
  then have "b_get F fs f = Inr d" by (rule src.get_complete)
  moreover have "copy_absent (b_get F fs) T [] (filter (\<lambda>f. f \<notin> set skip) (map fst ks)) ts = (Inr u, ts')"
    using assms(1,2) by (simp add: sync_prefix_skipping_def bind_io_def lift_io_def)
  ultimately show ?thesis using copy_absent_done assms(3,4) d by fastforce
qed

lemma sync_manifest:
  assumes "sync_prefix F fs T manifest_path ts = (r, ts')"
  shows "(tc ts' = tc ts \<or> (\<exists>d. fc fs manifest_path = Some d \<and> tc ts' = (tc ts)(manifest_path \<mapsto> d)))
    \<and> (is_ok r \<longrightarrow> fc fs manifest_path \<noteq> None \<longrightarrow> tc ts' manifest_path = fc fs manifest_path)"
proof (cases "b_get F fs manifest_path")
  case (Inl e)
  with assms src.get_iff [of fs manifest_path] show ?thesis
    by (auto simp: sync_prefix_def sync_prefix_skipping_def split: moonclip_error.splits)
next
  case (Inr d)
  then have "fc fs manifest_path = Some d" by (rule src.get_sound)
  with assms Inr show ?thesis
    by (cases "b_put_exact T manifest_path d ts"; cases "fst (b_put_exact T manifest_path d ts)")
      (auto simp: sync_prefix_def sync_prefix_skipping_def bind_io_def ret_io_def
        dest: dst.put_exact_ok dst.put_exact_err)
qed

lemma sync_store_cases:
  assumes "sync_store F fs fs' T ts = (r, ts')"
  obtains "\<not> is_ok r" "tc ts' manifest_path = tc ts manifest_path"
  | u ts1 r1 where "sync_prefix_skipping F fs T [] [manifest_path] ts = (Inr u, ts1)"
      "sync_prefix F fs' T manifest_path ts1 = (r1, ts')" "is_ok r1 = is_ok r"
proof -
  obtain r0 ts1 where walk: "sync_prefix_skipping F fs T [] [manifest_path] ts = (r0, ts1)" by fastforce
  show thesis
  proof (cases r0)
    case (Inl e)
    with assms walk have "r = Inl e" "ts' = ts1" by (simp_all add: sync_store_def bind_io_def)
    with that(1) walk_keeps_skipped [OF walk] show thesis by simp
  next
    case (Inr u)
    obtain r1 ts2 where "sync_prefix F fs' T manifest_path ts1 = (r1, ts2)" by fastforce
    with that(2) walk Inr assms show thesis
      by (cases r1) (auto simp: sync_store_def bind_io_def ret_io_def)
  qed
qed

text \<open>However a full sync ends, a manifest that changed at the destination has its files there.\<close>

lemma sync_ordered:
  assumes "sync_store F fs fs' T ts = (r, ts')" and "b_list_sized F fs [] = Inr ks"
    and "tc ts' manifest_path \<noteq> tc ts manifest_path"
    and "f \<in> fst ` set ks" and "f \<noteq> manifest_path"
  shows "f \<in> dom (tc ts')"
  using assms(1)
proof (cases rule: sync_store_cases)
  case 1
  with assms(3) show ?thesis by simp
next
  case (2 u ts1 r1)
  have "f \<in> dom (tc ts1)" using walk_done [OF 2(1) assms(2,4)] assms(5) by simp
  then show ?thesis using sync_manifest [OF 2(2)] assms(5) by auto
qed

lemma sync_done:
  assumes "sync_store F fs fs' T ts = (Inr u, ts')" and "b_list_sized F fs [] = Inr ks"
    and "f \<in> fst ` set ks" and "f \<noteq> manifest_path"
    and "\<And>d. tc ts f = Some d \<Longrightarrow> fc fs f = Some d"
  shows "tc ts' f = fc fs f"
  using assms(1)
proof (cases rule: sync_store_cases)
  case (2 u ts1 r1)
  have "f \<in> dom (tc ts1)" "tc ts f = None \<longrightarrow> tc ts1 f = fc fs f"
    using walk_done [OF 2(1) assms(2,3)] assms(4) by auto
  moreover have "tc ts1 f = tc ts f \<or> tc ts1 f = fc fs f" using walk_effect [OF 2(1), of f] by auto
  ultimately have "tc ts1 f = fc fs f" using assms(5) by (cases "tc ts f") auto
  then show ?thesis using sync_manifest [OF 2(2)] assms(4) by auto
qed simp

lemma sync_done_manifest:
  assumes "sync_store F fs fs' T ts = (Inr u, ts')" and "fc fs' manifest_path = Some d"
  shows "tc ts' manifest_path = Some d"
  using assms(1)
proof (cases rule: sync_store_cases)
  case (2 u ts1 r1)
  then show ?thesis using sync_manifest [OF 2(2)] assms(2) by simp
qed simp

end

context two_stores
begin

lemma restore_done:
  assumes "restore_from_remote F fs T ts = (Inr True, ts')" and "b_list_sized F fs [] = Inr ks"
    and "f \<in> fst ` set ks" and "tc ts f = None"
  shows "tc ts' f = fc fs f"
proof -
  obtain ts1 where m: "restore_manifest F fs T ts = (Inr True, ts1)"
    and w: "bind_io (sync_prefix_skipping F fs T [] [manifest_path]) (\<lambda>_. ret_io True) ts1 = (Inr True, ts')"
    using assms(1) by (auto simp: restore_from_remote_def bind_io_Inr_iff ret_io_def split: if_splits)
  obtain u where walk: "sync_prefix_skipping F fs T [] [manifest_path] ts1 = (Inr u, ts')"
    using w by (auto simp: bind_io_Inr_iff ret_io_def)
  obtain u0 where sm: "sync_prefix F fs T manifest_path ts = (Inr u0, ts1)"
    using m by (auto simp: restore_manifest_def bind_io_Inr_iff)
  obtain d where d: "fc fs f = Some d" using src.list_sound [OF assms(2)] assms(3) by blast
  show ?thesis
  proof (cases "f = manifest_path")
    case True
    have "tc ts1 manifest_path = fc fs manifest_path" using sync_manifest [OF sm] d True by simp
    then show ?thesis using walk_keeps_skipped [OF walk, of f] True by simp
  next
    case False
    have "tc ts1 f = None" using sync_manifest [OF sm] False assms(4) by auto
    with walk_done [OF walk assms(2,3)] False show ?thesis by simp
  qed
qed

end

interpretation local_stores: two_stores "local_backend f1 p1" fs_contents "pad_to_page p1"
    "local_backend f2 p2" fs_contents "pad_to_page p2"
  by unfold_locales (auto simp: local_backend_def local_list_sized_def split: if_splits)

lemma local_lists: "b_list_sized (local_backend f p) fs [] =
    Inr (map (\<lambda>(p, data). (p, Some (length data))) (filter (\<lambda>(p, data). \<not> is_partial (file_name p)) (fs_files fs)))"
  by (simp add: local_backend_def local_list_sized_def fs_is_dir_def under_prefix_def case_prod_unfold)

lemma local_listed:
  assumes "fs_contents fs f = Some d" and "\<not> is_partial (file_name f)" and "b_list_sized (local_backend b p) fs [] = Inr ks"
  shows "f \<in> fst ` set ks"
proof -
  have "(f, d) \<in> set (fs_files fs)" using assms(1) by (simp add: fs_contents_def map_of_SomeD)
  then show ?thesis using assms(2,3) by (force simp: local_lists)
qed



section \<open>Two concrete stores\<close>

definition pair_store :: local_fs where
  "pair_store = empty_fs\<lparr>fs_files := [(''snapshots/a'', [1]), (manifest_path, [2])], fs_dirs := [''snapshots'']\<rparr>"

text \<open>A destination in which no directory \<open>snapshots\<close> can be made.\<close>

definition blocked_store :: local_fs where
  "blocked_store = empty_fs\<lparr>fs_files := [(''snapshots'', [])]\<rparr>"

lemmas run_sync = sync_store_def sync_prefix_def sync_prefix_skipping_def single_file_def copy_absent_def
  copy_one_def present_at_def b_list_def bind_io_def lift_io_def ret_io_def local_backend_def local_get_def
  local_list_sized_def local_exists_def write_parts_def rename_over_def missing_dirs.simps existing_ancestor_def
  fs_is_dir_def fs_is_file_def parent_path_def under_prefix_def is_partial_def partial_prefix_def file_name_def
  empty_fs_def manifest_path_def Let_def

lemma run_sync_store:
  "\<exists>ts'. sync_store (local_backend False 0) pair_store pair_store (local_backend False 0) empty_fs = (Inr (), ts')
     \<and> fs_contents ts' manifest_path = Some [2]"
proof -
  have "fst (sync_store (local_backend False 0) pair_store pair_store (local_backend False 0) empty_fs) = Inr ()"
    by (simp add: run_sync pair_store_def)
  then obtain ts' where ts: "sync_store (local_backend False 0) pair_store pair_store (local_backend False 0) empty_fs = (Inr (), ts')"
    by (metis prod.collapse)
  moreover have "fs_contents pair_store manifest_path = Some [2]"
    by (simp add: pair_store_def fs_contents_def manifest_path_def)
  ultimately show ?thesis using local_stores.sync_done_manifest [OF ts] by blast
qed



text \<open>
  The periodic sync queues the same two walks as two commands, and the second runs whatever became
  of the first: here the snapshots cannot be copied and the manifest that names them goes up.
\<close>

lemma periodic_runs_ahead:
  "\<exists>ts q. snd (run_command (local_backend False 0) pair_store (local_backend False 0) (SyncPrefix manifest_path False)
        (snd (run_command (local_backend False 0) pair_store (local_backend False 0) (SyncPrefix ''snapshots'' False)
          (blocked_store, default_pending)))) = (ts, q)
     \<and> fs_contents ts manifest_path = Some [2] \<and> fs_contents ts ''snapshots/a'' = None"
  by (simp add: run_command_def apply_deletes_def drain_deletes_def default_pending_def run_sync
      pair_store_def blocked_store_def fs_contents_def image_iff)

text \<open>The forced sync stops where the periodic one goes on.\<close>

lemma forced_sync_stops:
  "\<not> is_ok (fst (sync_store (local_backend False 0) pair_store pair_store (local_backend False 0) blocked_store))"
  by (auto simp: run_sync pair_store_def blocked_store_def)

section \<open>The memory budget\<close>

text \<open>\<open>bg_held\<close> are the guards that are alive; \<open>take\<close> waits until its guard condition holds.\<close>

record budget =
  bg_limit :: nat
  bg_used :: nat
  bg_held :: "nat list"

definition new_budget :: "nat \<Rightarrow> budget" where
  "new_budget limit = \<lparr>bg_limit = limit, bg_used = 0, bg_held = []\<rparr>"

definition must_wait :: "budget \<Rightarrow> nat \<Rightarrow> bool" where
  "must_wait b n \<longleftrightarrow> 0 < bg_used b \<and> bg_limit b < bg_used b + min n (bg_limit b)"

definition budget_take :: "budget \<Rightarrow> nat \<Rightarrow> budget option" where
  "budget_take b n = (if must_wait b n then None
     else Some (b\<lparr>bg_used := bg_used b + min n (bg_limit b), bg_held := min n (bg_limit b) # bg_held b\<rparr>))"

definition budget_drop :: "budget \<Rightarrow> nat \<Rightarrow> budget" where
  "budget_drop b n = b\<lparr>bg_used := bg_used b - n, bg_held := remove1 n (bg_held b)\<rparr>"

inductive budget_reachable :: "nat \<Rightarrow> budget \<Rightarrow> bool" for limit where
  budget_new: "budget_reachable limit (new_budget limit)"
| budget_taken: "budget_reachable limit b \<Longrightarrow> budget_take b n = Some b' \<Longrightarrow> budget_reachable limit b'"
| budget_dropped: "budget_reachable limit b \<Longrightarrow> n \<in> set (bg_held b) \<Longrightarrow> budget_reachable limit (budget_drop b n)"

lemma sum_remove1: "n \<in> set ns \<Longrightarrow> sum_list (remove1 n ns) = sum_list ns - (n :: nat)"
  using sum_list_map_remove1 [of n ns "\<lambda>n. n"] by simp

text \<open>
  The transfers together never hold more than the budget: in every state they can reach, what
  is held is counted exactly and within the limit; and none waits for ever on nobody, since with
  nothing held any request goes through, one larger than the whole budget included.
\<close>

theorem budget_bounded:
  assumes "budget_reachable limit b"
  shows "bg_used b = sum_list (bg_held b) \<and> bg_used b \<le> limit
    \<and> (bg_held b = [] \<longrightarrow> (\<forall>n. budget_take b n \<noteq> None))"
proof -
  have "bg_limit b = limit \<and> bg_used b = sum_list (bg_held b) \<and> bg_used b \<le> limit"
    using assms
  proof (induction rule: budget_reachable.induct)
    case budget_new
    show ?case by (simp add: new_budget_def)
  next
    case (budget_taken b n b')
    then have "bg_used b = 0 \<or> bg_used b + min n (bg_limit b) \<le> bg_limit b"
      by (auto simp: budget_take_def must_wait_def split: if_splits)
    then have "bg_used b + min n (bg_limit b) \<le> bg_limit b" by (auto simp: min_def)
    with budget_taken show ?case by (auto simp: budget_take_def split: if_splits)
  next
    case (budget_dropped b n)
    then show ?case by (auto simp: budget_drop_def sum_remove1)
  qed
  then show ?thesis by (auto simp: budget_take_def must_wait_def)
qed

theorem budget_bounded_witness:
  "\<exists>b. budget_take (new_budget 10) 25 = Some b \<and> bg_used b = sum_list (bg_held b) \<and> bg_used b \<le> 10"
proof -
  obtain b where b: "budget_take (new_budget 10) 25 = Some b"
    by (simp add: budget_take_def must_wait_def new_budget_def)
  then have "budget_reachable 10 b" by (rule budget_taken [OF budget_new])
  from budget_bounded [OF this] b show ?thesis by blast
qed

end
