(* ===== verification/Merger.thy ===== *)
theory Merger
  imports LoadRank Retention Inflight RemoteSync
begin

text \<open>
  The background merger, \<^verbatim>\<open>src/src/merger.rs\<close>: the stride merge that thins the deltas of a base, the
  full merge that folds a base and its deltas into a new full snapshot, the unlinking of what was
  dropped, and the thread that does both on demand. The coordinator and the merger share the state
  \<open>shared\<close>. What other threads do to it while the merger does not hold the manifest lock is an
  argument of the operation.
\<close>

section \<open>Shared state\<close>

record 's shared =
  sh_store :: 's
  sh_manifest :: manifest
  sh_in_flight :: inflight
  sh_deletes :: pending_deletes

section \<open>Unlinking\<close>

text \<open>A file that cannot be deleted is left; its remote copy is queued all the same.\<close>

definition unlink_file :: "'s backend \<Rightarrow> string \<Rightarrow> 's \<times> pending_deletes \<Rightarrow> 's \<times> pending_deletes" where
  "unlink_file B path st = (case st of (s, q) \<Rightarrow> (snd (b_delete B path s), push_delete q path))"

definition rank_files :: "rank_entry \<Rightarrow> string list" where
  "rank_files re =
     (case re_pack_file re of Some pack_file \<Rightarrow> [pack_file] | None \<Rightarrow> [])
     @ List.map_filter te_filename (re_tensors re)"

definition snapshot_files :: "snapshot \<Rightarrow> string list" where
  "snapshot_files sn = concat (map (rank_files \<circ> snd) (sn_ranks sn))"

definition unlink_snapshot :: "'s backend \<Rightarrow> ext \<Rightarrow> snapshot \<Rightarrow> 's \<times> pending_deletes \<Rightarrow> 's \<times> pending_deletes" where
  "unlink_snapshot B X sn st =
     (case fold (unlink_file B) (snapshot_files sn) st of (s1, q1) \<Rightarrow>
       (let ranks = ranks_path X (sn_id sn);
            (s2, q2) = (if b_exists B s1 ranks = Inr True then unlink_file B ranks (s1, q1) else (s1, q1))
        in (snd (b_remove_dir B (snapshot_dir X (sn_id sn)) s2), q2)))"

text \<open>
  Nothing is unlinked while a reader is inside: \<open>seen\<close> are the states of the registry the wait
  wakes up to, after the present one.
\<close>

definition unlink_snapshots :: "'s backend \<Rightarrow> ext \<Rightarrow> inflight list \<Rightarrow> snapshot list \<Rightarrow> 's shared \<Rightarrow> 's shared" where
  "unlink_snapshots B X seen doomed st =
     (if doomed = [] then st
      else if \<not> wait_until_unpinned (sh_in_flight st # seen) (map sn_id doomed) then st
      else case fold (unlink_snapshot B X) doomed (sh_store st, sh_deletes st) of
        (s', q') \<Rightarrow> st\<lparr>sh_store := s', sh_deletes := q'\<rparr>)"

section \<open>Reading what is merged\<close>

definition load_compressed_data :: "'s backend \<Rightarrow> 's \<Rightarrow> snapshot \<Rightarrow> nat \<Rightarrow> tensor_entry \<Rightarrow> bytes result" where
  "load_compressed_data B s snap rank entry =
     (case te_filename entry of
        Some filename \<Rightarrow> bind_res (b_get B s filename) (\<lambda>data.
          Inr (if 0 < te_compressed_size entry \<and> te_compressed_size entry < length data
               then take (te_compressed_size entry) data else data))
      | None \<Rightarrow>
          (case map_of (sn_ranks snap) rank of
             None \<Rightarrow> Inl (NotFound ''No data found for tensor'')
           | Some re \<Rightarrow>
               (case re_pack_file re of
                  None \<Rightarrow> Inl (NotFound ''No data found for tensor'')
                | Some pack_file \<Rightarrow>
                    bind_res (b_get_range B s pack_file (te_offset entry) (te_compressed_size entry)) (\<lambda>data.
                      if length data = te_compressed_size entry then Inr data
                      else Inl (NotFound ''No data found for tensor'')))))"

definition load_tensor_data :: "'s backend \<Rightarrow> ext \<Rightarrow> 's \<Rightarrow> compression_algo \<Rightarrow> snapshot \<Rightarrow> nat \<Rightarrow> tensor_entry
    \<Rightarrow> bytes result" where
  "load_tensor_data B X s algo snap rank entry =
     (if te_storage entry = Full
      then bind_res (load_compressed_data B s snap rank entry) (\<lambda>compressed.
             decompress (x_zstd X) compressed algo)
      else Inl (DeltaErr ''Merger can only process Full tensors''))"

text \<open>At most eight entries along a chain of aliases in the base.\<close>

fun base_hops :: "nat \<Rightarrow> 's backend \<Rightarrow> ext \<Rightarrow> 's \<Rightarrow> compression_algo \<Rightarrow> snapshot \<Rightarrow> nat \<Rightarrow> rank_entry \<Rightarrow> string
    \<Rightarrow> bytes result" where
  "base_hops 0 B X s algo base_snap rank base_rank current = Inl (DeltaErr ''Alias chain does not end'')"
| "base_hops (Suc n) B X s algo base_snap rank base_rank current =
     bind_res (ok_or (find (\<lambda>t. te_name t = current) (re_tensors base_rank))
                 (NotFound ''Tensor is not in base snapshot'')) (\<lambda>entry.
       if te_storage entry = Alias
       then bind_res (ok_or (te_alias_of entry) (NotFound ''Alias has no target''))
              (base_hops n B X s algo base_snap rank base_rank)
       else load_tensor_data B X s algo base_snap rank entry)"

definition base_tensor_data :: "'s backend \<Rightarrow> ext \<Rightarrow> 's \<Rightarrow> compression_algo \<Rightarrow> snapshot \<Rightarrow> nat \<Rightarrow> string
    \<Rightarrow> bytes result" where
  "base_tensor_data B X s algo base_snap rank name =
     bind_res (ok_or (map_of (sn_ranks base_snap) rank) (NotFound ''Rank is not in base snapshot''))
       (\<lambda>base_rank. base_hops 8 B X s algo base_snap rank base_rank name)"

section \<open>One merged rank\<close>

text \<open>What a tensor holds now, whichever way it is stored.\<close>

definition current_data :: "'s backend \<Rightarrow> ext \<Rightarrow> 's \<Rightarrow> compression_algo \<Rightarrow> snapshot \<Rightarrow> snapshot \<Rightarrow> nat
    \<Rightarrow> tensor_entry \<Rightarrow> bytes result" where
  "current_data B X s algo base_snap source_snap rank entry =
     (case te_storage entry of
        Full \<Rightarrow> load_tensor_data B X s algo source_snap rank entry
      | Skipped \<Rightarrow> base_tensor_data B X s algo base_snap rank (te_name entry)
      | DeltaXor \<Rightarrow>
          bind_res (base_tensor_data B X s algo base_snap rank (te_name entry)) (\<lambda>base_raw.
          bind_res (load_compressed_data B s source_snap rank entry) (\<lambda>compressed.
          bind_res (decompress (x_zstd X) compressed algo) (\<lambda>decompressed.
            let delta_bytes = (if te_shuffled entry
                  then unshuffle decompressed (element_size (te_dtype entry)) else decompressed)
            in apply_delta base_raw delta_bytes)))
      | Alias \<Rightarrow> Inl (DeltaErr ''unreachable''))"

record merged_rank =
  mr_tensors :: "tensor_entry list"
  mr_blobs :: "bytes list"
  mr_offset :: nat
  mr_total_compressed :: nat
  mr_total_raw :: nat

definition merged_entry :: "ext \<Rightarrow> tensor_entry \<Rightarrow> nat \<Rightarrow> bytes \<Rightarrow> bytes \<Rightarrow> tensor_entry" where
  "merged_entry X entry offset raw compressed =
     \<lparr>te_name = te_name entry, te_shape = te_shape entry, te_dtype = te_dtype entry,
      te_original_dtype = te_original_dtype entry, te_quant_scale = te_quant_scale entry,
      te_storage = Full, te_alias_of = None, te_filename = None, te_offset = offset,
      te_compressed_size = length compressed, te_raw_size = length raw, te_hash_raw = hash_hex X raw,
      te_hash_compressed = Some (hash_hex X compressed), te_shuffled = False\<rparr>"

definition merge_tensor :: "'s backend \<Rightarrow> ext \<Rightarrow> 's \<Rightarrow> compression_algo \<Rightarrow> snapshot \<Rightarrow> snapshot \<Rightarrow> nat
    \<Rightarrow> tensor_entry \<Rightarrow> merged_rank \<Rightarrow> merged_rank result" where
  "merge_tensor B X s algo base_snap source_snap rank entry acc =
     (if te_storage entry = Alias
      then Inr (acc\<lparr>mr_total_raw := mr_total_raw acc + te_raw_size entry,
                    mr_tensors := mr_tensors acc @ [entry]\<rparr>)
      else bind_res (current_data B X s algo base_snap source_snap rank entry) (\<lambda>raw.
           bind_res (compress (x_zstd X) raw algo) (\<lambda>compressed.
             Inr \<lparr>mr_tensors = mr_tensors acc @ [merged_entry X entry (mr_offset acc) raw compressed],
                  mr_blobs = mr_blobs acc @ [compressed],
                  mr_offset = mr_offset acc + length compressed,
                  mr_total_compressed = mr_total_compressed acc + length compressed,
                  mr_total_raw = mr_total_raw acc + length raw\<rparr>)))"

fun merge_tensors :: "'s backend \<Rightarrow> ext \<Rightarrow> 's \<Rightarrow> compression_algo \<Rightarrow> snapshot \<Rightarrow> snapshot \<Rightarrow> nat
    \<Rightarrow> tensor_entry list \<Rightarrow> merged_rank \<Rightarrow> merged_rank result" where
  "merge_tensors B X s algo base_snap source_snap rank [] acc = Inr acc"
| "merge_tensors B X s algo base_snap source_snap rank (entry # entries) acc =
     bind_res (merge_tensor B X s algo base_snap source_snap rank entry acc)
       (merge_tensors B X s algo base_snap source_snap rank entries)"

definition no_tensors :: merged_rank where
  "no_tensors = \<lparr>mr_tensors = [], mr_blobs = [], mr_offset = header_len, mr_total_compressed = 0, mr_total_raw = 0\<rparr>"

definition merged_rank_entry :: "nat \<Rightarrow> string \<Rightarrow> merged_rank \<Rightarrow> rank_entry" where
  "merged_rank_entry rank pack_file mr =
     (let alias_count = count_storage [Alias] (mr_tensors mr) in
      \<lparr>re_rank = rank, re_tensors = mr_tensors mr, re_pack_file = Some pack_file,
       re_total_compressed = mr_total_compressed mr, re_total_raw = mr_total_raw mr,
       re_skipped_count = alias_count, re_delta_count = 0,
       re_full_count = length (mr_tensors mr) - alias_count\<rparr>)"

text \<open>What is fixed before the first rank is merged.\<close>

record merge_plan =
  mp_base :: snapshot
  mp_deltas :: "snapshot list"
  mp_id :: uuid
  mp_created_at :: timestamp

definition last_delta :: "merge_plan \<Rightarrow> snapshot" where
  "last_delta p = last (mp_deltas p)"

definition merged_metadata :: "merge_plan \<Rightarrow> metadata" where
  "merged_metadata p = AList.update ''merged_deltas'' (nat_str (length (mp_deltas p)))
     (AList.update ''full_merge'' ''true'' (sn_metadata (last_delta p)))"

definition merged_rank_ids :: "merge_plan \<Rightarrow> nat list" where
  "merged_rank_ids p = sort_dedup (map fst (sn_ranks (mp_base p)) @ map fst (sn_ranks (last_delta p)))"

definition source_snapshot :: "merge_plan \<Rightarrow> nat \<Rightarrow> snapshot" where
  "source_snapshot p rank =
     (if map_of (sn_ranks (last_delta p)) rank \<noteq> None then last_delta p else mp_base p)"

definition merged_descriptor :: "merge_plan \<Rightarrow> compression_algo \<Rightarrow> rank_entry \<Rightarrow> pack_descriptor" where
  "merged_descriptor p algo re =
     \<lparr>pd_snapshot_id = mp_id p, pd_step = sn_step (last_delta p), pd_created_at = mp_created_at p,
      pd_base_snapshot_id = None, pd_metadata = merged_metadata p, pd_compression = algo,
      pd_world_size = length (merged_rank_ids p), pd_rank = re\<rparr>"

definition merge_rank :: "'s backend \<Rightarrow> ext \<Rightarrow> compression_algo \<Rightarrow> merge_plan \<Rightarrow> nat \<Rightarrow> rank_entry
    \<Rightarrow> ('s, rank_entry) io" where
  "merge_rank B X algo p rank source s =
     (case merge_tensors B X s algo (mp_base p) (source_snapshot p rank) rank (re_tensors source) no_tensors of
        Inl e \<Rightarrow> (Inl e, s)
      | Inr mr \<Rightarrow>
          let pack_file = rank_pack_path (snapshot_dir X (mp_id p)) rank;
              re = merged_rank_entry rank pack_file mr
          in (case serialization (js_to_vec (x_descriptor X) (merged_descriptor p algo re)) of
                Inl e \<Rightarrow> (Inl e, s)
              | Inr encoded \<Rightarrow>
                  bind_io (b_put_parts B pack_file
                      (encode_header (of_nat (mr_offset mr)) (of_nat (length encoded)) # mr_blobs mr @ [encoded]))
                    (\<lambda>_. ret_io re) s))"

fun merge_ranks :: "'s backend \<Rightarrow> ext \<Rightarrow> compression_algo \<Rightarrow> merge_plan \<Rightarrow> nat list
    \<Rightarrow> ('s, (nat \<times> rank_entry) list) io" where
  "merge_ranks B X algo p [] s = (Inr [], s)"
| "merge_ranks B X algo p (rank # ranks) s =
     (case map_of (sn_ranks (source_snapshot p rank)) rank of
        None \<Rightarrow> merge_ranks B X algo p ranks s
      | Some source \<Rightarrow>
          bind_io (merge_rank B X algo p rank source) (\<lambda>re.
            bind_io (merge_ranks B X algo p ranks) (\<lambda>rest. ret_io ((rank, re) # rest))) s)"

section \<open>The full merge\<close>

datatype merge_outcome = Merged | NothingToMerge | Busy

text \<open>
  What the environment brings to a merge: the new id and the clock, what other threads do between
  the claim and the publication, and the registry while the unlink waits. \<open>me_before\<close> is what they
  do while a forced merge waits for its turn.
\<close>

record 's merge_env =
  me_id :: uuid
  me_now :: timestamp
  me_before :: "'s shared \<Rightarrow> 's shared"
  me_meanwhile :: "'s shared \<Rightarrow> 's shared"
  me_seen :: "inflight list"

text \<open>What is to be folded, decided and claimed under the manifest lock.\<close>

definition plan_merge :: "manifest \<Rightarrow> inflight \<Rightarrow> (merge_outcome + snapshot \<times> snapshot list \<times> inflight) result" where
  "plan_merge m reg =
     bind_res (ok_or (last_full_snapshot m) (NotFound ''No full snapshot'')) (\<lambda>base_snap.
       let base_id = sn_id base_snap;
           deltas = filter (\<lambda>s. sn_base_snapshot_id s = Some base_id \<and> sn_finalized s) (mf_snapshots m)
       in if deltas = [] then Inr (Inl NothingToMerge)
          else if list_ex (\<lambda>s. sn_base_snapshot_id s = Some base_id \<and> \<not> sn_finalized s) (mf_snapshots m)
          then Inr (Inl Busy)
          else case claim reg (base_id # map sn_id deltas) of
            None \<Rightarrow> Inr (Inl Busy)
          | Some reg' \<Rightarrow> Inr (Inr (base_snap, deltas, reg')))"

definition merged_snapshot :: "merge_plan \<Rightarrow> compression_algo \<Rightarrow> (nat \<times> rank_entry) list \<Rightarrow> snapshot" where
  "merged_snapshot p algo ranks =
     \<lparr>sn_id = mp_id p, sn_step = sn_step (last_delta p), sn_created_at = mp_created_at p, sn_ranks = ranks,
      sn_base_snapshot_id = None, sn_metadata = merged_metadata p, sn_compression = algo,
      sn_finalized = True, sn_pinned = False\<rparr>"

definition folded_ids :: "merge_plan \<Rightarrow> uuid list" where
  "folded_ids p = sn_id (mp_base p) # map sn_id (mp_deltas p)"

definition with_merged :: "merge_plan \<Rightarrow> snapshot \<Rightarrow> snapshot list \<Rightarrow> snapshot list" where
  "with_merged p merged previous =
     sort_key sn_step (filter (\<lambda>s. sn_id s \<notin> set (folded_ids p)) previous @ [merged])"

text \<open>The manifest is put back as it was when the new one cannot be written.\<close>

definition replace_snapshots :: "'s backend \<Rightarrow> ext \<Rightarrow> snapshot list \<Rightarrow> ('s shared, unit) io" where
  "replace_snapshots B X sns st =
     (let previous = mf_snapshots (sh_manifest st) in
      case persist B X (sh_store st, (sh_manifest st)\<lparr>mf_snapshots := sns\<rparr>) of
        (Inl e, (s', m')) \<Rightarrow> (Inl e, st\<lparr>sh_store := s', sh_manifest := m'\<lparr>mf_snapshots := previous\<rparr>\<rparr>)
      | (Inr _, (s', m')) \<Rightarrow> (Inr (), st\<lparr>sh_store := s', sh_manifest := m'\<rparr>))"

definition drop_claimed :: "uuid list \<Rightarrow> 's shared \<Rightarrow> 's shared" where
  "drop_claimed ids st = st\<lparr>sh_in_flight := drop_claim (sh_in_flight st) ids\<rparr>"

definition do_full_merge_within :: "'s backend \<Rightarrow> ext \<Rightarrow> compression_algo \<Rightarrow> 's merge_env
    \<Rightarrow> ('s shared, merge_outcome) io" where
  "do_full_merge_within B X algo env st =
     (case plan_merge (sh_manifest st) (sh_in_flight st) of
        Inl e \<Rightarrow> (Inl e, st)
      | Inr (Inl outcome) \<Rightarrow> (Inr outcome, st)
      | Inr (Inr (base_snap, deltas, reg)) \<Rightarrow>
          let st1 = st\<lparr>sh_in_flight := reg\<rparr>;
              p = \<lparr>mp_base = base_snap, mp_deltas = deltas, mp_id = me_id env, mp_created_at = me_now env\<rparr>;
              done = (\<lambda>(r, st'). (r, drop_claimed (folded_ids p) st'))
          in done (case merge_ranks B X algo p (merged_rank_ids p) (sh_store st1) of
               (Inl e, s') \<Rightarrow> (Inl e, st1\<lparr>sh_store := s'\<rparr>)
             | (Inr ranks, s') \<Rightarrow>
                 let st2 = me_meanwhile env (st1\<lparr>sh_store := s'\<rparr>) in
                 (case replace_snapshots B X (with_merged p (merged_snapshot p algo ranks)
                         (mf_snapshots (sh_manifest st2))) st2 of
                    (Inl e, st3) \<Rightarrow> (Inl e, st3)
                  | (Inr _, st3) \<Rightarrow>
                      (Inr Merged, unlink_snapshots B X (me_seen env) (deltas @ [base_snap]) st3))))"

definition do_full_merge :: "'s backend \<Rightarrow> ext \<Rightarrow> compression_algo \<Rightarrow> 's merge_env
    \<Rightarrow> ('s shared, merge_outcome) io" where
  "do_full_merge B X algo env = do_full_merge_within B X algo env"

section \<open>The stride merge\<close>

definition delta_tail :: "manifest \<Rightarrow> snapshot list" where
  "delta_tail m = drop (length (mf_snapshots m) - pending_delta_count m) (mf_snapshots m)"

definition superseded :: "snapshot list \<Rightarrow> snapshot \<Rightarrow> uuid list" where
  "superseded tail survivor = map sn_id (filter (\<lambda>s. sn_finalized s \<and> sn_id s \<noteq> sn_id survivor
     \<and> sn_base_snapshot_id s = sn_base_snapshot_id survivor) tail)"

definition do_stride_merge :: "'s backend \<Rightarrow> ext \<Rightarrow> merger_config \<Rightarrow> compression_algo \<Rightarrow> 's merge_env
    \<Rightarrow> ('s shared, unit) io" where
  "do_stride_merge B X cfg algo env st =
     (let m = sh_manifest st; delta_count = pending_delta_count m in
      if mc_max_chain_depth cfg \<le> delta_count then
        bind_io (do_full_merge B X algo env) (\<lambda>_. ret_io ()) st
      else if mc_stride cfg = 0 \<or> delta_count < mc_stride cfg then (Inr (), st)
      else case find sn_finalized (rev (delta_tail m)) of
        None \<Rightarrow> (Inr (), st)
      | Some survivor \<Rightarrow>
          let ids = superseded (delta_tail m) survivor in
          if ids = [] then (Inr (), st)
          else case claim (sh_in_flight st) ids of
            None \<Rightarrow> (Inr (), st)
          | Some reg \<Rightarrow>
              let doomed = filter (\<lambda>s. sn_id s \<in> set ids) (mf_snapshots m);
                  kept = filter (\<lambda>s. sn_id s \<notin> set ids) (mf_snapshots m);
                  done = (\<lambda>(r, st'). (r, drop_claimed ids st'))
              in done (case replace_snapshots B X kept (st\<lparr>sh_in_flight := reg\<rparr>) of
                   (Inl e, st1) \<Rightarrow> (Inl e, st1)
                 | (Inr _, st1) \<Rightarrow> (Inr (), unlink_snapshots B X (me_seen env) doomed st1)))"

section \<open>The thread\<close>

datatype merge_command = CheckAndMerge | ForceFullMerge | Shutdown_Merger

text \<open>
  A forced merge is tried until something other than \<open>Busy\<close> comes out or the time is up: the list
  holds the environments of the attempts its deadline leaves room for.
\<close>

fun forced_merge :: "'s backend \<Rightarrow> ext \<Rightarrow> compression_algo \<Rightarrow> 's merge_env list \<Rightarrow> ('s shared, unit) io" where
  "forced_merge B X algo [] st = (Inl (StorageErr ''Forced merge stood down''), st)"
| "forced_merge B X algo (env # envs) st =
     (case do_full_merge_within B X algo env st of
        (Inr Busy, st') \<Rightarrow> forced_merge B X algo envs (me_before env st')
      | (Inr _, st') \<Rightarrow> (Inr (), st')
      | (Inl e, st') \<Rightarrow> (Inl e, st'))"

record delta_merger =
  dm_sender :: bool
  dm_queue :: "merge_command list"
  dm_dead :: bool

definition new_merger :: delta_merger where
  "new_merger = \<lparr>dm_sender = True, dm_queue = [], dm_dead = False\<rparr>"

definition notify_merger :: "bool \<Rightarrow> delta_merger \<Rightarrow> delta_merger" where
  "notify_merger alive dm =
     (if \<not> dm_sender dm then dm
      else if alive then dm\<lparr>dm_queue := dm_queue dm @ [CheckAndMerge]\<rparr> else dm\<lparr>dm_dead := True\<rparr>)"

text \<open>What the thread does with a command; the outcome is the answer a forced merge waits for.\<close>

definition run_merge_command :: "'s backend \<Rightarrow> ext \<Rightarrow> merger_config \<Rightarrow> compression_algo \<Rightarrow> 's merge_env list
    \<Rightarrow> merge_command \<Rightarrow> ('s shared, unit) io" where
  "run_merge_command B X cfg algo envs cmd st =
     (case cmd of
        CheckAndMerge \<Rightarrow> (case envs of [] \<Rightarrow> (Inr (), st)
          | env # _ \<Rightarrow> (Inr (), snd (do_stride_merge B X cfg algo env st)))
      | ForceFullMerge \<Rightarrow> forced_merge B X algo envs st
      | Shutdown_Merger \<Rightarrow> (Inr (), st))"

fun run_merger :: "'s backend \<Rightarrow> ext \<Rightarrow> merger_config \<Rightarrow> compression_algo \<Rightarrow> (merge_command \<times> 's merge_env list) list
    \<Rightarrow> 's shared \<Rightarrow> 's shared" where
  "run_merger B X cfg algo [] st = st"
| "run_merger B X cfg algo ((cmd, envs) # cmds) st =
     (if cmd = Shutdown_Merger then st
      else run_merger B X cfg algo cmds (snd (run_merge_command B X cfg algo envs cmd st)))"

text \<open>
  The caller's side: \<open>alive\<close> is whether the thread takes the command, \<open>answers\<close> whether it lives to
  answer it.
\<close>

definition force_full_merge :: "bool \<Rightarrow> bool \<Rightarrow> 's backend \<Rightarrow> ext \<Rightarrow> compression_algo \<Rightarrow> 's merge_env list
    \<Rightarrow> (delta_merger \<times> 's shared, unit) io" where
  "force_full_merge alive answers B X algo envs st =
     (case st of (dm, sh) \<Rightarrow>
       (if \<not> dm_sender dm then (Inr (), st)
        else if \<not> alive then (Inl (StorageErr ''The merger thread is gone''), (dm\<lparr>dm_dead := True\<rparr>, sh))
        else if \<not> answers then (Inl (StorageErr ''The merger thread died mid-merge''), (dm\<lparr>dm_dead := True\<rparr>, sh))
        else (case forced_merge B X algo envs sh of (r, sh') \<Rightarrow> (r, (dm, sh')))))"

definition shutdown_merger :: "delta_merger \<Rightarrow> delta_merger" where
  "shutdown_merger dm =
     (if dm_sender dm then dm\<lparr>dm_sender := False, dm_queue := dm_queue dm @ [Shutdown_Merger]\<rparr> else dm)"

section \<open>What a merge publishes\<close>

lemma persist_snapshots: "mf_snapshots (snd (snd (persist B X (s, m)))) = mf_snapshots m"
proof -
  obtain r s1 where w: "each_io (write_ranks B X)
      (filter (\<lambda>sn. sn_id sn \<in> set (unwritten_ids m)) (mf_snapshots m)) s = (r, s1)"
    by (metis prod.collapse)
  show ?thesis
    by (cases r; cases "serialization (js_to_vec (x_index X) (index_out X (after_ranks m)))")
      (simp_all add: persist_def w Let_def split: prod.split)
qed

lemma replace_snapshots_manifest:
  assumes "replace_snapshots B X sns st = (r, st')"
  shows "mf_snapshots (sh_manifest st') = (if is_ok r then sns else mf_snapshots (sh_manifest st))
    \<and> sh_in_flight st' = sh_in_flight st \<and> sh_deletes st' = sh_deletes st
    \<and> sh_store st' = fst (snd (persist B X (sh_store st, (sh_manifest st)\<lparr>mf_snapshots := sns\<rparr>)))"
proof -
  let ?p = "persist B X (sh_store st, (sh_manifest st)\<lparr>mf_snapshots := sns\<rparr>)"
  obtain q s' m' where p: "?p = (q, s', m')" by (metis prod.collapse)
  have "mf_snapshots m' = sns"
    using persist_snapshots [of B X "sh_store st" "(sh_manifest st)\<lparr>mf_snapshots := sns\<rparr>"] p by simp
  with p assms show ?thesis by (cases q) (auto simp: replace_snapshots_def Let_def)
qed

lemma unlink_snapshots_keeps [simp]:
  "sh_manifest (unlink_snapshots B X seen doomed st) = sh_manifest st"
  "sh_in_flight (unlink_snapshots B X seen doomed st) = sh_in_flight st"
  by (auto simp: unlink_snapshots_def split: prod.splits)

lemma drop_claimed_keeps [simp]:
  "sh_manifest (drop_claimed ids st) = sh_manifest st" "sh_store (drop_claimed ids st) = sh_store st"
  "sh_deletes (drop_claimed ids st) = sh_deletes st"
  by (simp_all add: drop_claimed_def)

section \<open>Thinning the deltas\<close>

lemma delta_tail_deltas: "s \<in> set (delta_tail m) \<Longrightarrow> sn_base_snapshot_id s \<noteq> None"
proof -
  let ?sns = "mf_snapshots m" and ?P = "\<lambda>s. sn_base_snapshot_id s \<noteq> None"
  assume "s \<in> set (delta_tail m)"
  moreover have "delta_tail m = rev (takeWhile ?P (rev ?sns))"
  proof -
    let ?n = "length (takeWhile ?P (rev ?sns))"
    have "rev (takeWhile ?P (rev ?sns)) = rev (take ?n (rev ?sns))"
      by (rule arg_cong [OF takeWhile_eq_take])
    also have "\<dots> = drop (length ?sns - ?n) ?sns" by (simp add: rev_take)
    finally show ?thesis by (simp add: delta_tail_def pending_delta_count_def)
  qed
  ultimately show ?thesis by (auto dest: set_takeWhileD)
qed

text \<open>What the survivor of a stride merge owes the deltas it supersedes.\<close>

definition outlives :: "snapshot list \<Rightarrow> snapshot \<Rightarrow> snapshot \<Rightarrow> bool" where
  "outlives sns t s \<longleftrightarrow> sn_finalized s \<and> sn_finalized t \<and> sn_base_snapshot_id s \<noteq> None
     \<and> sn_base_snapshot_id t = sn_base_snapshot_id s
     \<and> (\<exists>before between after. sns = before @ s # between @ t # after)"

lemma newest_after:
  assumes "find P (rev xs) = Some t" and "s \<in> set xs" and "P s" and "s \<noteq> t"
  shows "\<exists>before between after. xs = before @ s # between @ t # after"
proof -
  obtain i where i: "i < length xs" "P (rev xs ! i)" "t = rev xs ! i" "\<forall>j<i. \<not> P (rev xs ! j)"
    using assms(1) unfolding find_Some_iff by auto
  have xs: "rev xs = take i (rev xs) @ t # drop (Suc i) (rev xs)" using i by (simp add: id_take_nth_drop)
  have "s \<notin> set (take i (rev xs))" using i(4) assms(3) by (auto simp: in_set_conv_nth)
  moreover have "s \<in> set (rev xs)" using assms(2) by simp
  ultimately have "s \<in> set (drop (Suc i) (rev xs))" using assms(4) by (subst (asm) (2) xs) auto
  then obtain ys zs where "drop (Suc i) (rev xs) = ys @ s # zs" by (meson split_list)
  with xs have "rev xs = take i (rev xs) @ t # ys @ s # zs" by simp
  then have "xs = rev zs @ s # rev ys @ t # rev (take i (rev xs))"
    by (metis append.assoc append_Cons append_Nil rev.simps(2) rev_append rev_rev_ident)
  then show ?thesis by blast
qed

lemma superseded_outlived:
  assumes surv: "find sn_finalized (rev (delta_tail m)) = Some t" and "chained (mf_snapshots m)"
    and "s \<in> set (mf_snapshots m)" and "sn_id s \<in> set (superseded (delta_tail m) t)"
  shows "outlives (mf_snapshots m) t s"
proof -
  have tail: "mf_snapshots m = take (length (mf_snapshots m) - pending_delta_count m) (mf_snapshots m) @ delta_tail m"
    by (simp add: delta_tail_def)
  obtain u where u: "u \<in> set (delta_tail m)" "sn_id u = sn_id s" "sn_finalized u" "sn_id u \<noteq> sn_id t"
      "sn_base_snapshot_id u = sn_base_snapshot_id t"
    using assms(4) by (auto simp: superseded_def)
  have "u \<in> set (mf_snapshots m)" using u(1) by (subst tail) simp
  then have "u = s" using chained_id [OF assms(2)] assms(3) u(2) by blast
  obtain before between after where "delta_tail m = before @ s # between @ t # after"
    using newest_after [OF surv, of s] u \<open>u = s\<close> by auto
  then have "\<exists>before between after. mf_snapshots m = before @ s # between @ t # after"
    by (subst tail) (metis append.assoc)
  moreover have "sn_finalized t" using surv by (auto dest: find_Some_iff_mem)
  ultimately show ?thesis
    using u \<open>u = s\<close> delta_tail_deltas [OF u(1)] by (simp add: outlives_def)
qed

text \<open>
  C40. Thinning loses nothing that counts: a stride merge only ever drops finalised deltas, and for
  each that it drops a later finalised delta against the same base stays. Fulls, snapshots that are
  still being written and the newest one are untouched, and no delta is left without its base.
\<close>

theorem stride_merge_thins:
  assumes "do_stride_merge B X cfg algo env st = (r, st')" and "chained (mf_snapshots (sh_manifest st))"
    and "pending_delta_count (sh_manifest st) < mc_max_chain_depth cfg"
  shows "chained (mf_snapshots (sh_manifest st')) \<and> subseq (mf_snapshots (sh_manifest st')) (mf_snapshots (sh_manifest st))
    \<and> (\<forall>s \<in> set (mf_snapshots (sh_manifest st)). s \<in> set (mf_snapshots (sh_manifest st'))
        \<or> (\<exists>t \<in> set (mf_snapshots (sh_manifest st')). outlives (mf_snapshots (sh_manifest st)) t s))"
proof -
  let ?m = "sh_manifest st"
  let ?sns = "mf_snapshots ?m"
  show ?thesis
  proof (cases "\<exists>t ids. find sn_finalized (rev (delta_tail ?m)) = Some t \<and> ids = superseded (delta_tail ?m) t
      \<and> mf_snapshots (sh_manifest st') = filter (\<lambda>s. sn_id s \<notin> set ids) ?sns")
    case True
    then obtain t where t: "find sn_finalized (rev (delta_tail ?m)) = Some t"
        and m': "mf_snapshots (sh_manifest st') = filter (\<lambda>s. sn_id s \<notin> set (superseded (delta_tail ?m) t)) ?sns"
      by blast
    have out: "outlives ?sns t s" if "s \<in> set ?sns" "sn_id s \<in> set (superseded (delta_tail ?m) t)" for s
      using superseded_outlived [OF t assms(2) that] .
    have "t \<in> set ?sns" using t by (auto simp: delta_tail_def dest!: find_Some_iff_mem in_set_dropD)
    then have "t \<in> set (mf_snapshots (sh_manifest st'))" by (auto simp: m' superseded_def)
    moreover have "chained (mf_snapshots (sh_manifest st'))" unfolding m'
    proof (rule chained_filter [OF assms(2)])
      fix s f assume "f \<in> set ?sns" "s \<in> set ?sns" "sn_base_snapshot_id s = Some (sn_id f)"
      moreover from this obtain g where "g \<in> set ?sns" "sn_id g = sn_id f" "sn_base_snapshot_id g = None"
        using chained_base [OF assms(2)] by blast
      ultimately have "sn_base_snapshot_id f = None" using chained_id [OF assms(2)] by metis
      with \<open>f \<in> set ?sns\<close> out [of f] show "sn_id f \<notin> set (superseded (delta_tail ?m) t)"
        by (auto simp: outlives_def)
    qed
    ultimately show ?thesis using out by (auto simp: m')
  next
    case False
    have "mf_snapshots (sh_manifest st') = ?sns"
      using assms(1,3) False
      by (auto simp: do_stride_merge_def Let_def split: if_splits option.splits prod.splits sum.splits
          dest!: replace_snapshots_manifest)
    with assms(2) show ?thesis by simp
  qed
qed

section \<open>A concrete stride merge\<close>

definition idle_env :: "uuid \<Rightarrow> 's merge_env" where
  "idle_env i = \<lparr>me_id = i, me_now = 0, me_before = (\<lambda>st. st), me_meanwhile = (\<lambda>st. st), me_seen = []\<rparr>"

text \<open>A full and three deltas on it; the middle delta may be pinned.\<close>

definition four_snapshots :: "bool \<Rightarrow> local_fs shared" where
  "four_snapshots pinned = \<lparr>sh_store = empty_fs, sh_manifest = default_manifest\<lparr>mf_snapshots :=
       [plain 5 10 None, plain 2 20 (Some 5), (plain 3 30 (Some 5))\<lparr>sn_pinned := pinned\<rparr>, plain 4 40 (Some 5)]\<rparr>,
     sh_in_flight = empty_inflight, sh_deletes = default_pending\<rparr>"

lemma four_thinned:
  "mf_snapshots (sh_manifest (snd (do_stride_merge (local_backend False 0) pins_ext default_merger_config
     NoCompression (idle_env 9) (four_snapshots pinned)))) = [plain 5 10 None, plain 4 40 (Some 5)]"
proof -
  let ?B = "local_backend False 0"
  let ?st = "four_snapshots pinned"
  let ?m = "sh_manifest ?st"
  have count: "pending_delta_count ?m = 3"
    by (simp add: four_snapshots_def pending_delta_count_def plain_def)
  have tail: "delta_tail ?m = [plain 2 20 (Some 5), (plain 3 30 (Some 5))\<lparr>sn_pinned := pinned\<rparr>, plain 4 40 (Some 5)]"
    unfolding delta_tail_def count by (simp add: four_snapshots_def)
  have surv: "find sn_finalized (rev (delta_tail ?m)) = Some (plain 4 40 (Some 5))" by (simp add: tail)
  have ids: "superseded (delta_tail ?m) (plain 4 40 (Some 5)) = [2, 3]"
    by (simp add: tail superseded_def plain_def)
  obtain reg where reg: "claim (sh_in_flight ?st) [2, 3] = Some reg"
    by (simp add: claim_def any_pinned_def four_snapshots_def empty_inflight_def)
  have kept: "filter (\<lambda>s. sn_id s \<notin> set [2, 3]) (mf_snapshots ?m) = [plain 5 10 None, plain 4 40 (Some 5)]"
    by (simp add: four_snapshots_def)
  let ?st1 = "?st\<lparr>sh_in_flight := reg\<rparr>" and ?kept = "[plain 5 10 None, plain 4 40 (Some 5)]"
  have "fst (persist ?B pins_ext (sh_store ?st1, (sh_manifest ?st1)\<lparr>mf_snapshots := ?kept\<rparr>)) = Inr ()"
    by (rule persist_without_ranks) (simp_all add: four_snapshots_def empty_fs_def)
  then have "is_ok (fst (replace_snapshots ?B pins_ext ?kept ?st1))"
    by (auto simp: replace_snapshots_def Let_def split: prod.splits)
  then obtain st2 where st2: "replace_snapshots ?B pins_ext ?kept ?st1 = (Inr (), st2)"
    by (cases "replace_snapshots ?B pins_ext ?kept ?st1"; cases "fst (replace_snapshots ?B pins_ext ?kept ?st1)") auto
  have "mf_snapshots (sh_manifest st2) = ?kept" using replace_snapshots_manifest [OF st2] by simp
  then show ?thesis
    unfolding do_stride_merge_def count Let_def surv option.case ids reg kept
    by (simp add: default_merger_config_def st2 del: filter.simps)
qed

theorem stride_merge_thins_witness:
  "\<exists>r st'. do_stride_merge (local_backend False 0) pins_ext default_merger_config NoCompression (idle_env 9)
       (four_snapshots False) = (r, st')
     \<and> mf_snapshots (sh_manifest st') = [plain 5 10 None, plain 4 40 (Some 5)]
     \<and> (\<exists>t \<in> set (mf_snapshots (sh_manifest st')).
          outlives (mf_snapshots (sh_manifest (four_snapshots False))) t (plain 2 20 (Some 5)))"
proof -
  obtain r st' where run: "do_stride_merge (local_backend False 0) pins_ext default_merger_config NoCompression
      (idle_env 9) (four_snapshots False) = (r, st')"
    by (metis prod.collapse)
  have kept: "mf_snapshots (sh_manifest st') = [plain 5 10 None, plain 4 40 (Some 5)]"
    using four_thinned [of False] run by simp
  have "chained (mf_snapshots (sh_manifest (four_snapshots False)))"
    by (simp add: chained_def four_snapshots_def plain_def)
  moreover have "pending_delta_count (sh_manifest (four_snapshots False)) < mc_max_chain_depth default_merger_config"
    by (simp add: four_snapshots_def pending_delta_count_def plain_def default_merger_config_def)
  moreover have "plain 2 20 (Some 5) \<in> set (mf_snapshots (sh_manifest (four_snapshots False)))"
    by (simp add: four_snapshots_def)
  ultimately have "plain 2 20 (Some 5) \<in> set (mf_snapshots (sh_manifest st'))
      \<or> (\<exists>t \<in> set (mf_snapshots (sh_manifest st')).
          outlives (mf_snapshots (sh_manifest (four_snapshots False))) t (plain 2 20 (Some 5)))"
    using stride_merge_thins [OF run] by blast
  moreover have "plain 2 20 (Some 5) \<notin> set (mf_snapshots (sh_manifest st'))" by (simp add: kept plain_def)
  ultimately show ?thesis using run kept by blast
qed

text \<open>A pin is nothing to a merge: a delta somebody asked to keep goes with the others.\<close>

lemma stride_merge_drops_pinned:
  "\<exists>s \<in> set (mf_snapshots (sh_manifest (four_snapshots True))). sn_pinned s
     \<and> sn_id s \<in> set (protected_snapshot_ids (sh_manifest (four_snapshots True)))
     \<and> sn_id s \<notin> sn_id ` set (mf_snapshots (sh_manifest (snd (do_stride_merge (local_backend False 0) pins_ext
          default_merger_config NoCompression (idle_env 9) (four_snapshots True)))))"
proof -
  let ?s = "(plain 3 30 (Some 5))\<lparr>sn_pinned := True\<rparr>"
  have s: "?s \<in> set (mf_snapshots (sh_manifest (four_snapshots True)))" by (simp add: four_snapshots_def)
  moreover from this have "sn_id ?s \<in> set (protected_snapshot_ids (sh_manifest (four_snapshots True)))"
    by (force simp: set_protected_ids)
  ultimately show ?thesis by (intro bexI [OF _ s] conjI) (simp_all add: four_thinned)
qed

end
