(* ===== verification/Recovery.thy ===== *)
theory Recovery
  imports LoadRank Retention
begin

text \<open>
  Opening a store, \<^verbatim>\<open>src/src/coordinator/recovery.rs\<close>: a checkpoint whose packs are complete but
  which no manifest names is taken back into it from the descriptors the packs carry, one that is
  not whole is deleted. A \<^verbatim>\<open>HashMap\<close> of orphans is an association list in listing order.
\<close>

section \<open>Rebuilding a snapshot\<close>

definition read_descriptor :: "'s backend \<Rightarrow> ext \<Rightarrow> 's \<Rightarrow> string \<Rightarrow> pack_descriptor option" where
  "read_descriptor B X s path =
     (case b_get_range B s path 0 header_len of
        Inl e \<Rightarrow> None
      | Inr header \<Rightarrow>
          (case decode_header header of
             None \<Rightarrow> None
           | Some (offset, len) \<Rightarrow>
               (case b_get_range B s path (unat offset) (unat len) of
                  Inl e \<Rightarrow> None
                | Inr encoded \<Rightarrow>
                    if length encoded \<noteq> unat len then None
                    else (case js_from_slice (x_descriptor X) encoded of Inl e \<Rightarrow> None | Inr d \<Rightarrow> Some d))))"

fun read_descriptors :: "'s backend \<Rightarrow> ext \<Rightarrow> 's \<Rightarrow> string \<Rightarrow> string list \<Rightarrow> pack_descriptor list option" where
  "read_descriptors B X s i [] = Some []"
| "read_descriptors B X s i (path # paths) =
     (case read_descriptor B X s path of
        None \<Rightarrow> None
      | Some d \<Rightarrow> if x_uuid_str X (pd_snapshot_id d) \<noteq> i then None
                  else map_option ((#) d) (read_descriptors B X s i paths))"

definition ranks_described :: "pack_descriptor list \<Rightarrow> (nat \<times> rank_entry) list" where
  "ranks_described ds = fold (\<lambda>d. AList.update (re_rank (pd_rank d)) (pd_rank d)) ds []"

definition snapshot_described :: "pack_descriptor \<Rightarrow> (nat \<times> rank_entry) list \<Rightarrow> snapshot" where
  "snapshot_described d ranks =
     \<lparr>sn_id = pd_snapshot_id d, sn_step = pd_step d, sn_created_at = pd_created_at d, sn_ranks = ranks,
      sn_base_snapshot_id = pd_base_snapshot_id d, sn_metadata = pd_metadata d,
      sn_compression = pd_compression d, sn_finalized = True, sn_pinned = False\<rparr>"

definition rebuild_from_packs :: "'s backend \<Rightarrow> ext \<Rightarrow> 's \<Rightarrow> string \<Rightarrow> string list \<Rightarrow> snapshot option" where
  "rebuild_from_packs B X s i files =
     (case read_descriptors B X s i (filter (suffix ''.pack'') files) of
        None \<Rightarrow> None
      | Some [] \<Rightarrow> None
      | Some (first # others) \<Rightarrow>
          let ranks = ranks_described (first # others)
          in if length ranks \<noteq> pd_world_size first then None else Some (snapshot_described first ranks))"

definition tensor_is_intact :: "'s backend \<Rightarrow> ext \<Rightarrow> 's \<Rightarrow> rank_entry \<Rightarrow> tensor_entry \<Rightarrow> bool" where
  "tensor_is_intact B X s re t =
     (case te_hash_compressed t of
        None \<Rightarrow> True
      | Some expected \<Rightarrow>
          (case (case (re_pack_file re, te_filename t) of
                   (Some pack, _) \<Rightarrow> Some (b_get_range B s pack (te_offset t) (te_compressed_size t))
                 | (None, Some path) \<Rightarrow> Some (b_get B s path)
                 | (None, None) \<Rightarrow> None) of
             None \<Rightarrow> False
           | Some (Inl e) \<Rightarrow> False
           | Some (Inr bytes) \<Rightarrow> length bytes = te_compressed_size t \<and> hash_hex X bytes = expected))"

definition snapshot_data_is_intact :: "'s backend \<Rightarrow> ext \<Rightarrow> 's \<Rightarrow> snapshot \<Rightarrow> bool" where
  "snapshot_data_is_intact B X s sn =
     list_all (\<lambda>(_, re). list_all (tensor_is_intact B X s re) (re_tensors re)) (sn_ranks sn)"

section \<open>Orphans\<close>

definition snapshots_prefix :: string where
  "snapshots_prefix = ''snapshots/''"

text \<open>The snapshot directory a file is in, unless the manifest knows it or it is no snapshot's.\<close>

definition orphan_id :: "ext \<Rightarrow> string list \<Rightarrow> string \<Rightarrow> string option" where
  "orphan_id X known path =
     (if \<not> prefix snapshots_prefix path then None
      else let i = takeWhile (\<lambda>c. c \<noteq> CHR ''/'') (drop (length snapshots_prefix) path)
           in if i \<in> set known \<or> x_parse_uuid X i = None then None else Some i)"

definition push_orphan :: "ext \<Rightarrow> string list \<Rightarrow> string \<Rightarrow> (string \<times> string list) list \<Rightarrow> (string \<times> string list) list" where
  "push_orphan X known path orphans =
     (case orphan_id X known path of
        None \<Rightarrow> orphans
      | Some i \<Rightarrow> AList.update i ((case map_of orphans i of None \<Rightarrow> [] | Some files \<Rightarrow> files) @ [path]) orphans)"

definition orphans_of :: "ext \<Rightarrow> manifest \<Rightarrow> string list \<Rightarrow> (string \<times> string list) list" where
  "orphans_of X m files =
     fold (push_orphan X (map (x_uuid_str X \<circ> sn_id) (mf_snapshots m))) files []"

definition whole_orphan :: "'s backend \<Rightarrow> ext \<Rightarrow> 's \<Rightarrow> string \<times> string list \<Rightarrow> snapshot option" where
  "whole_orphan B X s orphan =
     (case rebuild_from_packs B X s (fst orphan) (snd orphan) of
        None \<Rightarrow> None
      | Some sn \<Rightarrow> if snapshot_data_is_intact B X s sn then Some sn else None)"

text \<open>Oldest first, so that a base is there before the delta that needs it.\<close>

fun place_candidates :: "ext \<Rightarrow> snapshot list \<Rightarrow> snapshot list \<Rightarrow> snapshot list \<times> string list" where
  "place_candidates X sns [] = (sns, [])"
| "place_candidates X sns (c # cs) =
     (if (case sn_base_snapshot_id c of None \<Rightarrow> True | Some base \<Rightarrow> list_ex (\<lambda>s. sn_id s = base) sns)
      then place_candidates X (sns @ [c]) cs
      else (case place_candidates X sns cs of (sns', rejects) \<Rightarrow> (sns', x_uuid_str X (sn_id c) # rejects)))"

definition reclaim :: "'s backend \<Rightarrow> (string \<times> string list) list \<Rightarrow> string \<Rightarrow> 's \<Rightarrow> 's" where
  "reclaim B orphans i s =
     snd (b_remove_dir B (snapshots_prefix @ i)
       (fold (\<lambda>path s. snd (b_delete B path s)) (case map_of orphans i of None \<Rightarrow> [] | Some files \<Rightarrow> files) s))"

definition recover_or_reclaim_orphans :: "'s backend \<Rightarrow> ext \<Rightarrow> 's \<times> manifest \<Rightarrow> bool \<times> 's \<times> manifest" where
  "recover_or_reclaim_orphans B X sm =
     (case sm of (s, m) \<Rightarrow>
       (case b_list B s ''snapshots'' of
          Inl e \<Rightarrow> (False, s, m)
        | Inr files \<Rightarrow>
            let orphans = orphans_of X m files in
            if orphans = [] then (False, s, m)
            else let candidates = sort_key sn_step (List.map_filter (whole_orphan B X s) orphans);
                     rejects1 = map fst (filter (\<lambda>orphan. whole_orphan B X s orphan = None) orphans);
                     (placed, rejects2) = place_candidates X (mf_snapshots m) candidates;
                     recovered = length placed - length (mf_snapshots m);
                     s' = fold (reclaim B orphans) (rejects1 @ rejects2) s
                 in (0 < recovered, s',
                     m\<lparr>mf_snapshots := if 0 < recovered then sort_key sn_step placed else placed\<rparr>)))"

section \<open>Opening\<close>

definition load_manifest :: "'s backend \<Rightarrow> ext \<Rightarrow> 's \<Rightarrow> 'r coordinator_config \<Rightarrow> manifest result" where
  "load_manifest B X s cfg =
     bind_res (fst (load B X s None)) (\<lambda>r. case r of
         Some m \<Rightarrow> Inr m
       | None \<Rightarrow> Inr (default_manifest\<lparr>mf_world_size := cc_world_size cfg, mf_retention := cc_retention cfg,
                        mf_lineage := cc_lineage cfg\<rparr>))"

text \<open>The manifest a coordinator opens with; only rank 0 recovers, and a failed write of it is only logged.\<close>

definition open_store :: "'s backend \<Rightarrow> ext \<Rightarrow> 'r coordinator_config \<Rightarrow> ('s, manifest) io" where
  "open_store B X cfg s =
     bind_io (lift_io (load_manifest B X s cfg)) (\<lambda>m s.
       if cc_rank cfg \<noteq> 0 then (Inr m, s)
       else (case recover_or_reclaim_orphans B X (s, m) of (changed, s1, m1) \<Rightarrow>
         if \<not> changed then (Inr m1, s1)
         else (case persist B X (s1, m1) of (_, (s2, m2)) \<Rightarrow> (Inr m2, s2)))) s"

definition files_of :: "snapshot \<Rightarrow> nat option \<Rightarrow> string list" where
  "files_of sn rank =
     concat (map (\<lambda>(i, entry). (case re_pack_file entry of None \<Rightarrow> [] | Some p \<Rightarrow> [p])
         @ List.map_filter te_filename (re_tensors entry))
       (filter (\<lambda>(i, entry). case rank of None \<Rightarrow> True | Some r \<Rightarrow> r = i) (sn_ranks sn)))"

definition snapshot_is_reachable :: "'s backend \<Rightarrow> 's \<Rightarrow> string list \<Rightarrow> snapshot \<Rightarrow> bool" where
  "snapshot_is_reachable B s in_bucket sn =
     list_all (\<lambda>path. path \<in> set in_bucket \<or> b_exists B s path = Inr True) (files_of sn None)"

section \<open>A checkpoint the manifest never heard of\<close>

lemma rank_saved_intact:
  assumes "rank_saved B X s cfg cache ts (re_tensors re) c" and "e \<in> set (re_tensors re)"
    and "te_hash_compressed e = Some h"
  obtains z where "pack_holds c e z" "h = hash_hex X z"
proof -
  note found = that
  have saved: thesis if s: "saved_entry B X s cfg cache c t e" for t
  proof -
    obtain p off where p: "stored_form B X s cfg cache t p" "e = (pt_entry p)\<lparr>te_offset := off\<rparr>"
        "\<And>d. pt_write_data p = Some d \<Longrightarrow> pack_holds c e d"
      using s by (auto simp: saved_entry_def)
    have "te_hash_compressed e = map_option (hash_hex X) (pt_write_data p)"
      using process_tensor_hash p(1) by (auto simp: stored_form_def p(2))
    with assms(3) p(3) found show thesis by auto
  qed
  have "te_hash_compressed e = None" if "alias_entry X t owner e0 e" for t owner e0
    using that by (auto simp: alias_entry_def make_alias_entry_def)
  moreover have "(\<exists>t. saved_entry B X s cfg cache c t e) \<or> (\<exists>t owner e0. alias_entry X t owner e0 e)"
    using assms(1,2) unfolding rank_saved_def by blast
  ultimately show thesis using saved assms(3) by auto
qed

context reliable_backend
begin

lemma saved_pack_described:
  assumes save: "save_rank_tensors B X cfg i dir base ts cx (s, ret) = (Inr re, (s', ret'))"
    and json: "json_ok (x_descriptor X) (make_descriptor cfg i base cx re)"
    and kept: "contents t (rank_pack_path dir (cc_rank cfg)) = contents s' (rank_pack_path dir (cc_rank cfg))"
    and small: "\<And>c. contents t (rank_pack_path dir (cc_rank cfg)) = Some c \<Longrightarrow> length c < 2 ^ 64"
  shows "read_descriptor B X t (rank_pack_path dir (cc_rank cfg)) = Some (make_descriptor cfg i base cx re)
    \<and> re_rank re = cc_rank cfg"
proof -
  let ?path = "rank_pack_path dir (cc_rank cfg)"
  let ?d = "make_descriptor cfg i base cx re"
  obtain processed placed blobs_end encoded where p: "process_rank B X s cfg ret base ts = Inr processed"
      and off: "assign_offsets header_len processed = (placed, blobs_end)"
      and re: "re = make_rank_entry (cc_rank cfg) ?path placed"
      and put: "b_put_parts B ?path (pack_parts placed blobs_end encoded) s = (Inr (), s')"
      and enc: "js_to_vec (x_descriptor X) ?d = Inr encoded"
    using save by (rule save_rank_tensorsE)
  let ?h = "encode_header (of_nat blobs_end) (of_nat (length encoded))"
  let ?blobs = "concat (List.map_filter pt_write_data processed)"
  have pl: "map pt_write_data placed = map pt_write_data processed" "blobs_end = header_len + length ?blobs"
    using assign_offsets_places [OF off] by auto
  obtain n where n: "padded (concat (pack_parts placed blobs_end encoded)) = concat (pack_parts placed blobs_end encoded) @ replicate n 0"
    using padded_zeros by blast
  have c: "contents t ?path = Some (?h @ ?blobs @ encoded @ replicate n 0)"
    using put_parts_ok [OF put] kept n concat_pack_parts [OF pl(1)] by simp
  have un: "unat (of_nat blobs_end :: 64 word) = blobs_end" "unat (of_nat (length encoded) :: 64 word) = length encoded"
  proof -
    have "blobs_end < 2 ^ 64" "length encoded < 2 ^ 64" using small [OF c] pl(2) by simp_all
    then show "unat (of_nat blobs_end :: 64 word) = blobs_end" "unat (of_nat (length encoded) :: 64 word) = length encoded"
      by (simp_all only: unat_of_nat) simp_all
  qed
  have parse: "js_from_slice (x_descriptor X) encoded = Inr ?d" using json enc by (auto simp: json_ok_def)
  have reads: "b_get_range B t ?path 0 header_len = Inr ?h"
      "b_get_range B t ?path blobs_end (length encoded) = Inr encoded"
    by (simp_all add: range_complete [OF c] pl(2))
  have "decode_header ?h = Some (of_nat blobs_end, of_nat (length encoded))"
    by (metis append_Nil2 decode_encode_header)
  then have "read_descriptor B X t ?path = Some ?d"
    by (simp add: read_descriptor_def reads un parse)
  moreover have "re_rank re = cc_rank cfg" by (simp add: re make_rank_entry_def Let_def)
  ultimately show ?thesis by simp
qed

lemma saved_pack_rebuilds:
  assumes save: "save_rank_tensors B X cfg i dir base ts cx (s, ret) = (Inr re, (s', ret'))"
    and dist: "distinct (map td_name ts)" and world: "cc_world_size cfg = 1"
    and json: "json_ok (x_descriptor X) (make_descriptor cfg i base cx re)"
    and kept: "contents t (rank_pack_path dir (cc_rank cfg)) = contents s' (rank_pack_path dir (cc_rank cfg))"
    and small: "\<And>c. contents t (rank_pack_path dir (cc_rank cfg)) = Some c \<Longrightarrow> length c < 2 ^ 64"
    and files: "filter (suffix ''.pack'') files = [rank_pack_path dir (cc_rank cfg)]"
  shows "rebuild_from_packs B X t (x_uuid_str X i) files = Some (saved_snapshot cfg i base cx re)
    \<and> snapshot_data_is_intact B X t (saved_snapshot cfg i base cx re)"
proof -
  let ?path = "rank_pack_path dir (cc_rank cfg)"
  have "rebuild_from_packs B X t (x_uuid_str X i) files = Some (saved_snapshot cfg i base cx re)"
    using world saved_pack_described [OF save json kept small] by (simp add: rebuild_from_packs_def files ranks_described_def make_descriptor_def
        snapshot_described_def saved_snapshot_def)
  moreover have "tensor_is_intact B X t re e" if e: "e \<in> set (re_tensors re)" for e
  proof (cases "te_hash_compressed e")
    case (Some hh)
    obtain c' where c': "contents s' ?path = Some c'" "re_pack_file re = Some ?path"
        "rank_saved B X s cfg (build_base_cache cfg ret base) ts (re_tensors re) c'"
      using save_rank_saved [OF save dist] by metis
    obtain z where "pack_holds c' e z" "hh = hash_hex X z" using c'(3) e Some by (rule rank_saved_intact)
    then show ?thesis using Some c'(1,2) kept
      by (simp add: tensor_is_intact_def pack_holds_def range_complete)
  qed (simp add: tensor_is_intact_def)
  ultimately show ?thesis by (simp add: snapshot_data_is_intact_def saved_snapshot_def list_all_iff)
qed

end

text \<open>
  C9. A process killed between a pack and the manifest loses nothing: from the pack alone recovery
  rebuilds exactly the snapshot the save was about to record, and finds its data intact.
\<close>

theorem saved_pack_recovers:
  assumes "save_rank_tensors (local_backend fsync ps) X cfg i dir base ts cx (s, ret) = (Inr re, (s', ret'))"
    and "distinct (map td_name ts)" and "cc_world_size cfg = 1"
    and "json_ok (x_descriptor X) (make_descriptor cfg i base cx re)"
    and "\<And>c. fs_contents s' (rank_pack_path dir (cc_rank cfg)) = Some c \<Longrightarrow> length c < 2 ^ 64"
    and "filter (suffix ''.pack'') files = [rank_pack_path dir (cc_rank cfg)]"
  shows "rebuild_from_packs (local_backend fsync ps) X s' (x_uuid_str X i) files = Some (saved_snapshot cfg i base cx re)
    \<and> snapshot_data_is_intact (local_backend fsync ps) X s' (saved_snapshot cfg i base cx re)"
  by (rule local_disk.saved_pack_rebuilds [OF assms(1-4) refl assms(5,6)])

section \<open>What recovery deletes\<close>

definition known_ids :: "ext \<Rightarrow> snapshot list \<Rightarrow> string list" where
  "known_ids X sns = map (x_uuid_str X \<circ> sn_id) sns"

lemma orphans_shape:
  "distinct (map fst (fold (push_orphan X known) files acc)) \<and>
     (\<forall>i fs. (i, fs) \<in> set (fold (push_orphan X known) files acc) \<longrightarrow> (\<forall>f \<in> set fs. orphan_id X known f = Some i))"
  if "distinct (map fst acc)" "\<forall>i fs. (i, fs) \<in> set acc \<longrightarrow> (\<forall>f \<in> set fs. orphan_id X known f = Some i)"
  using that
proof (induction files arbitrary: acc)
  case (Cons f files)
  have "distinct (map fst (push_orphan X known f acc))
      \<and> (\<forall>i fs. (i, fs) \<in> set (push_orphan X known f acc) \<longrightarrow> (\<forall>f \<in> set fs. orphan_id X known f = Some i))"
  proof (cases "orphan_id X known f")
    case None
    then show ?thesis using Cons.prems by (simp add: push_orphan_def)
  next
    case (Some i)
    let ?fs = "(case map_of acc i of None \<Rightarrow> [] | Some files \<Rightarrow> files) @ [f]"
    have fs: "\<forall>g \<in> set ?fs. orphan_id X known g = Some i"
      using Some Cons.prems(2) map_of_SomeD [of acc i] by (cases "map_of acc i") auto
    have push: "push_orphan X known f acc = AList.update i ?fs acc" using Some by (simp add: push_orphan_def)
    have dist: "distinct (map fst (AList.update i ?fs acc))" using Cons.prems(1) by (simp add: distinct_update)
    have "(\<forall>g \<in> set gs. orphan_id X known g = Some j)" if "(j, gs) \<in> set (AList.update i ?fs acc)" for j gs
    proof -
      have "map_of (AList.update i ?fs acc) j = Some gs" using that dist by simp
      then have "(if j = i then Some ?fs else map_of acc j) = Some gs" by (simp add: update_conv')
      then show ?thesis using fs Cons.prems(2) map_of_SomeD [of acc j gs] by (cases "j = i") auto
    qed
    with dist show ?thesis by (simp add: push)
  qed
  then have "distinct (map fst (push_orphan X known f acc))"
      "\<forall>i fs. (i, fs) \<in> set (push_orphan X known f acc) \<longrightarrow> (\<forall>f \<in> set fs. orphan_id X known f = Some i)"
    by blast+
  from Cons.IH [OF this] show ?case unfolding fold_simps .
qed simp

lemma orphans_of_shape:
  "distinct (map fst (orphans_of X m files))"
  "(i, fs) \<in> set (orphans_of X m files) \<Longrightarrow> f \<in> set fs \<Longrightarrow> orphan_id X (known_ids X (mf_snapshots m)) f = Some i"
  using orphans_shape [of "[]" X "known_ids X (mf_snapshots m)" files]
  by (auto simp: orphans_of_def known_ids_def)

lemma read_descriptors_ids:
  "read_descriptors B X s i paths = Some ds \<Longrightarrow> d \<in> set ds \<Longrightarrow> x_uuid_str X (pd_snapshot_id d) = i"
  by (induction paths arbitrary: ds) (auto split: option.splits if_splits)

lemma whole_orphan_id: "whole_orphan B X s (i, fs) = Some sn \<Longrightarrow> x_uuid_str X (sn_id sn) = i \<and> snapshot_data_is_intact B X s sn"
  by (auto simp: whole_orphan_def rebuild_from_packs_def Let_def snapshot_described_def
      dest!: read_descriptors_ids split: option.splits list.splits if_splits)

lemma candidates_from:
  "map (x_uuid_str X \<circ> sn_id) (List.map_filter (whole_orphan B X s) orphans)
     = map fst (filter (\<lambda>orphan. whole_orphan B X s orphan \<noteq> None) orphans)"
proof (induction orphans)
  case (Cons orphan orphans)
  have "x_uuid_str X (sn_id sn) = fst orphan" if "whole_orphan B X s orphan = Some sn" for sn
    using whole_orphan_id that by (metis prod.collapse)
  with Cons show ?case by (auto simp: map_filter_Cons split: option.splits)
qed (simp add: List.map_filter_simps)

lemma place_candidates_shape:
  "place_candidates X sns cs = (sns', rejects) \<Longrightarrow>
     \<exists>placed rejected. sns' = sns @ placed \<and> rejects = known_ids X rejected
       \<and> mset placed + mset rejected = mset cs
       \<and> (\<forall>c \<in> set placed. \<forall>b. sn_base_snapshot_id c = Some b \<longrightarrow> b \<in> sn_id ` set sns')"
proof (induction cs arbitrary: sns rejects)
  case (Cons c cs)
  show ?case
  proof (cases "case sn_base_snapshot_id c of None \<Rightarrow> True | Some base \<Rightarrow> list_ex (\<lambda>s. sn_id s = base) sns")
    case True
    with Cons.prems have "place_candidates X (sns @ [c]) cs = (sns', rejects)" by simp
    from Cons.IH [OF this] obtain placed rejected where ih: "sns' = (sns @ [c]) @ placed" "rejects = known_ids X rejected"
        "mset placed + mset rejected = mset cs"
        "\<forall>c \<in> set placed. \<forall>b. sn_base_snapshot_id c = Some b \<longrightarrow> b \<in> sn_id ` set sns'"
      by blast
    have "b \<in> sn_id ` set sns'" if "sn_base_snapshot_id c = Some b" for b
      using True that ih(1) by (auto simp: list_ex_iff)
    with ih show ?thesis by (intro exI [of _ "c # placed"] exI [of _ rejected]) auto
  next
    case False
    with Cons.prems obtain rejects' where "place_candidates X sns cs = (sns', rejects')"
        "rejects = x_uuid_str X (sn_id c) # rejects'"
      by (auto split: prod.splits)
    from Cons.IH [OF this(1)] obtain placed rejected where "sns' = sns @ placed" "rejects' = known_ids X rejected"
        "mset placed + mset rejected = mset cs"
        "\<forall>c \<in> set placed. \<forall>b. sn_base_snapshot_id c = Some b \<longrightarrow> b \<in> sn_id ` set sns'"
      by blast
    with \<open>rejects = _ # rejects'\<close> show ?thesis
      by (intro exI [of _ placed] exI [of _ "c # rejected"]) (simp add: known_ids_def)
  qed
qed (auto simp: known_ids_def)

context backend_contract
begin

lemma reclaim_other:
  assumes "\<And>fs. map_of orphans i = Some fs \<Longrightarrow> path \<notin> set fs"
  shows "contents (reclaim B orphans i s) path = contents s path"
proof -
  have del: "path \<notin> set fs \<Longrightarrow> contents (fold (\<lambda>p s. snd (b_delete B p s)) fs s) path = contents s path" for fs s
    by (induction fs arbitrary: s) (auto simp: delete_other)
  show ?thesis using assms by (auto simp: reclaim_def remove_dir_keeps del split: option.splits)
qed

lemma reclaim_all_other:
  "(\<And>i fs. i \<in> set ids \<Longrightarrow> map_of orphans i = Some fs \<Longrightarrow> path \<notin> set fs)
    \<Longrightarrow> contents (fold (reclaim B orphans) ids s) path = contents s path"
proof (induction ids arbitrary: s)
  case (Cons i ids)
  have "contents (reclaim B orphans i s) path = contents s path"
    by (rule reclaim_other) (rule Cons.prems; simp)
  moreover have "contents (fold (reclaim B orphans) ids (reclaim B orphans i s)) path = contents (reclaim B orphans i s) path"
    by (rule Cons.IH) (rule Cons.prems; simp)
  ultimately show ?case by simp
qed simp

lemma recovery:
  assumes "recover_or_reclaim_orphans B X (s, m) = (changed, s', m')"
  shows "set (mf_snapshots m) \<subseteq> set (mf_snapshots m')
    \<and> (\<forall>sn \<in> set (mf_snapshots m') - set (mf_snapshots m). snapshot_data_is_intact B X s sn
         \<and> (\<forall>b. sn_base_snapshot_id sn = Some b \<longrightarrow> b \<in> sn_id ` set (mf_snapshots m')))
    \<and> (\<forall>path. orphan_id X (known_ids X (mf_snapshots m')) path = None \<longrightarrow> contents s' path = contents s path)"
proof (cases "\<exists>files. b_list B s ''snapshots'' = Inr files \<and> orphans_of X m files \<noteq> []")
  case False
  then have "s' = s \<and> m' = m"
    using assms by (auto simp: recover_or_reclaim_orphans_def Let_def split: sum.splits if_splits)
  then show ?thesis by simp
next
  case True
  then obtain files where files: "b_list B s ''snapshots'' = Inr files" "orphans_of X m files \<noteq> []" by blast
  let ?or = "orphans_of X m files"
  let ?cs = "List.map_filter (whole_orphan B X s) ?or"
  let ?r1 = "map fst (filter (\<lambda>orphan. whole_orphan B X s orphan = None) ?or)"
  obtain sns' rejects where place: "place_candidates X (mf_snapshots m) (sort_key sn_step ?cs) = (sns', rejects)" by fastforce
  obtain placed rejected where pl: "sns' = mf_snapshots m @ placed" "rejects = known_ids X rejected"
      "mset placed + mset rejected = mset ?cs"
      "\<And>c b. c \<in> set placed \<Longrightarrow> sn_base_snapshot_id c = Some b \<Longrightarrow> b \<in> sn_id ` set sns'"
    using place_candidates_shape [OF place] by (auto simp: known_ids_def)
  have s': "s' = fold (reclaim B ?or) (?r1 @ rejects) s"
    and m': "set (mf_snapshots m') = set sns'"
    using assms files place by (auto simp: recover_or_reclaim_orphans_def Let_def split: if_splits)
  have cs: "c \<in> set ?cs" if "c \<in> set placed \<or> c \<in> set rejected" for c
    using that pl(3) by (metis set_mset_mset set_mset_union Un_iff)
  have ids: "distinct (known_ids X ?cs)" "set (known_ids X ?cs) \<inter> set ?r1 = {}"
  proof -
    have d: "distinct (map fst ?or)" by (rule orphans_of_shape(1))
    then show "distinct (known_ids X ?cs)" unfolding known_ids_def candidates_from by (rule distinct_map_filter)
    have "orphan = orphan'" if "orphan \<in> set ?or" "orphan' \<in> set ?or" "fst orphan = fst orphan'" for orphan orphan'
      using d that by (auto simp: distinct_map inj_on_def)
    then show "set (known_ids X ?cs) \<inter> set ?r1 = {}"
      unfolding known_ids_def candidates_from by (auto simp del: not_None_eq) (metis option.distinct(1))
  qed
  have apart: "set (known_ids X placed) \<inter> set rejects = {}"
  proof -
    have "mset (known_ids X placed) + mset rejects = mset (known_ids X ?cs)"
      using pl(2,3) by (metis image_mset_union known_ids_def mset_map)
    then have "mset (known_ids X placed @ rejects) = mset (known_ids X ?cs)" by simp
    then have "distinct (known_ids X placed @ rejects)" using ids(1) mset_eq_imp_distinct_iff by metis
    then show ?thesis by simp
  qed
  have kept: "contents s' path = contents s path"
    if none: "orphan_id X (known_ids X (mf_snapshots m')) path = None" for path
    unfolding s'
  proof (rule reclaim_all_other)
    fix i fs assume i: "i \<in> set (?r1 @ rejects)" and fs: "map_of ?or i = Some fs"
    show "path \<notin> set fs"
    proof
      assume "path \<in> set fs"
      then have o: "orphan_id X (known_ids X (mf_snapshots m)) path = Some i"
        using orphans_of_shape(2) map_of_SomeD [OF fs] by blast
      have "i \<notin> set (known_ids X placed)"
      proof
        assume i2: "i \<in> set (known_ids X placed)"
        then have "i \<in> set (known_ids X ?cs)" using cs by (auto simp: known_ids_def)
        with i i2 ids(2) apart show False by auto
      qed
      with o have "orphan_id X (known_ids X (mf_snapshots m')) path = Some i"
        by (auto simp: orphan_id_def Let_def known_ids_def m' pl(1) split: if_splits)
      with none show False by simp
    qed
  qed
  have intact: "snapshot_data_is_intact B X s c" if "c \<in> set placed" for c
  proof -
    have "c \<in> set ?cs" using cs that by blast
    then obtain orphan where "whole_orphan B X s orphan = Some c" by (auto simp: List.map_filter_def)
    then show ?thesis using whole_orphan_id by (metis prod.collapse)
  qed
  have "snapshot_data_is_intact B X s sn \<and> (\<forall>b. sn_base_snapshot_id sn = Some b \<longrightarrow> b \<in> sn_id ` set (mf_snapshots m'))"
    if "sn \<in> set (mf_snapshots m') - set (mf_snapshots m)" for sn
  proof -
    have "sn \<in> set placed" using that by (auto simp: m' pl(1))
    with intact pl(4) show ?thesis by (auto simp: m')
  qed
  moreover have "set (mf_snapshots m) \<subseteq> set (mf_snapshots m')" by (auto simp: m' pl(1))
  ultimately show ?thesis using kept by blast
qed

end

text \<open>
  C23. Recovery only adds, and only deletes rubbish: every snapshot the manifest named is still in
  it, what was added has all its data intact and its base beside it, and no file was touched that
  lies outside \<^verbatim>\<open>snapshots/\<close> or in the directory of any snapshot now in the manifest.
\<close>

theorem recovery_safe:
  assumes "recover_or_reclaim_orphans (local_backend fsync ps) X (s, m) = (changed, s', m')"
  shows "set (mf_snapshots m) \<subseteq> set (mf_snapshots m')
    \<and> (\<forall>sn \<in> set (mf_snapshots m') - set (mf_snapshots m). snapshot_data_is_intact (local_backend fsync ps) X s sn
         \<and> (\<forall>b. sn_base_snapshot_id sn = Some b \<longrightarrow> b \<in> sn_id ` set (mf_snapshots m')))
    \<and> (\<forall>path. orphan_id X (known_ids X (mf_snapshots m')) path = None \<longrightarrow> fs_contents s' path = fs_contents s path)"
  by (rule local_store.recovery [OF assms])

section \<open>A concrete recovery\<close>

text \<open>The one tensor of \<open>run_ts1\<close> as it is stored, and a codec that knows its descriptor.\<close>

definition one_blob :: bytes where
  "one_blob = le_bytes 8 (3 :: 64 word) @ [1, 2, 3]"

definition one_rank :: rank_entry where
  "one_rank = make_rank_entry 0 ''snapshots/a/rank_0.pack''
     [\<lparr>pt_entry = (entry_for codec_ext sample_tensor [1, 2, 3] ''uint8'' None Full (Some one_blob) False)\<lparr>te_offset := header_len\<rparr>,
       pt_write_data = Some one_blob\<rparr>]"

definition pack_ext :: "index_doc \<Rightarrow> ranks_doc \<Rightarrow> ext" where
  "pack_ext ix rd = sample_ext (make_descriptor run_config 1 None run_cx one_rank) ix rd []"

definition orphan_ext :: ext where
  "orphan_ext = pack_ext undefined undefined"

lemma pack_hash [simp]: "hash_hex (pack_ext ix rd) = hash_hex codec_ext"
  by (simp add: hash_hex_def pack_ext_def codec_ext_def fun_eq_iff)

lemma pack_entry [simp]: "entry_for (pack_ext ix rd) = entry_for codec_ext"
  by (simp add: entry_for_def fun_eq_iff)

lemma pack_paths [simp]:
  "rank_pack_path (snapshot_dir (pack_ext ix rd) 1) 0 = ''snapshots/a/rank_0.pack''"
  "rank_pack_path (snapshot_dir (pack_ext ix rd) (Suc 0)) 0 = ''snapshots/a/rank_0.pack''"
  by (simp_all add: rank_pack_path_def snapshot_dir_def pack_ext_def nat_str.simps dec_digit_def)

lemma orphan_paths [simp]:
  "rank_pack_path (snapshot_dir orphan_ext 1) 0 = ''snapshots/a/rank_0.pack''"
  "rank_pack_path (snapshot_dir orphan_ext (Suc 0)) 0 = ''snapshots/a/rank_0.pack''"
  by (simp_all only: orphan_ext_def pack_paths)

text \<open>A full save of one tensor on an empty disk, whatever the remote store is.\<close>

lemma pack_saved:
  fixes R :: "local_fs backend option" and ix rd
  defines "X \<equiv> pack_ext ix rd" and "cfg \<equiv> run_config\<lparr>cc_remote_storage := R\<rparr>"
  shows "\<exists>s' ret'. save_rank_tensors (local_backend False 0) X cfg 1 (snapshot_dir X 1)
     None run_ts1 run_cx (empty_fs, None) = (Inr one_rank, (s', ret'))
   \<and> write_parts False 0 ''snapshots/a/rank_0.pack'' [encode_header 43 2, one_blob, [123, 125]] empty_fs = (Inr (), s')"
proof -
  let ?B = "local_backend False 0"
  have cfg_simps: "cc_save_dtype cfg = []" "cc_compression cfg = Zstd 3" "cc_rank cfg = 0"
    and paths: "rank_pack_path (snapshot_dir X 1) 0 = ''snapshots/a/rank_0.pack''"
    and entry: "entry_for X = entry_for codec_ext"
    by (simp_all add: cfg_def X_def)
  let ?p = "\<lparr>pt_entry = entry_for codec_ext sample_tensor [1, 2, 3] ''uint8'' None Full (Some one_blob) False, pt_write_data = Some one_blob\<rparr>"
  have z: "compress (x_zstd X) [1, 2, 3] (Zstd 3) = Inr one_blob"
    by (simp add: X_def pack_ext_def stored_zstd_def parallel_chunk_def compression_error_def one_blob_def)
  have "process_tensor ?B X empty_fs sample_tensor None (Zstd 3) (cc_delta_max_ratio cfg) [] = Inr ?p"
    using z by (simp add: process_tensor_def working_copy_def make_full_entry_def sample_tensor_def entry)
  then have pr: "process_rank ?B X empty_fs cfg None None run_ts1 = Inr [?p]"
    by (intro process_small)
      (simp_all add: run_ts1_def sample_tensor_def tensor_delta_min_size_def process_tensors_parallel_def build_base_cache_def cfg_simps)
  let ?parts = "[encode_header 43 2, one_blob, [123, 125]]"
  have len: "length one_blob = 11" by (simp add: one_blob_def)
  have off: "assign_offsets header_len [?p] = ([?p\<lparr>pt_entry := (pt_entry ?p)\<lparr>te_offset := header_len\<rparr>\<rparr>], 43)"
    by (simp add: len header_len_def)
  have parts: "pack_parts [?p\<lparr>pt_entry := (pt_entry ?p)\<lparr>te_offset := header_len\<rparr>\<rparr>] 43 [123, 125] = ?parts"
    by (simp add: pack_parts_def map_filter_Cons List.map_filter_simps)
  obtain s' where w: "write_parts False 0 ''snapshots/a/rank_0.pack'' ?parts empty_fs = (Inr (), s')"
    using put_first by (metis prod.collapse)
  have js: "serialization (js_to_vec (x_descriptor X) d) = Inr [123, 125]" for d
    by (simp add: serialization_def X_def pack_ext_def one_json_def)
  have put: "b_put_parts ?B = write_parts False 0" by (simp add: local_backend_def)
  show ?thesis
    unfolding save_rank_tensors_def prod.case cfg_simps pr sum.case off Let_def js put paths parts w
    by (simp add: one_rank_def w)
qed

lemma orphan_saved:
  "\<exists>s' ret'. save_rank_tensors (local_backend False 0) orphan_ext run_config 1 (snapshot_dir orphan_ext 1)
     None run_ts1 run_cx (empty_fs, None) = (Inr one_rank, (s', ret'))
   \<and> fs_contents s' ''snapshots/a/rank_0.pack'' = Some (encode_header 43 2 @ one_blob @ [123, 125])"
proof -
  have "run_config\<lparr>cc_remote_storage := None\<rparr> = run_config" by (simp add: run_config_def default_config_def)
  then show ?thesis using pack_saved [of undefined undefined None] write_parts_ok
    unfolding orphan_ext_def by fastforce
qed

theorem saved_pack_recovers_witness:
  "\<exists>s' ret'. save_rank_tensors (local_backend False 0) orphan_ext run_config 1 (snapshot_dir orphan_ext 1)
       None run_ts1 run_cx (empty_fs, None) = (Inr one_rank, (s', ret'))
     \<and> rebuild_from_packs (local_backend False 0) orphan_ext s' ''a'' [''snapshots/a/rank_0.pack'']
         = Some (saved_snapshot run_config 1 None run_cx one_rank)"
proof -
  obtain s' ret' where save: "save_rank_tensors (local_backend False 0) orphan_ext run_config 1 (snapshot_dir orphan_ext 1)
      None run_ts1 run_cx (empty_fs, None) = (Inr one_rank, (s', ret'))"
      and c: "fs_contents s' ''snapshots/a/rank_0.pack'' = Some (encode_header 43 2 @ one_blob @ [123, 125])"
    using orphan_saved by blast
  have "distinct (map td_name run_ts1)" "cc_world_size run_config = 1"
    by (simp_all add: run_ts1_def run_config_def default_config_def)
  moreover have "json_ok (x_descriptor orphan_ext) (make_descriptor run_config 1 None run_cx one_rank)"
    by (simp add: json_ok_def orphan_ext_def pack_ext_def one_json_def)
  moreover have "length d < 2 ^ 64" if "fs_contents s' (rank_pack_path (snapshot_dir orphan_ext 1) (cc_rank run_config)) = Some d" for d
    using that c by (auto simp: one_blob_def header_len_def)
  moreover have "filter (suffix ''.pack'') [''snapshots/a/rank_0.pack''] = [rank_pack_path (snapshot_dir orphan_ext 1) (cc_rank run_config)]"
    by (simp add: suffix_to_prefix)
  ultimately have "rebuild_from_packs (local_backend False 0) orphan_ext s' (x_uuid_str orphan_ext 1) [''snapshots/a/rank_0.pack'']
      = Some (saved_snapshot run_config 1 None run_cx one_rank)"
    using saved_pack_recovers [OF save] by blast
  with save show ?thesis by (auto simp: orphan_ext_def pack_ext_def)
qed

definition rubbish_fs :: local_fs where
  "rubbish_fs = empty_fs\<lparr>fs_dirs := [''snapshots'', ''snapshots/aaaa''],
     fs_files := [(manifest_path, [2]), (''snapshots/aaaa/rank_0.pack'', [9])]\<rparr>"

lemma rubbish_reclaimed:
  "fs_contents (fst (snd (recover_or_reclaim_orphans (local_backend False 0) orphan_ext (rubbish_fs, three_snapshots 5 9))))
     ''snapshots/aaaa/rank_0.pack'' = None"
proof -
  let ?B = "local_backend False 0"
  have files: "b_list ?B rubbish_fs ''snapshots'' = Inr [''snapshots/aaaa/rank_0.pack'']"
    by (simp add: b_list_def local_backend_def local_list_sized_def rubbish_fs_def fs_is_dir_def fs_is_file_def
        manifest_path_def under_prefix_def is_partial_def partial_prefix_def file_name_def)
  have orphans: "orphans_of orphan_ext (three_snapshots 5 9) [''snapshots/aaaa/rank_0.pack'']
      = [(''aaaa'', [''snapshots/aaaa/rank_0.pack''])]"
    by (simp add: orphans_of_def push_orphan_def orphan_id_def snapshots_prefix_def three_snapshots_def orphan_ext_def pack_ext_def
        numeral_eq_Suc)
  have "whole_orphan ?B orphan_ext rubbish_fs (''aaaa'', [''snapshots/aaaa/rank_0.pack'']) = None"
    by (simp add: whole_orphan_def rebuild_from_packs_def suffix_to_prefix read_descriptor_def local_backend_def
        local_get_range_def rubbish_fs_def manifest_path_def header_len_def decode_header_def)
  then have "fst (snd (recover_or_reclaim_orphans ?B orphan_ext (rubbish_fs, three_snapshots 5 9)))
      = reclaim ?B [(''aaaa'', [''snapshots/aaaa/rank_0.pack''])] ''aaaa'' rubbish_fs"
    by (simp add: recover_or_reclaim_orphans_def files orphans List.map_filter_def)
  moreover have "fs_contents (reclaim ?B [(''aaaa'', [''snapshots/aaaa/rank_0.pack''])] ''aaaa'' rubbish_fs)
      ''snapshots/aaaa/rank_0.pack'' = None"
    by (simp add: reclaim_def local_backend_def local_delete_def rubbish_fs_def fs_is_file_def manifest_path_def
        local_remove_dir_def fs_contents_def snapshots_prefix_def parent_path_def)
  ultimately show ?thesis by simp
qed

theorem recovery_safe_witness:
  "\<exists>changed s' m'. recover_or_reclaim_orphans (local_backend False 0) orphan_ext (rubbish_fs, three_snapshots 5 9) = (changed, s', m')
     \<and> plain 1 10 None \<in> set (mf_snapshots m') \<and> fs_contents s' manifest_path = Some [2]
     \<and> fs_contents s' ''snapshots/aaaa/rank_0.pack'' = None"
proof -
  obtain changed s' m' where run: "recover_or_reclaim_orphans (local_backend False 0) orphan_ext
      (rubbish_fs, three_snapshots 5 9) = (changed, s', m')"
    by (metis prod.collapse)
  have "plain 1 10 None \<in> set (mf_snapshots (three_snapshots 5 9))" by (simp add: three_snapshots_def)
  moreover have "orphan_id orphan_ext (known_ids orphan_ext (mf_snapshots m')) manifest_path = None"
    by (simp add: orphan_id_def snapshots_prefix_def manifest_path_def)
  moreover have "fs_contents rubbish_fs manifest_path = Some [2]" by (simp add: fs_contents_def rubbish_fs_def)
  moreover have "fs_contents s' ''snapshots/aaaa/rank_0.pack'' = None" using rubbish_reclaimed run by simp
  ultimately show ?thesis using recovery_safe [OF run] run by auto
qed

end
