(* ===== verification/Saver.thy ===== *)
theory Saver
  imports Prelude
begin

text \<open>
  The background save thread, \<^verbatim>\<open>src/src/coordinator/saver.rs\<close>: one job in flight, whose failure is
  kept for the next caller. The saver is generic in the job and in the state the jobs change; \<open>run\<close>
  is the save pipeline. First the sections of code a lock is held for, then the calls as they run
  beside one worker, then any number of calling threads and the worker as a step relation.
\<close>

section \<open>Shared state\<close>

datatype save_outcome = Saved | SaveFailed string | SavePanicked string

text \<open>
  \<open>sv_queue\<close> and \<open>sv_running\<close> are the channel and the job the worker is at; \<open>sv_receiver\<close> is
  whether the worker still holds the other end, \<open>sv_tx\<close> whether the saver holds its own.
\<close>

record 'j saver =
  sv_tx :: bool
  sv_busy :: bool
  sv_error :: "string option"
  sv_queue :: "'j list"
  sv_running :: "'j option"
  sv_receiver :: bool
  sv_last_wait :: nat

definition new_saver :: "'j saver" where
  "new_saver = \<lparr>sv_tx = True, sv_busy = False, sv_error = None, sv_queue = [], sv_running = None,
     sv_receiver = True, sv_last_wait = 0\<rparr>"

definition outcome_error :: "save_outcome \<Rightarrow> string option" where
  "outcome_error out = (case out of Saved \<Rightarrow> None | SaveFailed e \<Rightarrow> Some e
     | SavePanicked what \<Rightarrow> Some (''save thread panicked: '' @ what))"

text \<open>The worker receives a job, and clears the flag when it is through with it, whatever came of it.\<close>

definition take_job :: "'j saver \<Rightarrow> 'j saver" where
  "take_job sv = (case sv_queue sv of [] \<Rightarrow> sv | job # jobs \<Rightarrow> sv\<lparr>sv_queue := jobs, sv_running := Some job\<rparr>)"

definition finish_job :: "save_outcome \<Rightarrow> 'j saver \<Rightarrow> 'j saver" where
  "finish_job out sv = sv\<lparr>sv_busy := False, sv_running := None,
     sv_error := (case outcome_error out of None \<Rightarrow> sv_error sv | Some e \<Rightarrow> Some e)\<rparr>"

definition background_failed :: "string \<Rightarrow> moonclip_error" where
  "background_failed e = StorageErr (''Background save failed: '' @ e)"

text \<open>What a caller does under the lock once it has seen the saver idle.\<close>

definition flush_idle :: "'j saver \<Rightarrow> unit result \<times> 'j saver" where
  "flush_idle sv = (case sv_error sv of
     Some e \<Rightarrow> (Inl (background_failed e), sv\<lparr>sv_error := None\<rparr>) | None \<Rightarrow> (Inr (), sv))"

definition claim_slot :: "nat \<Rightarrow> 'j saver \<Rightarrow> unit result \<times> 'j saver" where
  "claim_slot waited sv =
     (let sv1 = sv\<lparr>sv_last_wait := waited\<rparr> in
      case sv_error sv1 of
        Some e \<Rightarrow> (Inl (background_failed e), sv1\<lparr>sv_error := None\<rparr>)
      | None \<Rightarrow> (Inr (), sv1\<lparr>sv_busy := True\<rparr>))"

definition send_job :: "'j \<Rightarrow> 'j saver \<Rightarrow> unit result \<times> 'j saver" where
  "send_job job sv =
     (if sv_receiver sv then (Inr (), sv\<lparr>sv_queue := sv_queue sv @ [job]\<rparr>)
      else (Inl (StorageErr ''Background saver channel closed''), sv\<lparr>sv_busy := False\<rparr>))"

definition close_channel :: "'j saver \<Rightarrow> 'j saver" where
  "close_channel sv = sv\<lparr>sv_tx := False\<rparr>"

text \<open>\<^verbatim>\<open>for job in rx\<close> ends when the channel is closed and empty.\<close>

definition worker_exit :: "'j saver \<Rightarrow> 'j saver" where
  "worker_exit sv = (if \<not> sv_tx sv \<and> sv_queue sv = [] then sv\<lparr>sv_receiver := False\<rparr> else sv)"

section \<open>The calls, beside one worker\<close>

definition worker_job :: "('j \<Rightarrow> 'c \<Rightarrow> save_outcome \<times> 'c) \<Rightarrow> 'j saver \<times> 'c \<Rightarrow> 'j saver \<times> 'c" where
  "worker_job run st =
     (case take_job (fst st) of sv \<Rightarrow>
       (case sv_running sv of
          None \<Rightarrow> (sv, snd st)
        | Some job \<Rightarrow> (case run job (snd st) of (out, c) \<Rightarrow> (finish_job out sv, c))))"

text \<open>\<open>None\<close> is a wait that never ends.\<close>

partial_function (option) wait_idle :: "('j \<Rightarrow> 'c \<Rightarrow> save_outcome \<times> 'c) \<Rightarrow> 'j saver \<times> 'c \<Rightarrow> ('j saver \<times> 'c) option" where
  "wait_idle run st = (if \<not> sv_busy (fst st) then Some st else wait_idle run (worker_job run st))"

definition saver_flush :: "('j \<Rightarrow> 'c \<Rightarrow> save_outcome \<times> 'c) \<Rightarrow> 'j saver \<times> 'c \<Rightarrow> (unit result \<times> 'j saver \<times> 'c) option" where
  "saver_flush run st = map_option (\<lambda>(sv, c). case flush_idle sv of (r, sv') \<Rightarrow> (r, sv', c)) (wait_idle run st)"

definition submit :: "('j \<Rightarrow> 'c \<Rightarrow> save_outcome \<times> 'c) \<Rightarrow> nat \<Rightarrow> 'j \<Rightarrow> 'j saver \<times> 'c \<Rightarrow> (unit result \<times> 'j saver \<times> 'c) option" where
  "submit run waited job st =
     (if \<not> sv_tx (fst st) then Some (Inl (StorageErr ''Background saver is shut down''), st)
      else map_option (\<lambda>(sv, c). case claim_slot waited sv of
          (Inl e, sv') \<Rightarrow> (Inl e, sv', c)
        | (Inr _, sv') \<Rightarrow> (case send_job job sv' of (r, sv'') \<Rightarrow> (r, sv'', c))) (wait_idle run st))"

definition shutdown :: "('j \<Rightarrow> 'c \<Rightarrow> save_outcome \<times> 'c) \<Rightarrow> 'j saver \<times> 'c \<Rightarrow> ('j saver \<times> 'c) option" where
  "shutdown run st = map_option (\<lambda>(sv, c). (worker_exit (close_channel sv), c)) (wait_idle run st)"

section \<open>Callers and the worker, interleaved\<close>

text \<open>
  \<open>sw_sending\<close> are the jobs of callers between their claim of the slot and the send. What was
  accepted, what came of each job and which errors callers were given is recorded beside the state.
\<close>

record 'j saver_world =
  sw_saver :: "'j saver"
  sw_sending :: "'j list"
  sw_accepted :: "'j list"
  sw_finished :: "('j \<times> save_outcome) list"
  sw_reported :: "moonclip_error list"

definition initial_saver :: "'j saver_world" where
  "initial_saver = \<lparr>sw_saver = new_saver, sw_sending = [], sw_accepted = [], sw_finished = [], sw_reported = []\<rparr>"

inductive saver_internal :: "'j saver_world \<Rightarrow> 'j saver_world \<Rightarrow> bool" where
  sent: "job \<in> set (sw_sending w) \<Longrightarrow> send_job job (sw_saver w) = (Inr u, sv) \<Longrightarrow>
    saver_internal w (w\<lparr>sw_saver := sv, sw_sending := remove1 job (sw_sending w), sw_accepted := sw_accepted w @ [job]\<rparr>)"
| send_failed: "job \<in> set (sw_sending w) \<Longrightarrow> send_job job (sw_saver w) = (Inl e, sv) \<Longrightarrow>
    saver_internal w (w\<lparr>sw_saver := sv, sw_sending := remove1 job (sw_sending w)\<rparr>)"
| received: "sv_receiver (sw_saver w) \<Longrightarrow> sv_running (sw_saver w) = None \<Longrightarrow> sv_queue (sw_saver w) \<noteq> [] \<Longrightarrow>
    saver_internal w (w\<lparr>sw_saver := take_job (sw_saver w)\<rparr>)"
| finished: "sv_running (sw_saver w) = Some job \<Longrightarrow>
    saver_internal w (w\<lparr>sw_saver := finish_job out (sw_saver w), sw_finished := sw_finished w @ [(job, out)]\<rparr>)"

inductive saver_step :: "'j saver_world \<Rightarrow> 'j saver_world \<Rightarrow> bool" where
  internal: "saver_internal w w' \<Longrightarrow> saver_step w w'"
| claimed: "sv_tx (sw_saver w) \<Longrightarrow> \<not> sv_busy (sw_saver w) \<Longrightarrow> claim_slot waited (sw_saver w) = (Inr u, sv) \<Longrightarrow>
    saver_step w (w\<lparr>sw_saver := sv, sw_sending := job # sw_sending w\<rparr>)"
| refused: "sv_tx (sw_saver w) \<Longrightarrow> \<not> sv_busy (sw_saver w) \<Longrightarrow> claim_slot waited (sw_saver w) = (Inl e, sv) \<Longrightarrow>
    saver_step w (w\<lparr>sw_saver := sv, sw_reported := sw_reported w @ [e]\<rparr>)"
| flushed: "\<not> sv_busy (sw_saver w) \<Longrightarrow> flush_idle (sw_saver w) = (Inr u, sv) \<Longrightarrow> saver_step w (w\<lparr>sw_saver := sv\<rparr>)"
| flush_failed: "\<not> sv_busy (sw_saver w) \<Longrightarrow> flush_idle (sw_saver w) = (Inl e, sv) \<Longrightarrow>
    saver_step w (w\<lparr>sw_saver := sv, sw_reported := sw_reported w @ [e]\<rparr>)"
| closed: "\<not> sv_busy (sw_saver w) \<Longrightarrow> saver_step w (w\<lparr>sw_saver := close_channel (sw_saver w)\<rparr>)"
| exited: "sv_running (sw_saver w) = None \<Longrightarrow> saver_step w (w\<lparr>sw_saver := worker_exit (sw_saver w)\<rparr>)"

inductive_cases saver_internalE: "saver_internal w w'"
inductive_cases saver_stepE: "saver_step w w'"

abbreviation saver_reachable :: "'j saver_world \<Rightarrow> bool" where
  "saver_reachable w \<equiv> saver_step\<^sup>*\<^sup>* initial_saver w"

definition option_list :: "'a option \<Rightarrow> 'a list" where
  "option_list x = (case x of None \<Rightarrow> [] | Some y \<Rightarrow> [y])"

lemma option_list_simps [simp]: "option_list None = []" "option_list (Some x) = [x]"
  by (simp_all add: option_list_def)

text \<open>The jobs a caller has handed over, or is handing over, and the worker is not through with.\<close>

definition outstanding :: "'j saver_world \<Rightarrow> 'j list" where
  "outstanding w = option_list (sv_running (sw_saver w)) @ sv_queue (sw_saver w) @ sw_sending w"

definition failures :: "('j \<times> save_outcome) list \<Rightarrow> string list" where
  "failures finished = List.map_filter (outcome_error \<circ> snd) finished"

lemma failures_simps [simp]:
  "failures [] = []" "failures (xs @ ys) = failures xs @ failures ys"
  "failures [(job, out)] = option_list (outcome_error out)"
  by (simp_all add: failures_def List.map_filter_def option_list_def split: option.splits)

definition saver_inv :: "'j saver_world \<Rightarrow> bool" where
  "saver_inv w \<longleftrightarrow> length (outstanding w) = (if sv_busy (sw_saver w) then 1 else 0)
     \<and> (sv_busy (sw_saver w) \<longrightarrow> sv_error (sw_saver w) = None \<and> sv_tx (sw_saver w))
     \<and> (sv_tx (sw_saver w) \<longrightarrow> sv_receiver (sw_saver w))
     \<and> sw_accepted w = map fst (sw_finished w) @ option_list (sv_running (sw_saver w)) @ sv_queue (sw_saver w)
     \<and> map background_failed (failures (sw_finished w))
         = sw_reported w @ map background_failed (option_list (sv_error (sw_saver w)))"

lemmas saver_simps = saver_inv_def outstanding_def take_job_def finish_job_def flush_idle_def claim_slot_def
  send_job_def close_channel_def worker_exit_def Let_def

lemma saver_inv_initial: "saver_inv initial_saver"
  by (simp add: saver_simps initial_saver_def new_saver_def)

lemma one_job: "job \<in> set jobs \<Longrightarrow> length jobs \<le> 1 \<Longrightarrow> jobs = [job]"
  by (cases jobs) auto

lemma saver_inv_internal: "saver_internal w w' \<Longrightarrow> saver_inv w \<Longrightarrow> saver_inv w'"
proof (induction rule: saver_internal.induct)
  case (sent job w u sv)
  then have "length (sw_sending w) + length (sv_queue (sw_saver w)) + length (option_list (sv_running (sw_saver w))) \<le> 1"
    by (auto simp: saver_inv_def outstanding_def split: if_splits)
  moreover have "0 < length (sw_sending w)" using sent(1) by (rule length_pos_if_in_set)
  ultimately have le: "length (sw_sending w) \<le> 1" and q: "length (sv_queue (sw_saver w)) = 0"
      and run: "length (option_list (sv_running (sw_saver w))) = 0"
    by linarith+
  have "sw_sending w = [job]" by (rule one_job [OF sent(1) le])
  moreover have "sv_queue (sw_saver w) = []" using q by simp
  moreover have "sv_running (sw_saver w) = None" using run by (cases "sv_running (sw_saver w)") simp_all
  moreover have "sv = sw_saver w\<lparr>sv_queue := sv_queue (sw_saver w) @ [job]\<rparr>"
    using sent(2) by (simp add: send_job_def split: if_splits)
  ultimately show ?case using sent(3) by (simp add: saver_inv_def outstanding_def)
next
  case (send_failed job w e sv)
  then have "sv_busy (sw_saver w)" "\<not> sv_receiver (sw_saver w)"
    by (auto simp: saver_simps split: if_splits)
  with send_failed show ?case by (auto simp: saver_inv_def)
next
  case (received w)
  then show ?case by (auto simp: saver_simps split: list.splits if_splits)
next
  case (finished w job out)
  then show ?case
    by (cases "outcome_error out") (auto simp: saver_simps split: if_splits)
qed

lemma saver_inv_step: "saver_step w w' \<Longrightarrow> saver_inv w \<Longrightarrow> saver_inv w'"
proof (induction rule: saver_step.induct)
  case (internal w w')
  then show ?case by (rule saver_inv_internal)
qed (auto simp: saver_simps split: option.splits if_splits)

lemma saver_inv_reachable: "saver_reachable w \<Longrightarrow> saver_inv w"
  by (induction rule: rtranclp_induct) (auto intro: saver_inv_initial saver_inv_step)

text \<open>
  C17. The queue holds one: however calling threads and the worker interleave, \<^verbatim>\<open>busy\<close> is set exactly
  while one job is outstanding, never two, and jobs are carried out in the order they were accepted,
  none twice and none forgotten.
\<close>

theorem saver_bound_one:
  assumes "saver_reachable w"
  shows "length (outstanding w) \<le> 1 \<and> (sv_busy (sw_saver w) \<longleftrightarrow> outstanding w \<noteq> [])
    \<and> sw_accepted w = map fst (sw_finished w) @ option_list (sv_running (sw_saver w)) @ sv_queue (sw_saver w)"
  using saver_inv_reachable [OF assms] by (cases "sv_busy (sw_saver w)") (auto simp: saver_inv_def)

text \<open>
  C18. A failed save is reported once: the errors callers were given are, in order, those of the jobs
  that failed or panicked, but for the last one while no call has picked it up yet. None is lost to
  a later job and none is reported twice.
\<close>

theorem saver_reports_once:
  assumes "saver_reachable w"
  shows "map background_failed (failures (sw_finished w))
    = sw_reported w @ map background_failed (option_list (sv_error (sw_saver w)))"
  using saver_inv_reachable [OF assms] by (simp add: saver_inv_def)

section \<open>Nobody waits for ever\<close>

definition steps_left :: "'j saver_world \<Rightarrow> nat" where
  "steps_left w = 3 * length (sw_sending w) + 2 * length (sv_queue (sw_saver w)) + length (option_list (sv_running (sw_saver w)))"

lemma internal_progress: "saver_internal w w' \<Longrightarrow> steps_left w' < steps_left w"
proof (induction rule: saver_internal.induct)
  case (sent job w u sv)
  then have "length (sw_sending w) = Suc (length (remove1 job (sw_sending w)))"
    by (metis length_remove1 One_nat_def Suc_pred length_pos_if_in_set)
  with sent show ?case by (auto simp: steps_left_def send_job_def split: if_splits)
next
  case (send_failed job w e sv)
  then have "length (sw_sending w) = Suc (length (remove1 job (sw_sending w)))"
    by (metis length_remove1 One_nat_def Suc_pred length_pos_if_in_set)
  with send_failed show ?case by (auto simp: steps_left_def send_job_def split: if_splits)
qed (auto simp: steps_left_def take_job_def finish_job_def split: list.splits)

lemma internal_bound: "(saver_internal ^^ n) w w' \<Longrightarrow> steps_left w' + n \<le> steps_left w"
proof (induction n arbitrary: w')
  case (Suc n)
  then obtain v where v: "(saver_internal ^^ n) w v" "saver_internal v w'" by (auto elim: relpowp_Suc_E)
  show ?case using Suc.IH [OF v(1)] internal_progress [OF v(2)] by simp
qed simp

lemma internal_enabled:
  assumes "saver_inv w" and "sv_busy (sw_saver w)"
  shows "\<exists>w'. saver_internal w w'"
proof (cases "sv_running (sw_saver w)")
  case (Some job)
  then show ?thesis by (blast intro: finished)
next
  case None
  have alive: "sv_receiver (sw_saver w)" using assms by (simp add: saver_inv_def)
  show ?thesis
  proof (cases "sv_queue (sw_saver w)")
    case (Cons job jobs)
    then show ?thesis using received [OF alive None] by auto
  next
    case Nil
    with assms None obtain job where "job \<in> set (sw_sending w)"
      by (auto simp: saver_inv_def outstanding_def length_Suc_conv)
    then show ?thesis using sent [of job w] alive by (auto simp: send_job_def)
  qed
qed

lemma internal_inv: "(saver_internal ^^ n) w w' \<Longrightarrow> saver_inv w \<Longrightarrow> saver_inv w'"
  by (induction n arbitrary: w') (auto elim!: relpowp_Suc_E intro: saver_inv_internal)


section \<open>The calls return\<close>

text \<open>One saver seen by one thread: nothing is being sent while that thread is in a call.\<close>

definition slot_held :: "'j saver \<Rightarrow> bool" where
  "slot_held sv \<longleftrightarrow> sv_running sv = None \<and> length (sv_queue sv) = (if sv_busy sv then 1 else 0)
     \<and> (sv_tx sv \<longrightarrow> sv_receiver sv)"

lemma wait_idle_idle [simp]: "\<not> sv_busy sv \<Longrightarrow> wait_idle run (sv, c) = Some (sv, c)"
  by (subst wait_idle.simps) simp

lemma wait_idle_busy:
  assumes "slot_held sv" and "sv_queue sv = [job]" and "run job c = (out, c')"
  shows "wait_idle run (sv, c) = Some (finish_job out (take_job sv), c')"
proof -
  have busy: "sv_busy sv" using assms(1,2) by (auto simp: slot_held_def split: if_splits)
  have "worker_job run (sv, c) = (finish_job out (take_job sv), c')"
    using assms(2,3) by (simp add: worker_job_def take_job_def)
  moreover have "\<not> sv_busy (finish_job out (take_job sv))" by (simp add: finish_job_def)
  ultimately show ?thesis using busy by (subst wait_idle.simps) simp
qed

lemma slot_held_new: "slot_held new_saver"
  by (simp add: slot_held_def new_saver_def)

lemma wait_idle_some:
  assumes "slot_held sv"
  obtains sv' c' where "wait_idle run (sv, c) = Some (sv', c')" "slot_held sv'" "\<not> sv_busy sv'" "sv_tx sv' = sv_tx sv"
proof (cases "sv_busy sv")
  case False
  with assms that show thesis by simp
next
  case True
  with assms obtain job where job: "sv_queue sv = [job]" by (auto simp: slot_held_def length_Suc_conv)
  obtain out c' where out: "run job c = (out, c')" by fastforce
  show thesis
  proof (rule that)
    show "wait_idle run (sv, c) = Some (finish_job out (take_job sv), c')" using assms job out by (rule wait_idle_busy)
  qed (use assms job in \<open>auto simp: slot_held_def finish_job_def take_job_def\<close>)
qed

text \<open>
  C15. The saver's calls return: from a new saver, and after any of them, waiting, flushing, submitting
  and shutting down come back, whatever the saves they wait for do - fail, panic or succeed - and
  leave the slot as it should be.
\<close>

theorem saver_calls_return:
  assumes "slot_held sv"
  shows "(\<exists>r sv' c'. saver_flush run (sv, c) = Some (r, sv', c') \<and> slot_held sv' \<and> \<not> sv_busy sv')
    \<and> (\<exists>r sv' c'. submit run waited job (sv, c) = Some (r, sv', c') \<and> slot_held sv' \<and> (r = Inr () \<longrightarrow> sv_queue sv' = [job]))
    \<and> (\<exists>sv' c'. shutdown run (sv, c) = Some (sv', c') \<and> slot_held sv' \<and> sv_queue sv' = [] \<and> \<not> sv_receiver sv')"
proof -
  obtain sv1 c1 where w: "wait_idle run (sv, c) = Some (sv1, c1)" and h: "slot_held sv1" "\<not> sv_busy sv1" "sv_tx sv1 = sv_tx sv"
    using assms by (rule wait_idle_some)
  have "\<exists>r sv' c'. saver_flush run (sv, c) = Some (r, sv', c') \<and> slot_held sv' \<and> \<not> sv_busy sv'"
    using h by (cases "sv_error sv1") (auto simp: saver_flush_def w flush_idle_def slot_held_def)
  moreover have "\<exists>r sv' c'. submit run waited job (sv, c) = Some (r, sv', c') \<and> slot_held sv' \<and> (r = Inr () \<longrightarrow> sv_queue sv' = [job])"
  proof (cases "sv_tx sv")
    case True
    with h show ?thesis
      by (cases "sv_error sv1") (auto simp: submit_def w claim_slot_def send_job_def slot_held_def Let_def)
  next
    case False
    with assms show ?thesis by (simp add: submit_def)
  qed
  moreover have "\<exists>sv' c'. shutdown run (sv, c) = Some (sv', c') \<and> slot_held sv' \<and> sv_queue sv' = [] \<and> \<not> sv_receiver sv'"
    using h by (auto simp: shutdown_def w worker_exit_def close_channel_def slot_held_def)
  ultimately show ?thesis by blast
qed

section \<open>A concrete run\<close>

text \<open>A job is submitted, fails, and is reported to the caller that comes next.\<close>

definition one_sending :: "nat saver_world" where
  "one_sending = \<lparr>sw_saver = new_saver\<lparr>sv_busy := True, sv_last_wait := 7\<rparr>, sw_sending = [3], sw_accepted = [],
     sw_finished = [], sw_reported = []\<rparr>"

definition one_failed :: "nat saver_world" where
  "one_failed = \<lparr>sw_saver = new_saver\<lparr>sv_error := Some ''disk full'', sv_last_wait := 7\<rparr>, sw_sending = [], sw_accepted = [3],
     sw_finished = [(3, SaveFailed ''disk full'')], sw_reported = []\<rparr>"

lemma one_sending_reachable: "saver_reachable one_sending"
proof -
  have "saver_step initial_saver one_sending"
    using claimed [of initial_saver 7 "()" "new_saver\<lparr>sv_busy := True, sv_last_wait := 7\<rparr>" 3]
    by (simp add: initial_saver_def one_sending_def new_saver_def claim_slot_def Let_def)
  then show ?thesis by blast
qed

lemma one_failed_run: "(saver_internal ^^ 3) one_sending one_failed"
proof -
  let ?sent = "one_sending\<lparr>sw_saver := (sw_saver one_sending)\<lparr>sv_queue := [3]\<rparr>, sw_sending := [], sw_accepted := [3]\<rparr>"
  have "saver_internal one_sending ?sent"
    using sent [of 3 one_sending "()" "(sw_saver one_sending)\<lparr>sv_queue := [3]\<rparr>"]
    by (simp add: one_sending_def send_job_def new_saver_def)
  moreover have "saver_internal ?sent (?sent\<lparr>sw_saver := take_job (sw_saver ?sent)\<rparr>)"
    by (rule received) (simp_all add: one_sending_def new_saver_def)
  moreover have "saver_internal (?sent\<lparr>sw_saver := take_job (sw_saver ?sent)\<rparr>) one_failed"
    using finished [of "?sent\<lparr>sw_saver := take_job (sw_saver ?sent)\<rparr>" 3 "SaveFailed ''disk full''"]
    by (simp add: one_sending_def one_failed_def new_saver_def take_job_def finish_job_def outcome_error_def)
  ultimately show ?thesis by (auto simp: numeral_3_eq_3)
qed

lemma one_failed_reachable: "saver_reachable one_failed"
proof -
  have "saver_internal\<^sup>*\<^sup>* one_sending one_failed" using one_failed_run by (rule relpowp_imp_rtranclp)
  then have "saver_step\<^sup>*\<^sup>* one_sending one_failed"
    by (induction rule: rtranclp_induct) (auto intro: rtranclp.rtrancl_into_rtrancl internal)
  with one_sending_reachable show ?thesis by (rule rtranclp_trans)
qed

theorem saver_bound_one_witness: "length (outstanding one_sending) \<le> 1 \<and> sw_sending one_sending = [3]"
  using saver_bound_one [OF one_sending_reachable] by (simp add: one_sending_def)

theorem saver_reports_once_witness:
  "map background_failed (failures (sw_finished one_failed)) = [StorageErr ''Background save failed: disk full'']"
  using saver_reports_once [OF one_failed_reachable] by (simp add: one_failed_def new_saver_def background_failed_def)


theorem saver_calls_return_witness:
  "\<exists>r sv' c'. saver_flush (\<lambda>job c. (SavePanicked ''boom'', c + job)) (new_saver :: nat saver, 5) = Some (r, sv', c')"
  using saver_calls_return [OF slot_held_new, of "\<lambda>job c. (SavePanicked ''boom'', c + job)" 5 7 2] by blast

end
