(* ===== verification/Coordinator.thy ===== *)
theory Coordinator
  imports Merger Recovery Saver
begin

text \<open>
  The coordinator, \<^verbatim>\<open>src/src/coordinator/mod.rs\<close>: the state \<^verbatim>\<open>Core\<close> shares with its background
  threads, and every operation on it in the order the code takes its steps. The manifest's mutex is
  not held from one end of a save or a load to the other; what other threads do while it is free is
  an argument of the operation (\<open>se_meanwhile\<close> and \<open>meanwhile\<close>), and so are the clock, new ids
  and the states of the registry an unlink sees while it waits.
\<close>

section \<open>State\<close>

record ('s, 'r) core =
  co_shared :: "'s shared"
  co_remote :: 'r
  co_retained :: "retained_base option"
  co_patterns_checked :: bool
  co_poisoned :: bool
  co_stale :: bool
  co_merger :: "delta_merger option"
  co_syncer :: "remote_syncer option"

abbreviation co_manifest :: "('s, 'r) core \<Rightarrow> manifest" where
  "co_manifest st \<equiv> sh_manifest (co_shared st)"

abbreviation co_store :: "('s, 'r) core \<Rightarrow> 's" where
  "co_store st \<equiv> sh_store (co_shared st)"

definition with_shared :: "('s shared \<Rightarrow> 's shared) \<Rightarrow> ('s, 'r) core \<Rightarrow> ('s, 'r) core" where
  "with_shared f st = st\<lparr>co_shared := f (co_shared st)\<rparr>"

definition with_store :: "'s \<Rightarrow> manifest \<Rightarrow> ('s, 'r) core \<Rightarrow> ('s, 'r) core" where
  "with_store s m = with_shared (\<lambda>sh. sh\<lparr>sh_store := s, sh_manifest := m\<rparr>)"

definition pin_ids :: "uuid list \<Rightarrow> ('s, 'r) core \<Rightarrow> ('s, 'r) core" where
  "pin_ids ids = with_shared (\<lambda>sh. sh\<lparr>sh_in_flight := pin (sh_in_flight sh) ids\<rparr>)"

definition unpin_ids :: "uuid list \<Rightarrow> ('s, 'r) core \<Rightarrow> ('s, 'r) core" where
  "unpin_ids ids = with_shared (\<lambda>sh. sh\<lparr>sh_in_flight := drop_pin (sh_in_flight sh) ids\<rparr>)"

text \<open>\<^verbatim>\<open>Coordinator::new\<close> after the manifest has been read: its threads and an empty registry.\<close>

definition new_core :: "'r coordinator_config \<Rightarrow> 's \<Rightarrow> manifest \<Rightarrow> 'r \<Rightarrow> ('s, 'r) core" where
  "new_core cfg s m remote =
     (let has_remote = (cc_remote_storage cfg \<noteq> None \<and> cc_remote_sync cfg \<noteq> None) in
      \<lparr>co_shared = \<lparr>sh_store = s, sh_manifest = m, sh_in_flight = empty_inflight,
          sh_deletes = (if has_remote then default_pending else disabled_pending)\<rparr>,
       co_remote = remote, co_retained = None, co_patterns_checked = False, co_poisoned = False, co_stale = False,
       co_merger = (if cc_merger cfg = None then None else Some new_merger),
       co_syncer = (case (cc_remote_storage cfg, cc_remote_sync cfg) of
           (Some _, Some every) \<Rightarrow> Some (new_syncer every) | _ \<Rightarrow> None)\<rparr>)"

definition open_core :: "'s backend \<Rightarrow> ext \<Rightarrow> 'r coordinator_config \<Rightarrow> 'r \<Rightarrow> 's \<Rightarrow> ('s, 'r) core result \<times> 's" where
  "open_core B X cfg remote s =
     (case open_store B X cfg s of (Inl e, s') \<Rightarrow> (Inl e, s') | (Inr m, s') \<Rightarrow> (Inr (new_core cfg s' m remote), s'))"

definition check_background_threads :: "('s, 'r) core \<Rightarrow> unit result" where
  "check_background_threads st =
     (let gone = (case co_merger st of Some dm \<Rightarrow> if dm_dead dm then [''merger''] else [] | None \<Rightarrow> [])
               @ (case co_syncer st of Some sy \<Rightarrow> if rs_dead sy then [''remote syncer''] else [] | None \<Rightarrow> [])
      in if gone = [] then Inr () else Inl (StorageErr (''Background thread gone: '' @ concat gone)))"

section \<open>The manifest in memory\<close>

text \<open>Taking the lock clears a poison and remembers that there was one.\<close>

definition lock_manifest :: "('s, 'r) core \<Rightarrow> ('s, 'r) core" where
  "lock_manifest st = (if co_poisoned st then st\<lparr>co_stale := True, co_poisoned := False\<rparr> else st)"

definition reload_manifest :: "'s backend \<Rightarrow> ext \<Rightarrow> (('s, 'r) core, unit) io" where
  "reload_manifest B X st =
     (let trusted = (\<not> co_stale st \<and> \<not> co_poisoned st);
          st1 = lock_manifest st;
          m = co_manifest st1
      in case load B X (co_store st1) (if trusted then Some m else None) of
           (Inl e, lent) \<Rightarrow> (Inl e, st1)
         | (Inr read, lent) \<Rightarrow>
             let m' = (case read of Some fresh \<Rightarrow> fresh | None \<Rightarrow> (case lent of Some left \<Rightarrow> left | None \<Rightarrow> m))
             in (Inr (), (with_store (co_store st1) m' st1)\<lparr>co_stale := False\<rparr>))"

definition heal_manifest :: "'s backend \<Rightarrow> ext \<Rightarrow> (('s, 'r) core, unit) io" where
  "heal_manifest B X st =
     (let st1 = (if co_poisoned st then st\<lparr>co_stale := True\<rparr> else st) in
      if \<not> co_stale st1 then (Inr (), st1)
      else case reload_manifest B X st1 of
        (Inl e, st2) \<Rightarrow> (Inl e, st2\<lparr>co_stale := True\<rparr>)
      | (Inr _, st2) \<Rightarrow> (Inr (), st2))"

definition persist_manifest :: "'s backend \<Rightarrow> ext \<Rightarrow> manifest \<Rightarrow> (('s, 'r) core, unit) io" where
  "persist_manifest B X m st =
     (case persist B X (co_store st, m) of (r, (s', m')) \<Rightarrow> (r, with_store s' m' st))"

section \<open>Saving, one rank\<close>

record ('s, 'r) save_env =
  se_now :: timestamp
  se_meanwhile :: "('s, 'r) core \<Rightarrow> ('s, 'r) core"
  se_seen :: "inflight list"
  se_merger_alive :: bool
  se_syncer_alive :: bool

text \<open>The base a save diffs against: none that a merge has claimed.\<close>

definition choose_base :: "manifest \<Rightarrow> inflight \<Rightarrow> nat \<Rightarrow> snapshot option" where
  "choose_base m reg step =
     (if should_force_full m step then None
      else case last_full_snapshot m of
        None \<Rightarrow> None
      | Some b \<Rightarrow> if is_doomed reg (sn_id b) then None else Some b)"

definition base_ids :: "snapshot option \<Rightarrow> uuid list" where
  "base_ids base = (case base of None \<Rightarrow> [] | Some b \<Rightarrow> [sn_id b])"

text \<open>The patterns that match nothing are complained of once per process.\<close>

definition check_dtype_patterns :: "'r coordinator_config \<Rightarrow> tensor_data list \<Rightarrow> ('s, 'r) core \<Rightarrow> string list \<times> ('s, 'r) core" where
  "check_dtype_patterns cfg tensors st =
     (if co_patterns_checked st then ([], st)
      else (dead_patterns (cc_save_dtype cfg) (map td_name tensors), st\<lparr>co_patterns_checked := True\<rparr>))"

text \<open>\<^verbatim>\<open>save_rank_tensors\<close> on the coordinator's store and retained base.\<close>

definition write_rank :: "'s backend \<Rightarrow> ext \<Rightarrow> 'r coordinator_config \<Rightarrow> uuid \<Rightarrow> snapshot option \<Rightarrow> tensor_data list
    \<Rightarrow> snapshot_context \<Rightarrow> (('s, 'r) core, rank_entry) io" where
  "write_rank B X cfg snap_id base tensors cx st =
     (case save_rank_tensors B X cfg snap_id (snapshot_dir X snap_id) base tensors cx (co_store st, co_retained st) of
        (r, (s', retained')) \<Rightarrow>
          (r, (with_store s' (co_manifest st) (snd (check_dtype_patterns cfg tensors st)))\<lparr>co_retained := retained'\<rparr>))"

definition notify_threads :: "('s, 'r) save_env \<Rightarrow> ('s, 'r) core \<Rightarrow> ('s, 'r) core" where
  "notify_threads env st =
     st\<lparr>co_merger := map_option (notify_merger (se_merger_alive env)) (co_merger st),
        co_syncer := map_option (notify_save (se_syncer_alive env)) (co_syncer st)\<rparr>"

text \<open>
  The end of both write paths: retention under the lock, then, with the lock and the pins given back,
  the files of what it evicted and word to the threads.
\<close>

definition record_snapshots :: "'s backend \<Rightarrow> ext \<Rightarrow> ('s, 'r) save_env \<Rightarrow> uuid list \<Rightarrow> manifest \<Rightarrow> (('s, 'r) core, unit) io" where
  "record_snapshots B X env pins m st =
     (case apply_retention B X (co_store st, m) of
        (Inl e, (s', m')) \<Rightarrow> (Inl e, unpin_ids pins (with_store s' m' st))
      | (Inr evicted, (s', m')) \<Rightarrow>
          (Inr (), notify_threads env (with_shared (unlink_snapshots B X (se_seen env) evicted)
             (unpin_ids pins (with_store s' m' st)))))"

definition push_snapshot :: "snapshot \<Rightarrow> manifest \<Rightarrow> manifest" where
  "push_snapshot sn m = m\<lparr>mf_snapshots := mf_snapshots m @ [sn]\<rparr>"

definition save_sync_in_pool :: "'s backend \<Rightarrow> ext \<Rightarrow> 'r coordinator_config \<Rightarrow> ('s, 'r) save_env \<Rightarrow> uuid \<Rightarrow> nat
    \<Rightarrow> tensor_data list \<Rightarrow> metadata \<Rightarrow> (('s, 'r) core, unit) io" where
  "save_sync_in_pool B X cfg env snap_id step tensors md =
     bind_io (heal_manifest B X) (\<lambda>_ st.
       let st1 = lock_manifest st;
           base = choose_base (co_manifest st1) (sh_in_flight (co_shared st1)) step;
           cx = \<lparr>cx_step = step, cx_created_at = se_now env, cx_metadata = md\<rparr>
       in case write_rank B X cfg snap_id base tensors cx (pin_ids (base_ids base) st1) of
            (Inl e, st2) \<Rightarrow> (Inl e, unpin_ids (base_ids base) st2)
          | (Inr re, st2) \<Rightarrow>
              let st3 = lock_manifest (se_meanwhile env st2)
              in record_snapshots B X env (base_ids base)
                   (push_snapshot (saved_snapshot cfg snap_id base cx re) (co_manifest st3)) st3)"

section \<open>Saving, many ranks\<close>

definition opened_snapshot :: "'r coordinator_config \<Rightarrow> uuid \<Rightarrow> nat \<Rightarrow> timestamp \<Rightarrow> uuid option \<Rightarrow> metadata \<Rightarrow> snapshot" where
  "opened_snapshot cfg snap_id step now base_id md =
     \<lparr>sn_id = snap_id, sn_step = step, sn_created_at = now, sn_ranks = [], sn_base_snapshot_id = base_id,
      sn_metadata = md, sn_compression = cc_compression cfg, sn_finalized = False, sn_pinned = False\<rparr>"

text \<open>The base is chosen in one critical section and named in another: no pin holds it in between.\<close>

definition create_snapshot :: "'s backend \<Rightarrow> ext \<Rightarrow> 'r coordinator_config \<Rightarrow> ('s, 'r) save_env \<Rightarrow> uuid \<Rightarrow> nat
    \<Rightarrow> metadata \<Rightarrow> (('s, 'r) core, uuid) io" where
  "create_snapshot B X cfg env snap_id step md =
     bind_io (heal_manifest B X) (\<lambda>_ st.
       let st1 = lock_manifest st;
           base_id = map_option sn_id (choose_base (co_manifest st1) (sh_in_flight (co_shared st1)) step);
           st2 = lock_manifest (se_meanwhile env st1);
           m = push_snapshot (opened_snapshot cfg snap_id step (se_now env) base_id md) (co_manifest st2)
       in bind_io (persist_manifest B X m) (\<lambda>_. ret_io snap_id) st2)"

definition base_of :: "manifest \<Rightarrow> snapshot \<Rightarrow> snapshot option" where
  "base_of m sn = Option.bind (sn_base_snapshot_id sn) (find_snapshot m)"

definition save_rank_in_pool :: "'s backend \<Rightarrow> ext \<Rightarrow> 'r coordinator_config \<Rightarrow> ('s, 'r) save_env \<Rightarrow> uuid
    \<Rightarrow> tensor_data list \<Rightarrow> (('s, 'r) core, unit) io" where
  "save_rank_in_pool B X cfg env snap_id tensors =
     bind_io (reload_manifest B X) (\<lambda>_ st.
       let st1 = lock_manifest st in
       case find_snapshot (co_manifest st1) snap_id of
         None \<Rightarrow> (Inl (NotFound ''Snapshot''), st1)
       | Some snap \<Rightarrow>
           let base = base_of (co_manifest st1) snap;
               cx = \<lparr>cx_step = sn_step snap, cx_created_at = sn_created_at snap, cx_metadata = sn_metadata snap\<rparr>
           in (case write_rank B X cfg snap_id base tensors cx (pin_ids (base_ids base) st1) of
                 (Inl e, st2) \<Rightarrow> (Inl e, unpin_ids (base_ids base) st2)
               | (Inr _, st2) \<Rightarrow> (Inr (), unpin_ids (base_ids base) (se_meanwhile env st2))))"

text \<open>What a pack says of itself; a pack that is there and does not say it is an error.\<close>

definition read_shard :: "'s backend \<Rightarrow> ext \<Rightarrow> 's \<Rightarrow> uuid \<Rightarrow> string \<Rightarrow> pack_descriptor result" where
  "read_shard B X s snap_id path =
     bind_res (b_get_range B s path 0 header_len) (\<lambda>header.
     bind_res (ok_or (decode_header header) (StorageErr ''no pack header'')) (\<lambda>(offset, len).
     bind_res (b_get_range B s path (unat offset) (unat len)) (\<lambda>encoded.
       if length encoded \<noteq> unat len then Inl (StorageErr ''truncated'')
       else bind_res (serialization (js_from_slice (x_descriptor X) encoded)) (\<lambda>d.
         if pd_snapshot_id d \<noteq> snap_id then Inl (StorageErr ''belongs to another snapshot'') else Inr d))))"

definition collect_rank_shards :: "'s backend \<Rightarrow> ext \<Rightarrow> 's \<Rightarrow> uuid \<Rightarrow> (nat \<times> rank_entry) list result" where
  "collect_rank_shards B X s snap_id =
     bind_res (case b_list B s (snapshot_dir X snap_id) of
         Inr files \<Rightarrow> Inr files | Inl (NotFound p) \<Rightarrow> Inr [] | Inl e \<Rightarrow> Inl e) (\<lambda>files.
     bind_res (map_res (read_shard B X s snap_id) (filter (suffix ''.pack'') files)) (\<lambda>ds.
       Inr (ranks_described ds)))"

text \<open>The first snapshot of that id gets its ranks, when they are all there.\<close>

fun close_snapshot :: "nat \<Rightarrow> (nat \<times> rank_entry) list \<Rightarrow> uuid \<Rightarrow> snapshot list \<Rightarrow> snapshot list result" where
  "close_snapshot expected shards snap_id [] = Inl (NotFound ''Snapshot'')"
| "close_snapshot expected shards snap_id (sn # sns) =
     (if sn_id sn = snap_id
      then if length shards < expected then Inl (ConfigErr ''Cannot finalize'')
           else Inr (sn\<lparr>sn_ranks := shards, sn_finalized := True\<rparr> # sns)
      else bind_res (close_snapshot expected shards snap_id sns) (\<lambda>sns'. Inr (sn # sns')))"

definition finalize_snapshot :: "'s backend \<Rightarrow> ext \<Rightarrow> 'r coordinator_config \<Rightarrow> ('s, 'r) save_env \<Rightarrow> uuid
    \<Rightarrow> (('s, 'r) core, unit) io" where
  "finalize_snapshot B X cfg env snap_id =
     bind_io (reload_manifest B X) (\<lambda>_ st.
       case collect_rank_shards B X (co_store st) snap_id of
         Inl e \<Rightarrow> (Inl e, st)
       | Inr shards \<Rightarrow>
           let st1 = lock_manifest (se_meanwhile env st) in
           (case close_snapshot (cc_world_size cfg) shards snap_id (mf_snapshots (co_manifest st1)) of
              Inl e \<Rightarrow> (Inl e, st1)
            | Inr sns \<Rightarrow> record_snapshots B X env [] ((co_manifest st1)\<lparr>mf_snapshots := sns\<rparr>) st1))"

section \<open>Loading\<close>

text \<open>The files this rank reads of the snapshots and this disk does not have, from the remote.\<close>

definition absent_files :: "'s backend \<Rightarrow> 's \<Rightarrow> nat \<Rightarrow> snapshot list \<Rightarrow> string list" where
  "absent_files B s rank sns =
     filter (\<lambda>f. b_exists B s f \<noteq> Inr True) (concat (map (\<lambda>sn. files_of sn (Some rank)) sns))"

definition fetch_absent :: "'s backend \<Rightarrow> 'r coordinator_config \<Rightarrow> snapshot list \<Rightarrow> (('s, 'r) core, unit) io" where
  "fetch_absent B cfg sns st =
     (case cc_remote_storage cfg of
        None \<Rightarrow> (Inr (), st)
      | Some R \<Rightarrow>
          let absent = absent_files B (co_store st) (cc_rank cfg) sns in
          if absent = [] then (Inr (), st)
          else (case copy_files (b_get R (co_remote st)) B absent (0, 0) (co_store st) of
                  (Inl e, s') \<Rightarrow> (Inl e, with_store s' (co_manifest st) st)
                | (Inr _, s') \<Rightarrow> (Inr (), with_store s' (co_manifest st) st)))"

definition read_ids :: "snapshot \<Rightarrow> uuid list" where
  "read_ids sn = sn_id sn # (case sn_base_snapshot_id sn of None \<Rightarrow> [] | Some b \<Rightarrow> [b])"

definition with_base :: "manifest \<Rightarrow> snapshot \<Rightarrow> snapshot list" where
  "with_base m sn = sn # (case base_of m sn of None \<Rightarrow> [] | Some b \<Rightarrow> [b])"

text \<open>The pinned ids are the guard: a failed fetch drops it.\<close>

definition pin_and_fetch :: "'s backend \<Rightarrow> 'r coordinator_config \<Rightarrow> uuid \<Rightarrow> (('s, 'r) core, uuid list) io" where
  "pin_and_fetch B cfg snap_id st =
     (let st1 = lock_manifest st; m = co_manifest st1 in
      case find_snapshot m snap_id of
        None \<Rightarrow> (Inl (NotFound ''Snapshot''), st1)
      | Some snap \<Rightarrow>
          (case fetch_absent B cfg (with_base m snap) (pin_ids (read_ids snap) st1) of
             (Inl e, st2) \<Rightarrow> (Inl e, unpin_ids (read_ids snap) st2)
           | (Inr _, st2) \<Rightarrow> (Inr (read_ids snap), st2)))"

definition core_load :: "'s backend \<Rightarrow> ext \<Rightarrow> 'r coordinator_config \<Rightarrow> (('s, 'r) core \<Rightarrow> ('s, 'r) core) \<Rightarrow> uuid
    \<Rightarrow> (('s, 'r) core, (string \<times> bytes) list) io" where
  "core_load B X cfg meanwhile snap_id =
     bind_io (pin_and_fetch B cfg snap_id) (\<lambda>pins st.
       let st1 = lock_manifest (meanwhile st);
           out = load_in_pool B X (co_store st1) (cc_rank cfg) (co_manifest st1) snap_id
       in (out, unpin_ids pins st1))"

definition load_latest :: "'s backend \<Rightarrow> ext \<Rightarrow> 'r coordinator_config \<Rightarrow> (('s, 'r) core \<Rightarrow> ('s, 'r) core)
    \<Rightarrow> (('s, 'r) core, uuid \<times> (string \<times> bytes) list) io" where
  "load_latest B X cfg meanwhile st =
     (let st1 = lock_manifest st in
      case newest_finalized (co_manifest st1) of
        None \<Rightarrow> (Inl (NotFound ''No finalized snapshots''), st1)
      | Some snap \<Rightarrow> bind_io (core_load B X cfg meanwhile (sn_id snap)) (\<lambda>data. ret_io (sn_id snap, data)) st1)"

definition core_load_tensors :: "'s backend \<Rightarrow> ext \<Rightarrow> 'r coordinator_config \<Rightarrow> uuid \<Rightarrow> string list
    \<Rightarrow> (('s, 'r) core, (string \<times> bytes) list) io" where
  "core_load_tensors B X cfg snap_id names =
     bind_io (pin_and_fetch B cfg snap_id) (\<lambda>pins st.
       (load_named B X (co_store st) (cc_rank cfg) (co_manifest st) snap_id names, unpin_ids pins st))"

section \<open>Restoring\<close>

definition ranks_listed :: "string \<Rightarrow> bool" where
  "ranks_listed key \<longleftrightarrow> prefix snapshots_prefix key \<and> suffix (''/'' @ ranks_file) key"

text \<open>What of a manifest can be loaded with the files of the bucket and this disk.\<close>

definition keep_whole :: "'s backend \<Rightarrow> 's \<Rightarrow> string list \<Rightarrow> snapshot list \<Rightarrow> snapshot list" where
  "keep_whole B s in_bucket sns =
     (let reachable = filter (snapshot_is_reachable B s in_bucket) sns;
          kept = map sn_id reachable
      in filter (\<lambda>sn. case sn_base_snapshot_id sn of None \<Rightarrow> True | Some b \<Rightarrow> b \<in> set kept) reachable)"

definition wanted_dirs :: "ext \<Rightarrow> manifest \<Rightarrow> string list" where
  "wanted_dirs X m =
     (case newest_finalized m of
        None \<Rightarrow> []
      | Some sn \<Rightarrow> map (\<lambda>i. snapshot_dir X i @ ''/'') (read_ids sn))"

definition wanted_key :: "string list option \<Rightarrow> string \<Rightarrow> bool" where
  "wanted_key wanted key \<longleftrightarrow> key \<noteq> manifest_path
     \<and> (case wanted of None \<Rightarrow> True
        | Some dirs \<Rightarrow> \<not> prefix snapshots_prefix key \<or> list_ex (\<lambda>dir. prefix dir key) dirs)"

definition core_restore :: "'s backend \<Rightarrow> ext \<Rightarrow> 'r coordinator_config \<Rightarrow> (('s, 'r) core, bool) io" where
  "core_restore B X cfg st =
     (case cc_remote_storage cfg of
        None \<Rightarrow> (Inr False, st)
      | Some R \<Rightarrow>
          let rs = co_remote st; leave = (\<lambda>s. with_store s (co_manifest st) st) in
          (case restore_manifest R rs B (co_store st) of
             (Inl e, s1) \<Rightarrow> (Inl e, leave s1)
           | (Inr False, s1) \<Rightarrow> (Inr False, leave s1)
           | (Inr True, s1) \<Rightarrow>
               (case b_list R rs [] of
                  Inl e \<Rightarrow> (Inl e, leave s1)
                | Inr keys \<Rightarrow>
                    (case copy_absent (b_get R rs) B [] (filter ranks_listed keys) s1 of
                       (Inl e, s2) \<Rightarrow> (Inl e, leave s2)
                     | (Inr _, s2) \<Rightarrow>
                         (case load_manifest B X s2 cfg of
                            Inl e \<Rightarrow> (Inl e, leave s2)
                          | Inr fresh \<Rightarrow>
                              let whole = keep_whole B s2 keys (mf_snapshots fresh);
                                  kept = fresh\<lparr>mf_snapshots := whole\<rparr>;
                                  (s3, m3) = (if length whole < length (mf_snapshots fresh)
                                              then snd (persist B X (s2, kept)) else (s2, kept));
                                  wanted = (if co_merger st = None then Some (wanted_dirs X m3) else None)
                              in (case copy_absent (b_get R rs) B [] (filter (wanted_key wanted) keys) s3 of
                                    (Inl e, s4) \<Rightarrow> (Inl e, leave s4)
                                  | (Inr _, s4) \<Rightarrow>
                                      (Inr (mf_snapshots m3 \<noteq> []), with_store s4 m3 (lock_manifest st))))))))"

section \<open>The other calls\<close>

definition core_describe :: "'r coordinator_config \<Rightarrow> uuid \<Rightarrow> (('s, 'r) core, snapshot_description) io" where
  "core_describe cfg snap_id st = (describe (co_manifest st) (cc_rank cfg) snap_id, lock_manifest st)"

definition core_describe_latest :: "'r coordinator_config \<Rightarrow> (('s, 'r) core, snapshot_description) io" where
  "core_describe_latest cfg st = (describe_latest (co_manifest st) (cc_rank cfg), lock_manifest st)"

definition core_list_snapshots :: "('s, 'r) core \<Rightarrow> snapshot_info list \<times> ('s, 'r) core" where
  "core_list_snapshots st = (list_snapshots (co_manifest st), lock_manifest st)"

definition core_set_pinned :: "'s backend \<Rightarrow> ext \<Rightarrow> nat \<Rightarrow> bool \<Rightarrow> (('s, 'r) core, bool) io" where
  "core_set_pinned B X step pinned st =
     (let st1 = lock_manifest st in
      case set_pinned B X step pinned (co_store st1, co_manifest st1) of (r, (s', m')) \<Rightarrow> (r, with_store s' m' st1))"

definition core_pinned_steps :: "'s backend \<Rightarrow> ext \<Rightarrow> ('s, 'r) core \<Rightarrow> nat list \<times> ('s, 'r) core" where
  "core_pinned_steps B X st =
     (let st1 = lock_manifest st in
      case pinned_steps B X (co_store st1) (co_manifest st1) of (steps, m') \<Rightarrow> (steps, with_store (co_store st1) m' st1))"

definition core_merge_now :: "bool \<Rightarrow> bool \<Rightarrow> 's backend \<Rightarrow> ext \<Rightarrow> 'r coordinator_config \<Rightarrow> 's merge_env list
    \<Rightarrow> (('s, 'r) core, unit) io" where
  "core_merge_now alive answers B X cfg envs st =
     (case co_merger st of
        None \<Rightarrow> (Inr (), st)
      | Some dm \<Rightarrow>
          (case force_full_merge alive answers B X (cc_compression cfg) envs (dm, co_shared st) of
             (r, (dm', sh')) \<Rightarrow> (r, st\<lparr>co_merger := Some dm', co_shared := sh'\<rparr>)))"

definition core_sync_now :: "bool \<Rightarrow> bool \<Rightarrow> 's backend \<Rightarrow> 'r coordinator_config \<Rightarrow> (('s, 'r) core, unit) io" where
  "core_sync_now alive answers B cfg st =
     (case (co_syncer st, cc_remote_storage cfg) of
        (Some sy, Some R) \<Rightarrow>
          (case sync_now alive answers B (co_store st) R (sy, co_remote st, sh_deletes (co_shared st)) of
             (r, sy', rs', q') \<Rightarrow>
               (r, (with_shared (\<lambda>sh. sh\<lparr>sh_deletes := q'\<rparr>) st)\<lparr>co_syncer := Some sy', co_remote := rs'\<rparr>))
      | _ \<Rightarrow> (Inr (), st))"

definition core_sync_prefix :: "bool \<Rightarrow> string \<Rightarrow> (('s, 'r) core, unit) io" where
  "core_sync_prefix alive pre st =
     (case co_syncer st of
        None \<Rightarrow> (Inr (), st)
      | Some sy \<Rightarrow> (case queue_prefix alive pre sy of (r, sy') \<Rightarrow> (r, st\<lparr>co_syncer := Some sy'\<rparr>)))"

end
