(* ===== verification/MergeLoads.thy ===== *)
theory MergeLoads
  imports Merger
begin

text \<open>
  A full merge keeps what is read: the merged snapshot loads to what the newest delta loaded to.
  The merger has its own reader (\<^verbatim>\<open>load_tensor_data\<close>, \<^verbatim>\<open>base_tensor_data\<close>), so this is the agreement
  of two implementations of the storage format, followed by the composition of the merge's steps.
\<close>

section \<open>The two readers agree\<close>

text \<open>How the coordinator stores a rank: one pack, every name once, one compression.\<close>

definition packed_rank :: "compression_algo \<Rightarrow> nat \<Rightarrow> snapshot \<Rightarrow> bool" where
  "packed_rank algo rank sn \<longleftrightarrow> sn_compression sn = algo
     \<and> (case rank_of rank sn of None \<Rightarrow> True
        | Some re \<Rightarrow> re_pack_file re \<noteq> None \<and> distinct (map te_name (re_tensors re))
            \<and> list_all (\<lambda>e. te_filename e = None) (re_tensors re))"

lemma packed_rankD:
  assumes "packed_rank algo rank sn" and "rank_of rank sn = Some re"
  obtains path where "re_pack_file re = Some path" "distinct (map te_name (re_tensors re))"
    "\<And>e. e \<in> set (re_tensors re) \<Longrightarrow> te_filename e = None" "sn_compression sn = algo"
  using assms by (auto simp: packed_rank_def list_all_iff)

lemma extract_wholeD:
  assumes "extract_compressed B s e (Whole c) = Inr z" and "te_filename e = None"
  shows "z = take (te_compressed_size e) (drop (te_offset e) c)"
  using assms by (auto simp: extract_compressed_def Let_def ok_or_def split: if_splits)

lemma load_resolver_baseD:
  assumes "find_snapshot m b = Some bs" "rank_of rank bs = Some re" "re_pack_file re = Some path"
    "b_get B s path = Inr c" "distinct (map te_name (re_tensors re))"
    and "prefetch_base B s rank m sn re' = Inr ctx" and "sn_base_snapshot_id sn = Some b"
    and "load_resolver B s rank m ctx b n = Inr (f, a, p)"
  shows "find (\<lambda>t. te_name t = n) (re_tensors re) = Some f \<and> a = sn_compression bs \<and> p = Whole c"
proof (cases "find (\<lambda>t. te_name t = n) (re_tensors re)")
  case (Some e)
  then show ?thesis using load_resolver_base [OF assms(1-7) Some] assms(8) by simp
next
  case None
  have "load_resolver B s rank m ctx b n = Inl (NotFound ''Tensor not in base snapshot'')"
  proof (cases "list_ex (\<lambda>t. te_storage t \<noteq> Full) (re_tensors re')")
    case True
    then have "ctx = Some (b, collect_map (map (\<lambda>t. (te_name t, t)) (re_tensors re)), sn_compression bs, Whole c)"
      using assms(1-4,6,7) by (simp add: prefetch_base_def)
    then show ?thesis using None find_collect [OF assms(5), of n] by (simp add: load_resolver_def ok_or_def)
  next
    case False
    then have "ctx = None" using assms(6) by (simp add: prefetch_base_def)
    then show ?thesis using assms(1,2) None
      by (simp add: load_resolver_def find_base_tensor_entry_with_pack_def ok_or_def)
  qed
  with assms(8) show ?thesis by simp
qed

lemma load_resolver_found:
  assumes "load_resolver B s rank m ctx b k = Inr x" and "prefetch_base B s rank m sn re = Inr ctx"
    and "sn_base_snapshot_id sn = Some b" and "find_snapshot m b = Some bs"
  obtains re1 where "rank_of rank bs = Some re1"
    "\<And>path. re_pack_file re1 = Some path \<Longrightarrow> \<exists>c. b_get B s path = Inr c"
proof (cases "ctx")
  case None
  then have "find_base_tensor_entry_with_pack B s rank m True b k = Inr x"
    using assms(1) by (simp add: load_resolver_def)
  then show ?thesis using assms(4) that
    by (auto simp: find_base_tensor_entry_with_pack_def effect_simps split: option.splits)
next
  case (Some y)
  then show ?thesis using assms(2-4) that
    by (auto simp: prefetch_base_def effect_simps Let_def split: if_splits option.splits bool.splits)
qed

context reliable_backend
begin

text \<open>\<open>s\<close> is the store the merge reads, \<open>s'\<close> the one the load did; the packs are the same in both.\<close>

lemma same_compressed:
  assumes "map_of (sn_ranks sn) rank = Some re" "re_pack_file re = Some path" "contents s path = Some c"
    and "te_filename e = None" and "extract_compressed B s' e (Whole c) = Inr z"
    and "load_compressed_data B s sn rank e = Inr z'"
  shows "z' = z"
  using assms extract_wholeD [OF assms(5,4)]
  by (auto simp: load_compressed_data_def range_complete effect_simps split: if_splits)

lemma same_full:
  assumes "map_of (sn_ranks sn) rank = Some re" "re_pack_file re = Some path" "contents s path = Some c"
    and "te_filename e = None" and "te_storage e = Full"
    and raw: "load_tensor_raw B X s' R e i algo (Whole c) = Inr raw"
    and d: "load_tensor_data B X s algo sn rank e = Inr d"
  shows "d = raw"
proof -
  obtain z where z: "extract_compressed B s' e (Whole c) = Inr z" "decompress (x_zstd X) z algo = Inr raw"
    using raw assms(5) by (subst (asm) load_tensor_raw.simps) (auto simp: effect_simps split: option.splits if_splits)
  obtain z' where "load_compressed_data B s sn rank e = Inr z'" "decompress (x_zstd X) z' algo = Inr d"
    using d assms(5) by (auto simp: load_tensor_data_def effect_simps)
  with same_compressed [OF assms(1-4) z(1)] z(2) show ?thesis by simp
qed

lemma load_base_full:
  "load_tensor_raw B X s R f None algo p = Inr raw \<Longrightarrow> te_storage f = Full"
  by (subst (asm) load_tensor_raw.simps) (auto simp: effect_simps ok_or_def split: tensor_storage.splits)

lemma same_base:
  assumes "map_of (sn_ranks bs) rank = Some re" "re_pack_file re = Some path" "contents s path = Some c"
    and nf: "\<And>e. e \<in> set (re_tensors re) \<Longrightarrow> te_filename e = None"
    and R: "\<And>k f a p. R b k = Inr (f, a, p)
      \<Longrightarrow> find (\<lambda>t. te_name t = k) (re_tensors re) = Some f \<and> a = algo \<and> p = Whole c"
    and raw: "load_tensor_raw B X s' R f None a p = Inr raw"
  shows "resolve_hops n R b name = Inr (f, a, p) \<Longrightarrow> base_hops n B X s algo bs rank re name = Inr d \<Longrightarrow> d = raw"
proof (induction n arbitrary: name)
  case (Suc n)
  obtain e a1 p1 where e: "R b name = Inr (e, a1, p1)"
      and next_hop: "if te_storage e \<noteq> Alias then (e, a1, p1) = (f, a, p)
        else \<exists>target. te_alias_of e = Some target \<and> resolve_hops n R b target = Inr (f, a, p)"
    using Suc.prems(1) by (auto simp: effect_simps split: if_splits)
  note fe = R [OF e]
  show ?case
  proof (cases "te_storage e = Alias")
    case True
    with next_hop Suc.prems(2) fe show ?thesis using Suc.IH by (auto simp: effect_simps)
  next
    case False
    with next_hop have "e = f" "a = algo" "p = Whole c" using fe by simp_all
    moreover from this Suc.prems(2) fe False have "load_tensor_data B X s algo bs rank f = Inr d"
      by (simp add: ok_or_def)
    moreover have "te_storage f = Full" using raw by (rule load_base_full)
    moreover have "te_filename f = None" using fe nf \<open>e = f\<close> by (auto dest: find_Some_iff_mem)
    ultimately show ?thesis using same_full [OF assms(1-3)] raw by blast
  qed
qed simp

text \<open>Whatever way a tensor is stored, the merger gets the bytes the loader gets.\<close>

lemma current_data_loaded:
  assumes src: "map_of (sn_ranks src) rank = Some re" "re_pack_file re = Some path" "contents s path = Some c"
    and e: "te_filename e = None" "te_storage e \<noteq> Alias"
    and raw: "load_tensor_raw B X s' R e (sn_base_snapshot_id src) algo (Whole c) = Inr raw"
    and base: "\<And>b k x. sn_base_snapshot_id src = Some b \<Longrightarrow> R b k = Inr x \<Longrightarrow>
      \<exists>re1 path1 c1. map_of (sn_ranks bs) rank = Some re1 \<and> re_pack_file re1 = Some path1 \<and> contents s path1 = Some c1
        \<and> (\<forall>f \<in> set (re_tensors re1). te_filename f = None)
        \<and> (\<forall>k f a p. R b k = Inr (f, a, p)
            \<longrightarrow> find (\<lambda>t. te_name t = k) (re_tensors re1) = Some f \<and> a = algo \<and> p = Whole c1)"
    and d: "current_data B X s algo bs src rank e = Inr d"
  shows "d = raw"
proof -
  have same: "d1 = raw1"
    if b: "sn_base_snapshot_id src = Some b" and r: "resolve_base_entry R b (te_name e) = Inr (f, a, p)"
      "load_tensor_raw B X s' R f None a p = Inr raw1" and d1: "base_tensor_data B X s algo bs rank (te_name e) = Inr d1"
    for b f a p raw1 d1
  proof -
    obtain x where "R b (te_name e) = Inr x"
      using r(1) by (auto simp: resolve_base_entry_def numeral_eq_Suc effect_simps)
    from base [OF b this] obtain re1 path1 c1 where re1: "map_of (sn_ranks bs) rank = Some re1"
        "re_pack_file re1 = Some path1" "contents s path1 = Some c1"
        "\<And>f. f \<in> set (re_tensors re1) \<Longrightarrow> te_filename f = None"
        "\<And>k f a p. R b k = Inr (f, a, p)
            \<Longrightarrow> find (\<lambda>t. te_name t = k) (re_tensors re1) = Some f \<and> a = algo \<and> p = Whole c1"
      by blast
    show ?thesis
      using same_base [OF re1 r(2), where n = 8 and name = "te_name e" and d = d1] r(1) d1 re1(1)
      by (simp add: resolve_base_entry_def base_tensor_data_def)
  qed
  show ?thesis
  proof (cases "te_storage e")
    case Full
    with d same_full [OF src e(1) Full raw] show ?thesis by (simp add: current_data_def)
  next
    case Skipped
    then obtain b f a p where "sn_base_snapshot_id src = Some b" "resolve_base_entry R b (te_name e) = Inr (f, a, p)"
        "load_tensor_raw B X s' R f None a p = Inr raw"
      using raw by (subst (asm) load_tensor_raw.simps) (auto simp: effect_simps)
    with same d Skipped show ?thesis by (simp add: current_data_def)
  next
    case DeltaXor
    let ?un = "\<lambda>x. if te_shuffled e then unshuffle x (element_size (te_dtype e)) else x"
    obtain z x b f a p base_raw where l: "extract_compressed B s' e (Whole c) = Inr z"
        "decompress (x_zstd X) z algo = Inr x" "sn_base_snapshot_id src = Some b"
        "resolve_base_entry R b (te_name e) = Inr (f, a, p)" "load_tensor_raw B X s' R f None a p = Inr base_raw"
        "apply_delta base_raw (?un x) = Inr raw"
      using raw DeltaXor by (subst (asm) load_tensor_raw.simps) (auto simp: effect_simps Let_def split: if_splits)
    obtain d1 z' x' where m: "base_tensor_data B X s algo bs rank (te_name e) = Inr d1"
        "load_compressed_data B s src rank e = Inr z'" "decompress (x_zstd X) z' algo = Inr x'"
        "apply_delta d1 (?un x') = Inr d"
      using d DeltaXor by (auto simp: current_data_def effect_simps Let_def)
    have "z' = z" using same_compressed [OF src e(1) l(1) m(2)] .
    moreover have "d1 = base_raw" using same [OF l(3,4,5) m(1)] .
    ultimately show ?thesis using l(2,6) m(3,4) by (simp split: if_splits)
  qed (use e(2) in simp)
qed

end

section \<open>A merged rank\<close>

text \<open>What becomes of an entry, before and after its bytes have a place in a pack.\<close>

definition merged_of :: "'s backend \<Rightarrow> ext \<Rightarrow> 's \<Rightarrow> compression_algo \<Rightarrow> snapshot \<Rightarrow> snapshot \<Rightarrow> nat
    \<Rightarrow> (nat \<Rightarrow> bytes \<Rightarrow> bool) \<Rightarrow> tensor_entry \<Rightarrow> tensor_entry \<Rightarrow> bool" where
  "merged_of B X s algo bs src rank holds e e' \<longleftrightarrow>
     (if te_storage e = Alias then e' = e
      else \<exists>raw z off. current_data B X s algo bs src rank e = Inr raw
        \<and> compress (x_zstd X) raw algo = Inr z \<and> e' = merged_entry X e off raw z \<and> holds off z)"

lemma merged_of_mono:
  "merged_of B X s algo bs src rank P e e' \<Longrightarrow> (\<And>off z. P off z \<Longrightarrow> Q off z)
    \<Longrightarrow> merged_of B X s algo bs src rank Q e e'"
  unfolding merged_of_def by (meson)

lemma merged_of_alias: "te_storage e = Alias \<Longrightarrow> merged_of B X s algo bs src rank P e e' \<longleftrightarrow> e' = e"
  by (simp add: merged_of_def)

lemma merge_tensors_shape:
  "merge_tensors B X s algo bs src rank es acc = Inr mr \<Longrightarrow>
     \<exists>es' blobs. mr_tensors mr = mr_tensors acc @ es' \<and> mr_blobs mr = mr_blobs acc @ blobs
       \<and> mr_offset mr = mr_offset acc + length (concat blobs)
       \<and> list_all2 (merged_of B X s algo bs src rank (placed_at (mr_offset acc) (concat blobs))) es es'"
proof (induction es arbitrary: acc)
  case (Cons e es)
  from Cons.prems obtain acc1 where step: "merge_tensor B X s algo bs src rank e acc = Inr acc1"
      and rest: "merge_tensors B X s algo bs src rank es acc1 = Inr mr"
    by (auto simp: effect_simps)
  from Cons.IH [OF rest] obtain es' blobs where ih: "mr_tensors mr = mr_tensors acc1 @ es'"
      "mr_blobs mr = mr_blobs acc1 @ blobs" "mr_offset mr = mr_offset acc1 + length (concat blobs)"
      "list_all2 (merged_of B X s algo bs src rank (placed_at (mr_offset acc1) (concat blobs))) es es'"
    by blast
  show ?case
  proof (cases "te_storage e = Alias")
    case True
    with step ih show ?thesis
      by (intro exI [of _ "e # es'"] exI [of _ blobs]) (auto simp: merge_tensor_def merged_of_alias)
  next
    case False
    then obtain raw z where z: "current_data B X s algo bs src rank e = Inr raw"
        "compress (x_zstd X) raw algo = Inr z"
        "mr_tensors acc1 = mr_tensors acc @ [merged_entry X e (mr_offset acc) raw z]"
        "mr_blobs acc1 = mr_blobs acc @ [z]" "mr_offset acc1 = mr_offset acc + length z"
      using step by (auto simp: merge_tensor_def effect_simps)
    have "placed_at (mr_offset acc) (concat (z # blobs)) (mr_offset acc) z"
      by (auto simp: placed_at_def intro: exI [of _ "[]"])
    with z False have "merged_of B X s algo bs src rank (placed_at (mr_offset acc) (concat (z # blobs))) e
        (merged_entry X e (mr_offset acc) raw z)"
      by (auto simp: merged_of_def)
    moreover have "list_all2 (merged_of B X s algo bs src rank (placed_at (mr_offset acc) (concat (z # blobs)))) es es'"
      using ih(4) z(5) placed_at_later by (auto elim!: list_all2_mono merged_of_mono)
    ultimately show ?thesis using ih(1-3) z(3-5)
      by (intro exI [of _ "merged_entry X e (mr_offset acc) raw z # es'"] exI [of _ "z # blobs"]) simp
  qed
qed simp

lemma rank_pack_path_eq [simp]: "rank_pack_path d r = rank_pack_path d r' \<longleftrightarrow> r = r'"
  by (simp add: rank_pack_path_def)

text \<open>A pack whose entries hold what the merge computed.\<close>

definition pack_merged :: "'s backend \<Rightarrow> ext \<Rightarrow> 's \<Rightarrow> compression_algo \<Rightarrow> snapshot \<Rightarrow> snapshot \<Rightarrow> nat
    \<Rightarrow> tensor_entry list \<Rightarrow> bytes \<Rightarrow> tensor_entry list \<Rightarrow> bool" where
  "pack_merged B X s algo bs src rank es c es' \<longleftrightarrow>
     list_all2 (merged_of B X s algo bs src rank (\<lambda>off z. off + length z \<le> length c \<and> take (length z) (drop off c) = z)) es es'"

context backend_contract
begin

lemma merge_rank_merged:
  assumes "merge_rank B X algo p rank source s = (Inr re, s')"
  obtains c where "contents s' = (contents s)(rank_pack_path (snapshot_dir X (mp_id p)) rank \<mapsto> c)"
    "re_pack_file re = Some (rank_pack_path (snapshot_dir X (mp_id p)) rank)"
    "pack_merged B X s algo (mp_base p) (source_snapshot p rank) rank (re_tensors source) c (re_tensors re)"
proof -
  let ?path = "rank_pack_path (snapshot_dir X (mp_id p)) rank"
  obtain mr encoded where mr: "merge_tensors B X s algo (mp_base p) (source_snapshot p rank) rank (re_tensors source) no_tensors = Inr mr"
      and re: "re = merged_rank_entry rank ?path mr"
      and put: "b_put_parts B ?path (encode_header (of_nat (mr_offset mr)) (of_nat (length encoded)) # mr_blobs mr @ [encoded]) s = (Inr (), s')"
    using assms by (auto simp: merge_rank_def Let_def bind_io_def ret_io_def split: sum.splits prod.splits)
  obtain es' blobs where sh: "mr_tensors mr = es'" "mr_blobs mr = blobs"
      "list_all2 (merged_of B X s algo (mp_base p) (source_snapshot p rank) rank (placed_at header_len (concat blobs))) (re_tensors source) es'"
    using merge_tensors_shape [OF mr] by (auto simp: no_tensors_def)
  let ?h = "encode_header (of_nat (mr_offset mr)) (of_nat (length encoded))"
  obtain n where n: "padded (concat (?h # blobs @ [encoded])) = concat (?h # blobs @ [encoded]) @ replicate n 0"
    using padded_zeros by blast
  let ?c = "?h @ concat blobs @ (encoded @ replicate n 0)"
  have "contents s' = (contents s)(?path \<mapsto> ?c)" using put_parts_ok [OF put] n sh(2) by simp
  moreover have "off + length z \<le> length ?c \<and> take (length z) (drop off ?c) = z"
    if "placed_at header_len (concat blobs) off z" for off z
  proof -
    from that obtain before after where "concat blobs = before @ z @ after" "off = header_len + length before"
      by (auto simp: placed_at_def)
    then show ?thesis by simp
  qed
  then have "pack_merged B X s algo (mp_base p) (source_snapshot p rank) rank (re_tensors source) ?c es'"
    using sh(3) by (auto simp: pack_merged_def elim!: list_all2_mono merged_of_mono)
  ultimately show thesis using that sh(1) by (simp add: re merged_rank_entry_def Let_def)
qed

lemma merge_ranks_merged:
  "merge_ranks B X algo p ranks s = (Inr res, s') \<Longrightarrow> distinct ranks \<Longrightarrow>
    (\<forall>q. (\<forall>r \<in> set ranks. q \<noteq> rank_pack_path (snapshot_dir X (mp_id p)) r) \<longrightarrow> contents s' q = contents s q)
    \<and> (\<forall>rank \<in> set ranks. \<forall>source. map_of (sn_ranks (source_snapshot p rank)) rank = Some source \<longrightarrow>
        (\<exists>re t c. map_of res rank = Some re
          \<and> re_pack_file re = Some (rank_pack_path (snapshot_dir X (mp_id p)) rank)
          \<and> contents s' (rank_pack_path (snapshot_dir X (mp_id p)) rank) = Some c
          \<and> (\<forall>q. (\<forall>r \<in> set ranks. q \<noteq> rank_pack_path (snapshot_dir X (mp_id p)) r) \<longrightarrow> contents t q = contents s q)
          \<and> pack_merged B X t algo (mp_base p) (source_snapshot p rank) rank (re_tensors source) c (re_tensors re)))"
proof (induction ranks arbitrary: s res)
  case (Cons rank ranks)
  let ?path = "rank_pack_path (snapshot_dir X (mp_id p))"
  show ?case
  proof (cases "map_of (sn_ranks (source_snapshot p rank)) rank")
    case None
    with Cons.prems have rest: "merge_ranks B X algo p ranks s = (Inr res, s')" by simp
    have dist: "distinct ranks" using Cons.prems(2) by simp
    from Cons.IH [OF rest this] None show ?thesis by (simp (no_asm_simp) add: imp_conjL) (metis option.distinct(1))
  next
    case (Some source)
    with Cons.prems(1) obtain re s1 res' where one: "merge_rank B X algo p rank source s = (Inr re, s1)"
        and rest: "merge_ranks B X algo p ranks s1 = (Inr res', s')" and res: "res = (rank, re) # res'"
      by (auto simp: bind_io_def ret_io_def split: sum.splits prod.splits)
    obtain c where c: "contents s1 = (contents s)(?path rank \<mapsto> c)" "re_pack_file re = Some (?path rank)"
        "pack_merged B X s algo (mp_base p) (source_snapshot p rank) rank (re_tensors source) c (re_tensors re)"
      using one by (rule merge_rank_merged)
    note ih = Cons.IH [OF rest]
    have dist: "distinct ranks" "rank \<notin> set ranks" using Cons.prems(2) by simp_all
    note other = conjunct1 [OF ih [OF dist(1)], rule_format]
    have head: "contents s' (?path rank) = Some c"
      using other [of "?path rank"] dist(2) c(1) by (auto simp: image_iff)
    show ?thesis
    proof (intro conjI allI impI ballI)
      fix q assume "\<forall>r \<in> set (rank # ranks). q \<noteq> ?path r"
      then show "contents s' q = contents s q" using other [of q] c(1) by simp
    next
      fix r src assume r: "r \<in> set (rank # ranks)" and src: "map_of (sn_ranks (source_snapshot p r)) r = Some src"
      show "\<exists>re t c. map_of res r = Some re \<and> re_pack_file re = Some (?path r) \<and> contents s' (?path r) = Some c
          \<and> (\<forall>q. (\<forall>r \<in> set (rank # ranks). q \<noteq> ?path r) \<longrightarrow> contents t q = contents s q)
          \<and> pack_merged B X t algo (mp_base p) (source_snapshot p r) r (re_tensors src) c (re_tensors re)"
      proof (cases "r = rank")
        case True
        with c head src Some show ?thesis unfolding res
          by (intro exI [of _ re] exI [of _ s] exI [of _ c]) simp
      next
        case False
        with r have "r \<in> set ranks" by simp
        then obtain re1 t1 c1 where "map_of res' r = Some re1" "re_pack_file re1 = Some (?path r)" "contents s' (?path r) = Some c1"
            "\<forall>q. (\<forall>r \<in> set ranks. q \<noteq> ?path r) \<longrightarrow> contents t1 q = contents s1 q"
            "pack_merged B X t1 algo (mp_base p) (source_snapshot p r) r (re_tensors src) c1 (re_tensors re1)"
          using ih [OF dist(1)] src by blast
        with False c(1) show ?thesis unfolding res
          by (intro exI [of _ re1] exI [of _ t1] exI [of _ c1]) simp
      qed
    qed
  qed
qed simp

end

section \<open>Loading what was merged\<close>

lemma map_res_same:
  assumes "list_all2 P es es'" and "map_res f (filter Q es) = Inr ys"
    and "\<And>e e' y. P e e' \<Longrightarrow> Q e \<Longrightarrow> f e = Inr y \<Longrightarrow> g e' = Inr y" and "\<And>e e'. P e e' \<Longrightarrow> Q e' \<longleftrightarrow> Q e"
  shows "map_res g (filter Q es') = Inr ys"
  using assms(1,2)
proof (induction arbitrary: ys rule: list_all2_induct)
  case (Cons e es e' es')
  then show ?case using assms(3) assms(4) [OF Cons.hyps(1)]
    by (auto simp: effect_simps split: if_splits)
qed simp

lemma load_aliases_same:
  assumes "list_all2 (\<lambda>e e'. if te_storage e = Alias then e' = e else te_storage e' \<noteq> Alias) es es'"
  shows "load_aliases es' out = load_aliases es out"
  using assms by (induction arbitrary: out rule: list_all2_induct) (auto split: if_splits intro!: bind_res_cong)

lemma merged_entry_simps [simp]:
  "te_name (merged_entry X e off raw z) = te_name e" "te_storage (merged_entry X e off raw z) = Full"
  "te_offset (merged_entry X e off raw z) = off" "te_compressed_size (merged_entry X e off raw z) = length z"
  "te_hash_compressed (merged_entry X e off raw z) = Some (hash_hex X z)"
  "te_dtype (merged_entry X e off raw z) = te_dtype e"
  "te_original_dtype (merged_entry X e off raw z) = te_original_dtype e"
  "te_quant_scale (merged_entry X e off raw z) = te_quant_scale e"
  by (simp_all add: merged_entry_def)

lemma load_in_poolE:
  assumes "load_in_pool B X s rank m i = Inr out" and "find_snapshot m i = Some sn"
    and "rank_of rank sn = Some re" and "re_pack_file re = Some path"
  obtains c ctx pairs where "b_get B s path = Inr c" "prefetch_base B s rank m sn re = Inr ctx"
    "map_res (\<lambda>e. bind_res (load_tensor B X s (load_resolver B s rank m ctx) e (sn_base_snapshot_id sn)
        (sn_compression sn) (Whole c)) (\<lambda>data. Inr (te_name e, data)))
      (filter (\<lambda>e. te_storage e \<noteq> Alias) (re_tensors re)) = Inr pairs"
    "load_aliases (re_tensors re) (collect_map pairs) = Inr out"
  using assms by (auto simp: load_in_pool_def effect_simps)

context reliable_backend
begin

lemma merged_loads:
  assumes pack: "pack_merged B X t algo bs src rank (re_tensors re) c (re_tensors re')"
    and new: "find_snapshot m' i = Some sn'" "rank_of rank sn' = Some re'" "re_pack_file re' = Some path'"
      "sn_base_snapshot_id sn' = None" "sn_compression sn' = algo" "contents s' path' = Some c"
    and old: "find_snapshot m j = Some src" "rank_of rank src = Some re" "re_pack_file re = Some path"
      "sn_compression src = algo" "load_in_pool B X s rank m j = Inr out"
    and zs: "zstd_sound X algo"
    and same: "\<And>e raw d c0 ctx. e \<in> set (re_tensors re) \<Longrightarrow> te_storage e \<noteq> Alias \<Longrightarrow> b_get B s path = Inr c0
      \<Longrightarrow> prefetch_base B s rank m src re = Inr ctx
      \<Longrightarrow> load_tensor_raw B X s (load_resolver B s rank m ctx) e (sn_base_snapshot_id src) algo (Whole c0) = Inr raw
      \<Longrightarrow> current_data B X t algo bs src rank e = Inr d \<Longrightarrow> d = raw"
  shows "load_in_pool B X s' rank m' i = Inr out"
proof -
  obtain c0 ctx pairs where l: "b_get B s path = Inr c0" "prefetch_base B s rank m src re = Inr ctx"
      "map_res (\<lambda>e. bind_res (load_tensor B X s (load_resolver B s rank m ctx) e (sn_base_snapshot_id src) algo (Whole c0))
          (\<lambda>data. Inr (te_name e, data))) (filter (\<lambda>e. te_storage e \<noteq> Alias) (re_tensors re)) = Inr pairs"
      "load_aliases (re_tensors re) (collect_map pairs) = Inr out"
    using load_in_poolE [OF old(5,1,2,3)] unfolding old(4) by blast
  let ?M = "merged_of B X t algo bs src rank (\<lambda>off z. off + length z \<le> length c \<and> take (length z) (drop off c) = z)"
  let ?M' = "\<lambda>e e'. e \<in> set (re_tensors re) \<and> ?M e e'"
  have all: "list_all2 ?M' (re_tensors re) (re_tensors re')"
    using pack unfolding pack_merged_def list_all2_conv_all_nth by simp
  have get: "b_get B s' path' = Inr c" using new(6) by (rule get_complete)
  have pre: "prefetch_base B s' rank m' sn' re' = Inr None" by (simp add: prefetch_base_def new(4) split: bool.splits)
  let ?g = "\<lambda>e. bind_res (load_tensor B X s' (load_resolver B s' rank m' None) e None algo (Whole c))
      (\<lambda>data. Inr (te_name e, data))"
  have "map_res ?g (filter (\<lambda>e. te_storage e \<noteq> Alias) (re_tensors re')) = Inr pairs"
  proof (rule map_res_same [OF all l(3)])
    fix e e' y
    assume ee: "?M' e e'" and na: "te_storage e \<noteq> Alias"
      and y: "bind_res (load_tensor B X s (load_resolver B s rank m ctx) e (sn_base_snapshot_id src) algo (Whole c0))
          (\<lambda>data. Inr (te_name e, data)) = Inr y"
    from ee na obtain d z off where d: "current_data B X t algo bs src rank e = Inr d" "compress (x_zstd X) d algo = Inr z"
        "e' = merged_entry X e off d z" "off + length z \<le> length c" "take (length z) (drop off c) = z"
      by (auto simp: merged_of_def)
    from y obtain raw where raw: "load_tensor_raw B X s (load_resolver B s rank m ctx) e (sn_base_snapshot_id src) algo (Whole c0) = Inr raw"
      by (auto simp: load_tensor_def effect_simps)
    have "d = raw" using same [OF _ na l(1,2) raw d(1)] ee by blast
    moreover have "load_tensor_raw B X s' (load_resolver B s' rank m' None) e' None algo (Whole c) = Inr d"
    proof (rule load_full_entry)
      show "extract_compressed B s' e' (Whole c) = Inr z" using d(3-5) by (simp add: extract_compressed_def)
      show "decompress (x_zstd X) z algo = Inr d"
        using zs d(2) by (auto simp: zstd_sound_def intro: decompress_compressed)
    qed (simp_all add: d(3))
    ultimately show "?g e' = Inr y" using y raw d(3)
      by (cases "te_original_dtype e") (simp_all add: load_tensor_def split: if_splits)
  next
    fix e e' assume "?M' e e'" then show "te_storage e' \<noteq> Alias \<longleftrightarrow> te_storage e \<noteq> Alias"
      by (auto simp: merged_of_def split: if_splits)
  qed
  moreover have "load_aliases (re_tensors re') (collect_map pairs) = Inr out"
  proof -
    have "list_all2 (\<lambda>e e'. if te_storage e = Alias then e' = e else te_storage e' \<noteq> Alias) (re_tensors re) (re_tensors re')"
      using all by (rule list_all2_mono) (auto simp: merged_of_def split: if_splits)
    with l(4) show ?thesis by (simp add: load_aliases_same)
  qed
  ultimately show ?thesis
    using new(1-3) get pre by (simp add: load_in_pool_def new(4,5))
qed

end

section \<open>The whole merge\<close>

text \<open>The new snapshot's directory is its own.\<close>

definition fresh_packs :: "ext \<Rightarrow> uuid \<Rightarrow> snapshot list \<Rightarrow> bool" where
  "fresh_packs X i sns \<longleftrightarrow> list_all (\<lambda>sn. sn_id sn \<noteq> i
     \<and> list_all (\<lambda>path. \<not> prefix (snapshot_dir X i) path) (snapshot_files sn)) sns"

text \<open>The other threads, while the merge does not hold the lock, keep off the snapshot it is making.\<close>

definition spares :: "('s \<Rightarrow> string \<Rightarrow> bytes option) \<Rightarrow> ext \<Rightarrow> 's merge_env \<Rightarrow> 's shared \<Rightarrow> bool" where
  "spares contents X env st \<longleftrightarrow> (\<forall>x. sh_manifest x = sh_manifest st \<longrightarrow>
     me_id env \<notin> sn_id ` set (mf_snapshots (sh_manifest (me_meanwhile env x)))
     \<and> (\<forall>path. prefix (snapshot_dir X (me_id env)) path
          \<longrightarrow> contents (sh_store (me_meanwhile env x)) path = contents (sh_store x) path))"

lemma plan_mergeE:
  assumes "plan_merge m reg = Inr r"
  obtains (stopped) outcome where "r = Inl outcome" "outcome \<noteq> Merged"
  | (planned) bs deltas reg' where "r = Inr (bs, deltas, reg')" "last_full_snapshot m = Some bs"
      "deltas = filter (\<lambda>s. sn_base_snapshot_id s = Some (sn_id bs) \<and> sn_finalized s) (mf_snapshots m)"
      "deltas \<noteq> []" "list_all (\<lambda>s. sn_base_snapshot_id s = Some (sn_id bs) \<longrightarrow> sn_finalized s) (mf_snapshots m)"
      "claim reg (sn_id bs # map sn_id deltas) = Some reg'"
proof -
  obtain bs where bs: "last_full_snapshot m = Some bs" using assms by (auto simp: plan_merge_def effect_simps)
  let ?ds = "filter (\<lambda>s. sn_base_snapshot_id s = Some (sn_id bs) \<and> sn_finalized s) (mf_snapshots m)"
  let ?busy = "list_ex (\<lambda>s. sn_base_snapshot_id s = Some (sn_id bs) \<and> \<not> sn_finalized s) (mf_snapshots m)"
  have r: "r = (if ?ds = [] then Inl NothingToMerge else if ?busy then Inl Busy
      else case claim reg (sn_id bs # map sn_id ?ds) of None \<Rightarrow> Inl Busy | Some reg' \<Rightarrow> Inr (bs, ?ds, reg'))"
    using assms bs by (simp add: plan_merge_def Let_def split: if_splits option.splits)
  show thesis
  proof (cases "?ds = [] \<or> ?busy \<or> claim reg (sn_id bs # map sn_id ?ds) = None")
    case True
    with r stopped show ?thesis by (metis (no_types, lifting) merge_outcome.distinct option.case(1))
  next
    case False
    then have "list_all (\<lambda>s. sn_base_snapshot_id s = Some (sn_id bs) \<longrightarrow> sn_finalized s) (mf_snapshots m)"
      by (auto simp: list_all_iff list_ex_iff)
    moreover from False obtain reg' where "claim reg (sn_id bs # map sn_id ?ds) = Some reg'" by blast
    moreover from this False r have "r = Inr (bs, ?ds, reg')" by simp
    ultimately show ?thesis using planned bs False by blast
  qed
qed

definition plan_of :: "'s merge_env \<Rightarrow> snapshot \<Rightarrow> snapshot list \<Rightarrow> merge_plan" where
  "plan_of env bs deltas = \<lparr>mp_base = bs, mp_deltas = deltas, mp_id = me_id env, mp_created_at = me_now env\<rparr>"

lemma plan_of_simps [simp]:
  "mp_base (plan_of env bs deltas) = bs" "mp_deltas (plan_of env bs deltas) = deltas"
  "mp_id (plan_of env bs deltas) = me_id env" "last_delta (plan_of env bs deltas) = last deltas"
  by (simp_all add: plan_of_def last_delta_def)

lemma full_merge_steps:
  assumes "do_full_merge_within B X algo env st = (r, st')"
    and "plan_merge (sh_manifest st) (sh_in_flight st) = Inr (Inr (bs, deltas, reg))"
  obtains (build) e s1 where "r = Inl e" "sh_manifest st' = sh_manifest st" "sh_store st' = s1"
      "merge_ranks B X algo (plan_of env bs deltas) (merged_rank_ids (plan_of env bs deltas)) (sh_store st) = (Inl e, s1)"
  | (publish) ranks s1 q st3 where
      "merge_ranks B X algo (plan_of env bs deltas) (merged_rank_ids (plan_of env bs deltas)) (sh_store st) = (Inr ranks, s1)"
      "replace_snapshots B X (with_merged (plan_of env bs deltas) (merged_snapshot (plan_of env bs deltas) algo ranks)
           (mf_snapshots (sh_manifest (me_meanwhile env (st\<lparr>sh_in_flight := reg, sh_store := s1\<rparr>)))))
         (me_meanwhile env (st\<lparr>sh_in_flight := reg, sh_store := s1\<rparr>)) = (q, st3)"
      "sh_manifest st' = sh_manifest st3" "r = (case q of Inl e \<Rightarrow> Inl e | Inr _ \<Rightarrow> Inr Merged)"
      "sh_store st' = (case q of Inl e \<Rightarrow> sh_store st3
         | Inr _ \<Rightarrow> sh_store (unlink_snapshots B X (me_seen env) (deltas @ [bs]) st3))"
proof -
  let ?p = "plan_of env bs deltas"
  obtain m s1 where m: "merge_ranks B X algo ?p (merged_rank_ids ?p) (sh_store st) = (m, s1)" by fastforce
  let ?st2 = "me_meanwhile env (st\<lparr>sh_in_flight := reg, sh_store := s1\<rparr>)"
  show thesis
  proof (cases m)
    case (Inl e)
    with m assms build show ?thesis by (auto simp: do_full_merge_within_def plan_of_def [symmetric] Let_def)
  next
    case (Inr ranks)
    obtain q st3 where q: "replace_snapshots B X (with_merged ?p (merged_snapshot ?p algo ranks)
        (mf_snapshots (sh_manifest ?st2))) ?st2 = (q, st3)" by fastforce
    show ?thesis
    proof (rule publish [OF m [unfolded Inr] q])
      show "sh_manifest st' = sh_manifest st3" "r = (case q of Inl e \<Rightarrow> Inl e | Inr _ \<Rightarrow> Inr Merged)"
        "sh_store st' = (case q of Inl e \<Rightarrow> sh_store st3
         | Inr _ \<Rightarrow> sh_store (unlink_snapshots B X (me_seen env) (deltas @ [bs]) st3))"
        using assms m q Inr
        by (cases q; force simp: do_full_merge_within_def plan_of_def [symmetric] Let_def)+
    qed
  qed
qed

lemma full_merge_planned:
  assumes "do_full_merge_within B X algo env st = (Inr Merged, st')"
  obtains bs deltas reg where "plan_merge (sh_manifest st) (sh_in_flight st) = Inr (Inr (bs, deltas, reg))"
proof (cases "plan_merge (sh_manifest st) (sh_in_flight st)")
  case (Inr r)
  then show ?thesis
  proof (cases rule: plan_mergeE)
    case (stopped outcome)
    with assms Inr show ?thesis by (simp add: do_full_merge_within_def)
  next
    case (planned bs deltas reg')
    with Inr that show ?thesis by blast
  qed
qed (use assms in \<open>simp add: do_full_merge_within_def\<close>)

lemma find_unique:
  assumes "x \<in> set xs" and "f x = i" and "\<And>y. y \<in> set xs \<Longrightarrow> f y = i \<Longrightarrow> y = x"
  shows "find (\<lambda>y. f y = i) xs = Some x"
proof (cases "find (\<lambda>y. f y = i) xs")
  case None
  with assms(1,2) show ?thesis by (simp add: find_None_all)
next
  case (Some y)
  then have "y \<in> set xs" "f y = i" by (auto dest: find_Some_iff_mem)
  with assms(3) Some show ?thesis by simp
qed

lemma rank_pack_ranks_path [simp]: "rank_pack_path d r \<noteq> ranks_path X j"
proof
  assume "rank_pack_path d r = ranks_path X j"
  then have "last (rank_pack_path d r) = last (ranks_path X j)" by simp
  then show False by (simp add: rank_pack_path_def ranks_path_def ranks_file_def)
qed

lemma rank_pack_manifest_path [simp]: "rank_pack_path (snapshot_dir X i) r \<noteq> manifest_path"
  by (simp add: rank_pack_path_def snapshot_dir_def manifest_path_def)

lemma prefix_rank_pack [simp]: "prefix d (rank_pack_path d r)"
  by (simp add: rank_pack_path_def)

context backend_contract
begin

lemma unlink_files_other:
  "path \<notin> set files \<Longrightarrow> contents (fst (fold (unlink_file B) files (s, q))) path = contents s path"
  by (induction files arbitrary: s q) (auto simp: unlink_file_def delete_other)

lemma unlink_snapshot_other:
  assumes "path \<notin> set (snapshot_files sn)" and "path \<noteq> ranks_path X (sn_id sn)"
  shows "contents (fst (unlink_snapshot B X sn (s, q))) path = contents s path"
proof -
  obtain s1 q1 where "fold (unlink_file B) (snapshot_files sn) (s, q) = (s1, q1)" by fastforce
  moreover from this have "contents s1 path = contents s path"
    using unlink_files_other [OF assms(1), of s q] by simp
  ultimately show ?thesis using assms(2)
    by (simp add: unlink_snapshot_def Let_def unlink_file_def remove_dir_keeps delete_other split: prod.splits)
qed

lemma unlink_snapshots_other:
  assumes "\<And>sn. sn \<in> set doomed \<Longrightarrow> path \<notin> set (snapshot_files sn) \<and> path \<noteq> ranks_path X (sn_id sn)"
  shows "contents (sh_store (unlink_snapshots B X seen doomed st)) path = contents (sh_store st) path"
proof -
  have "contents (fst (fold (unlink_snapshot B X) doomed (s, q))) path = contents s path" for s q
    using assms
  proof (induction doomed arbitrary: s q)
    case (Cons sn doomed)
    obtain s1 q1 where "unlink_snapshot B X sn (s, q) = (s1, q1)" by fastforce
    with Cons unlink_snapshot_other [of path sn X s q] show ?case by simp
  qed simp
  from this [of "sh_store st" "sh_deletes st"] show ?thesis
    by (auto simp: unlink_snapshots_def split: prod.splits)
qed

end

lemma fresh_packsD:
  assumes "fresh_packs X i sns" and "sn \<in> set sns"
  shows "sn_id sn \<noteq> i" and "path \<in> set (snapshot_files sn) \<Longrightarrow> \<not> prefix (snapshot_dir X i) path"
  using assms by (auto simp: fresh_packs_def list_all_iff)

lemma snapshot_files_pack:
  "rank_of rank sn = Some re \<Longrightarrow> re_pack_file re = Some path \<Longrightarrow> path \<in> set (snapshot_files sn)"
  by (force simp: rank_of_def snapshot_files_def rank_files_def dest: map_of_SomeD)

lemma distinct_sort_dedup: "distinct (sort_dedup xs)"
  by (simp add: sort_dedup_def distinct_remdups_adj_sorted)

context reliable_backend
begin

text \<open>What the packs and the manifest hold once the merge is through.\<close>

lemma full_merge_published:
  assumes run: "do_full_merge_within B X algo env st = (Inr Merged, st')"
    and plan: "plan_merge (sh_manifest st) (sh_in_flight st) = Inr (Inr (bs, deltas, reg))"
    and fresh: "fresh_packs X (me_id env) (mf_snapshots (sh_manifest st))" and sp: "spares contents X env st"
    and src: "map_of (sn_ranks (source_snapshot (plan_of env bs deltas) rank)) rank = Some source"
    and some: "source_snapshot (plan_of env bs deltas) rank \<in> {bs, last deltas}"
  shows "\<exists>sn' re' t c. find_snapshot (sh_manifest st') (me_id env) = Some sn' \<and> sn_base_snapshot_id sn' = None
    \<and> sn_compression sn' = algo \<and> rank_of rank sn' = Some re'
    \<and> re_pack_file re' = Some (rank_pack_path (snapshot_dir X (me_id env)) rank)
    \<and> contents (sh_store st') (rank_pack_path (snapshot_dir X (me_id env)) rank) = Some c
    \<and> (\<forall>q. \<not> prefix (snapshot_dir X (me_id env)) q \<longrightarrow> contents t q = contents (sh_store st) q)
    \<and> pack_merged B X t algo bs (source_snapshot (plan_of env bs deltas) rank) rank (re_tensors source) c (re_tensors re')"
proof -
  let ?p = "plan_of env bs deltas" and ?m = "sh_manifest st"
  let ?path = "rank_pack_path (snapshot_dir X (me_id env)) rank"
  have base: "last_full_snapshot ?m = Some bs" and ds: "deltas \<noteq> []" "set deltas \<subseteq> set (mf_snapshots ?m)"
    using plan by (cases rule: plan_mergeE; auto)+
  then have mem: "\<And>sn. sn \<in> set (deltas @ [bs]) \<Longrightarrow> sn \<in> set (mf_snapshots ?m)"
    using last_full_SomeD by auto
  obtain ranks s1 q st3 where
      mr: "merge_ranks B X algo ?p (merged_rank_ids ?p) (sh_store st) = (Inr ranks, s1)"
      and pub: "replace_snapshots B X (with_merged ?p (merged_snapshot ?p algo ranks)
           (mf_snapshots (sh_manifest (me_meanwhile env (st\<lparr>sh_in_flight := reg, sh_store := s1\<rparr>)))))
         (me_meanwhile env (st\<lparr>sh_in_flight := reg, sh_store := s1\<rparr>)) = (Inr q, st3)"
      and st': "sh_manifest st' = sh_manifest st3"
        "sh_store st' = sh_store (unlink_snapshots B X (me_seen env) (deltas @ [bs]) st3)"
    using run plan by (cases rule: full_merge_steps) (auto split: sum.splits)
  let ?x = "st\<lparr>sh_in_flight := reg, sh_store := s1\<rparr>"
  have sp': "me_id env \<notin> sn_id ` set (mf_snapshots (sh_manifest (me_meanwhile env ?x)))"
      "\<And>path. prefix (snapshot_dir X (me_id env)) path
        \<Longrightarrow> contents (sh_store (me_meanwhile env ?x)) path = contents s1 path"
    using sp [unfolded spares_def, rule_format, of ?x] by auto
  have dist: "distinct (merged_rank_ids ?p)" by (simp add: merged_rank_ids_def distinct_sort_dedup)
  have mem_rank: "rank \<in> set (merged_rank_ids ?p)"
    using src some map_of_SomeD [OF src] by (force simp: merged_rank_ids_def)
  obtain re' t c where re': "map_of ranks rank = Some re'" "re_pack_file re' = Some ?path" "contents s1 ?path = Some c"
      "\<forall>q. (\<forall>r \<in> set (merged_rank_ids ?p). q \<noteq> rank_pack_path (snapshot_dir X (me_id env)) r)
        \<longrightarrow> contents t q = contents (sh_store st) q"
      "pack_merged B X t algo bs (source_snapshot ?p rank) rank (re_tensors source) c (re_tensors re')"
    using conjunct2 [OF merge_ranks_merged [OF mr dist], rule_format, OF mem_rank src] unfolding plan_of_simps by blast
  note published = replace_snapshots_manifest [OF pub]
  let ?sn = "merged_snapshot ?p algo ranks"
  have "find_snapshot (sh_manifest st') (me_id env) = Some ?sn"
    unfolding find_snapshot_def
  proof (rule find_unique)
    have sns: "set (mf_snapshots (sh_manifest st')) \<subseteq> insert ?sn (set (mf_snapshots (sh_manifest (me_meanwhile env ?x))))"
        "?sn \<in> set (mf_snapshots (sh_manifest st'))"
      using published by (auto simp: st'(1) with_merged_def)
    show "?sn \<in> set (mf_snapshots (sh_manifest st'))" by (rule sns(2))
    show "y = ?sn" if "y \<in> set (mf_snapshots (sh_manifest st'))" "sn_id y = me_id env" for y
      using that sns(1) sp'(1) by (metis imageI insertE subsetD)
  qed (simp add: merged_snapshot_def)
  moreover have "contents (sh_store st') ?path = Some c"
  proof -
    have "?path \<notin> set (snapshot_files sn) \<and> ?path \<noteq> ranks_path X (sn_id sn)" if "sn \<in> set (deltas @ [bs])" for sn
      using fresh_packsD(2) [OF fresh mem [OF that], of ?path] by auto
    then have "contents (sh_store st') ?path = contents (sh_store st3) ?path"
      unfolding st'(2) by (rule unlink_snapshots_other)
    also have "\<dots> = contents (sh_store (me_meanwhile env ?x)) ?path"
      using published by (simp add: persist_other image_iff)
    also have "\<dots> = Some c" using sp'(2) [of ?path] re'(3) by simp
    finally show ?thesis .
  qed
  moreover have "contents t q = contents (sh_store st) q" if "\<not> prefix (snapshot_dir X (me_id env)) q" for q
    using re'(4) that prefix_rank_pack by metis
  ultimately show ?thesis using re'
    by (intro exI [of _ ?sn] exI [of _ re'] exI [of _ t] exI [of _ c]) (simp add: merged_snapshot_def rank_of_def)
qed

lemma full_merge_loads:
  assumes run: "do_full_merge_within B X algo env st = (Inr Merged, st')"
    and ch: "chained (mf_snapshots (sh_manifest st))"
    and packed: "list_all (packed_rank algo rank) (mf_snapshots (sh_manifest st))"
    and zs: "zstd_sound X algo"
    and fresh: "fresh_packs X (me_id env) (mf_snapshots (sh_manifest st))" and sp: "spares contents X env st"
    and base: "last_full_snapshot (sh_manifest st) = Some bs"
    and newest: "d = last (filter (\<lambda>s. sn_base_snapshot_id s = Some (sn_id bs) \<and> sn_finalized s) (mf_snapshots (sh_manifest st)))"
    and old: "load_in_pool B X (sh_store st) rank (sh_manifest st) (sn_id d) = Inr out"
  shows "load_in_pool B X (sh_store st') rank (sh_manifest st') (me_id env) = Inr out"
proof -
  let ?m = "sh_manifest st"
  let ?ds = "filter (\<lambda>s. sn_base_snapshot_id s = Some (sn_id bs) \<and> sn_finalized s) (mf_snapshots ?m)"
  obtain reg where plan: "plan_merge ?m (sh_in_flight st) = Inr (Inr (bs, ?ds, reg))" and ne: "?ds \<noteq> []"
  proof -
    obtain bs' deltas reg where p: "plan_merge ?m (sh_in_flight st) = Inr (Inr (bs', deltas, reg))"
      using run by (rule full_merge_planned)
    then have "bs' = bs \<and> deltas = ?ds \<and> ?ds \<noteq> []" using base by (cases rule: plan_mergeE) auto
    with p that show ?thesis by blast
  qed
  let ?p = "plan_of env bs ?ds"
  have d: "d \<in> set ?ds" unfolding newest using ne by (rule last_in_set)
  then have dm: "d \<in> set (mf_snapshots ?m)" "sn_base_snapshot_id d = Some (sn_id bs)" by auto
  have bm: "bs \<in> set (mf_snapshots ?m)" using last_full_SomeD [OF base] by blast
  have find: "find_snapshot ?m (sn_id d) = Some d" "find_snapshot ?m (sn_id bs) = Some bs"
    using ch dm(1) bm by (simp_all add: chained_def find_snapshot_distinct)
  obtain re where re: "rank_of rank d = Some re"
    using old find(1) by (auto simp: load_in_pool_def effect_simps)
  have src: "source_snapshot ?p rank = d" using re newest by (simp add: source_snapshot_def rank_of_def)
  have pk: "packed_rank algo rank sn" if "sn \<in> set (mf_snapshots ?m)" for sn
    using packed that by (simp add: list_all_iff)
  obtain path where path: "re_pack_file re = Some path" "\<And>e. e \<in> set (re_tensors re) \<Longrightarrow> te_filename e = None"
      "sn_compression d = algo"
    using packed_rankD [OF pk [OF dm(1)] re] by metis
  have away: "\<not> prefix (snapshot_dir X (me_id env)) q" if "sn \<in> set (mf_snapshots ?m)" "rank_of rank sn = Some r" "re_pack_file r = Some q"
    for sn r q
    using fresh_packsD(2) [OF fresh that(1) snapshot_files_pack [OF that(2,3)]] .
  obtain sn' re' t c where new: "find_snapshot (sh_manifest st') (me_id env) = Some sn'" "rank_of rank sn' = Some re'"
      "re_pack_file re' = Some (rank_pack_path (snapshot_dir X (me_id env)) rank)" "sn_base_snapshot_id sn' = None"
      "sn_compression sn' = algo" "contents (sh_store st') (rank_pack_path (snapshot_dir X (me_id env)) rank) = Some c"
      and t: "\<And>q. \<not> prefix (snapshot_dir X (me_id env)) q \<Longrightarrow> contents t q = contents (sh_store st) q"
      and pack: "pack_merged B X t algo bs d rank (re_tensors re) c (re_tensors re')"
    using full_merge_published [OF run plan fresh sp, of rank re] re src newest by (auto simp: rank_of_def)
  show ?thesis
  proof (rule merged_loads [OF pack new find(1) re path(1,3) old zs])
    fix e raw x c0 ctx
    assume e: "e \<in> set (re_tensors re)" "te_storage e \<noteq> Alias" and c0: "b_get B (sh_store st) path = Inr c0"
      and pre: "prefetch_base B (sh_store st) rank ?m d re = Inr ctx"
      and raw: "load_tensor_raw B X (sh_store st) (load_resolver B (sh_store st) rank ?m ctx) e (sn_base_snapshot_id d) algo (Whole c0) = Inr raw"
      and x: "current_data B X t algo bs d rank e = Inr x"
    have pc: "contents t path = Some c0" using t [OF away [OF dm(1) re path(1)]] get_sound [OF c0] by simp
    show "x = raw"
    proof (rule current_data_loaded [OF _ path(1) pc path(2) [OF e(1)] e(2) raw _ x])
      show "map_of (sn_ranks d) rank = Some re" using re by (simp add: rank_of_def)
    next
      fix b k y assume "sn_base_snapshot_id d = Some b" and y: "load_resolver B (sh_store st) rank ?m ctx b k = Inr y"
      then have b: "b = sn_id bs" using dm(2) by simp
      obtain re1 where re1: "rank_of rank bs = Some re1"
          "\<And>path. re_pack_file re1 = Some path \<Longrightarrow> \<exists>c. b_get B (sh_store st) path = Inr c"
        using load_resolver_found [OF y pre] dm(2) find(2) b by blast
      obtain path1 where p1: "re_pack_file re1 = Some path1" "distinct (map te_name (re_tensors re1))"
          "\<And>e. e \<in> set (re_tensors re1) \<Longrightarrow> te_filename e = None" "sn_compression bs = algo"
        using packed_rankD [OF pk [OF bm] re1(1)] by metis
      obtain c1 where c1: "b_get B (sh_store st) path1 = Inr c1" using re1(2) [OF p1(1)] by blast
      have "contents t path1 = Some c1" using t [OF away [OF bm re1(1) p1(1)]] get_sound [OF c1] by simp
      moreover note load_resolver_baseD [OF find(2) re1(1) p1(1) c1 p1(2) pre dm(2)]
      ultimately      show "\<exists>re1 path1 c1. map_of (sn_ranks bs) rank = Some re1 \<and> re_pack_file re1 = Some path1 \<and> contents t path1 = Some c1
        \<and> (\<forall>f \<in> set (re_tensors re1). te_filename f = None)
        \<and> (\<forall>k f a p. load_resolver B (sh_store st) rank ?m ctx b k = Inr (f, a, p)
            \<longrightarrow> find (\<lambda>t. te_name t = k) (re_tensors re1) = Some f \<and> a = algo \<and> p = Whole c1)"
        using re1(1) p1 b by (intro exI [of _ re1] exI [of _ path1] exI [of _ c1]) (auto simp: rank_of_def)
    qed
  qed
qed

end

text \<open>
  C7. A full merge keeps what is read: when it reports \<open>Merged\<close>, loading the snapshot it made gives
  exactly what loading the newest delta gave before, every skipped, differing, full and aliased
  tensor included, although the delta, its base and their files are gone; whatever the other
  threads did meanwhile short of touching the new snapshot's directory.
\<close>

theorem full_merge_keeps_contents:
  assumes "do_full_merge_within (local_backend fsync ps) X algo env st = (Inr Merged, st')"
    and "chained (mf_snapshots (sh_manifest st))"
    and "list_all (packed_rank algo rank) (mf_snapshots (sh_manifest st))"
    and "zstd_sound X algo"
    and "fresh_packs X (me_id env) (mf_snapshots (sh_manifest st))" and "spares fs_contents X env st"
    and "last_full_snapshot (sh_manifest st) = Some bs"
    and "d = last (filter (\<lambda>s. sn_base_snapshot_id s = Some (sn_id bs) \<and> sn_finalized s) (mf_snapshots (sh_manifest st)))"
    and "load_in_pool (local_backend fsync ps) X (sh_store st) rank (sh_manifest st) (sn_id d) = Inr out"
  shows "load_in_pool (local_backend fsync ps) X (sh_store st') rank (sh_manifest st') (me_id env) = Inr out"
  by (rule local_disk.full_merge_loads [OF assms])

section \<open>What a merge leaves alone\<close>

text \<open>A merge alone on its store; the general case is that of the others' own steps.\<close>

definition undisturbed :: "'s merge_env \<Rightarrow> bool" where
  "undisturbed env \<longleftrightarrow> me_meanwhile env = (\<lambda>st. st)"

lemma plan_merge_Inl: "do_full_merge_within B X algo env st = (r, st') \<Longrightarrow>
    \<not> (\<exists>bs deltas reg. plan_merge (sh_manifest st) (sh_in_flight st) = Inr (Inr (bs, deltas, reg))) \<Longrightarrow> st' = st"
  by (auto simp: do_full_merge_within_def split: sum.splits)

lemma with_merged_chained:
  assumes ch: "chained sns" and fresh: "i \<notin> sn_id ` set sns" and id: "mp_id p = i"
    and base: "mp_base p \<in> set sns"
    and all: "\<And>s. s \<in> set sns \<Longrightarrow> sn_base_snapshot_id s = Some (sn_id (mp_base p)) \<Longrightarrow> sn_id s \<in> set (map sn_id (mp_deltas p))"
    and deltas: "\<And>s. s \<in> set (mp_deltas p) \<Longrightarrow> s \<in> set sns \<and> sn_base_snapshot_id s \<noteq> None"
  shows "chained (with_merged p (merged_snapshot p algo ranks) sns)"
proof (rule chainedI)
  let ?kept = "filter (\<lambda>s. sn_id s \<notin> set (folded_ids p)) sns" and ?new = "merged_snapshot p algo ranks"
  have "mset (map sn_id (with_merged p ?new sns)) = mset (map sn_id (?kept @ [?new]))"
    by (simp add: with_merged_def)
  moreover have "distinct (map sn_id (?kept @ [?new]))"
    using ch fresh id by (auto simp: chained_def merged_snapshot_def intro: distinct_map_filter)
  ultimately show "distinct (map sn_id (with_merged p ?new sns))" using mset_eq_imp_distinct_iff by metis
  fix s b assume s: "s \<in> set (with_merged p ?new sns)" and b: "sn_base_snapshot_id s = Some b"
  then have sk: "s \<in> set sns" "sn_id s \<notin> set (folded_ids p)" by (auto simp: with_merged_def merged_snapshot_def)
  then obtain f where f: "f \<in> set sns" "sn_id f = b" "sn_base_snapshot_id f = None" using chained_base [OF ch] b by blast
  have "b \<noteq> sn_id (mp_base p)" using all [OF sk(1)] sk(2) b by (auto simp: folded_ids_def)
  moreover have "b \<notin> set (map sn_id (mp_deltas p))" using deltas f chained_id [OF ch] by fastforce
  ultimately have "f \<in> set ?kept" using f by (auto simp: folded_ids_def)
  then show "\<exists>f \<in> set (with_merged p ?new sns). sn_id f = b \<and> sn_base_snapshot_id f = None"
    using f by (auto simp: with_merged_def)
qed


context backend_contract
begin

lemma merge_ranks_other:
  assumes "\<not> prefix (snapshot_dir X (mp_id p)) path"
  shows "contents (snd (merge_ranks B X algo p ranks s)) path = contents s path"
proof (induction ranks arbitrary: s)
  case (Cons rank ranks)
  have one: "contents (snd (merge_rank B X algo p rank source s)) path = contents s path" for source
  proof -
    have "path \<noteq> rank_pack_path (snapshot_dir X (mp_id p)) rank" using assms by auto
    then show ?thesis
      by (auto simp: merge_rank_def Let_def bind_io_def ret_io_def split: sum.splits prod.splits
          dest: put_parts_ok put_parts_err)
  qed
  show ?case
  proof (cases "map_of (sn_ranks (source_snapshot p rank)) rank")
    case None
    with Cons show ?thesis by simp
  next
    case (Some source)
    obtain r s1 where m: "merge_rank B X algo p rank source s = (r, s1)" by fastforce
    with one [of source] have "contents s1 path = contents s path" by simp
    with Cons [of s1] m Some show ?thesis
      by (auto simp: bind_io_def ret_io_def split: sum.splits prod.splits)
  qed
qed simp

lemma full_merge_failed:
  assumes run: "do_full_merge_within B X algo env st = (Inl e, st')" and "undisturbed env"
    and path: "\<not> prefix (snapshot_dir X (me_id env)) path" "path \<notin> range (ranks_path X)"
  shows "mf_snapshots (sh_manifest st') = mf_snapshots (sh_manifest st) \<and> contents (sh_store st') path = contents (sh_store st) path"
proof (cases "\<exists>bs deltas reg. plan_merge (sh_manifest st) (sh_in_flight st) = Inr (Inr (bs, deltas, reg))")
  case False
  then show ?thesis using plan_merge_Inl [OF run] by simp
next
  case True
  then obtain bs deltas reg where plan: "plan_merge (sh_manifest st) (sh_in_flight st) = Inr (Inr (bs, deltas, reg))" by blast
  let ?p = "plan_of env bs deltas"
  have same: "contents (snd (merge_ranks B X algo ?p (merged_rank_ids ?p) (sh_store st))) path = contents (sh_store st) path"
    using path(1) by (simp add: merge_ranks_other)
  from run plan show ?thesis
  proof (cases rule: full_merge_steps)
    case (build e1 s1)
    with same show ?thesis by simp
  next
    case (publish ranks s1 q st3)
    then obtain e1 where q: "q = Inl e1" by (cases q) auto
    let ?st2 = "st\<lparr>sh_in_flight := reg, sh_store := s1\<rparr>"
    let ?m = "(sh_manifest st)\<lparr>mf_snapshots := with_merged ?p (merged_snapshot ?p algo ranks) (mf_snapshots (sh_manifest st))\<rparr>"
    have rs: "replace_snapshots B X (mf_snapshots ?m) ?st2 = (Inl e1, st3)"
      using publish(2) q assms(2) by (simp add: undisturbed_def)
    note pub = replace_snapshots_manifest [OF rs]
    have "fst (persist B X (s1, ?m)) = Inl e1"
      using rs by (auto simp: replace_snapshots_def Let_def split: prod.splits sum.splits)
    then obtain s2 m2 where pe: "persist B X (s1, ?m) = (Inl e1, (s2, m2))" by (metis prod.collapse)
    have "contents s2 path = contents s1 path"
    proof (cases "path = manifest_path")
      case True
      then show ?thesis using persist_failed_index [OF pe] by simp
    next
      case False
      then show ?thesis using persist_other [of path X ?m s1] path(2) pe by (auto simp: image_iff)
    qed
    moreover have "sh_store st' = s2" using publish(5) q pub pe by simp
    moreover have "contents s1 path = contents (sh_store st) path" using same publish(1) by simp
    ultimately show ?thesis using publish(3) pub by simp
  qed
qed

end


section \<open>A concrete full merge\<close>

text \<open>A full with one tensor, and a delta in which it is skipped and another is new.\<close>

definition mw_base :: rank_entry where
  "mw_base = \<lparr>re_rank = 0, re_tensors = [sample_base_entry codec_ext], re_pack_file = Some ''snapshots/a/rank_0.pack'',
     re_total_compressed = 3, re_total_raw = 3, re_skipped_count = 0, re_delta_count = 0, re_full_count = 1\<rparr>"

definition mw_delta :: rank_entry where
  "mw_delta = \<lparr>re_rank = 0, re_tensors =
       [entry_for codec_ext sample_tensor [1, 2, 3] ''uint8'' None Skipped None False,
        entry_for codec_ext \<lparr>td_name = ''b'', td_shape = [2], td_dtype = ''uint8'', td_data = [9, 9]\<rparr> [9, 9] ''uint8''
          None Full (Some [9, 9]) False],
     re_pack_file = Some ''snapshots/aa/rank_0.pack'', re_total_compressed = 2, re_total_raw = 5,
     re_skipped_count = 1, re_delta_count = 0, re_full_count = 1\<rparr>"

definition mw_snapshot :: "uuid \<Rightarrow> uuid option \<Rightarrow> rank_entry \<Rightarrow> snapshot" where
  "mw_snapshot i base re = (plain i i base)\<lparr>sn_ranks := [(0, re)]\<rparr>"

definition mw_state :: "local_fs shared" where
  "mw_state = \<lparr>sh_store = empty_fs\<lparr>fs_files := [(''snapshots/a/rank_0.pack'', [1, 2, 3]), (''snapshots/aa/rank_0.pack'', [9, 9])],
       fs_dirs := [''snapshots'', ''snapshots/a'', ''snapshots/aa'']\<rparr>,
     sh_manifest = default_manifest\<lparr>mf_snapshots := [mw_snapshot 1 None mw_base, mw_snapshot 2 (Some 1) mw_delta],
       mf_ranks_written := {1, 2}\<rparr>,
     sh_in_flight = empty_inflight, sh_deletes = default_pending\<rparr>"

lemma mw_load:
  "load_in_pool (local_backend False 0) codec_ext (sh_store mw_state) 0 (sh_manifest mw_state) 2
     = Inr [(''b'', [9, 9]), (''w'', [1, 2, 3])]"
  by (simp add: load_in_pool_def mw_state_def find_snapshot_def mw_snapshot_def rank_of_def mw_delta_def mw_base_def
     local_backend_def local_get_def prefetch_base_def collect_map_def load_tensor_def load_tensor_raw.simps
     sample_tensor_def entry_for_def extract_compressed_def Let_def load_resolver_def plain_def resolve_base_entry_def
     numeral_eq_Suc sample_base_entry_def )

lemma mw_tensors:
  "\<exists>mr. merge_tensors (local_backend False 0) codec_ext (sh_store mw_state) NoCompression (mw_snapshot 1 None mw_base)
     (mw_snapshot 2 (Some 1) mw_delta) 0 (re_tensors mw_delta) no_tensors = Inr mr"
  by (simp add: mw_state_def mw_snapshot_def mw_delta_def mw_base_def merge_tensor_def current_data_def
     base_tensor_data_def numeral_eq_Suc load_tensor_data_def load_compressed_data_def entry_for_def sample_tensor_def
     sample_base_entry_def local_backend_def local_get_range_def plain_def)

lemmas mw_writes = write_parts_def Let_def missing_dirs.simps existing_ancestor_def fs_is_dir_def fs_is_file_def
  parent_path_def rename_over_def

lemma mw_put:
  "fst (write_parts False 0 ''snapshots/aaa/rank_0.pack'' parts (sh_store mw_state)) = Inr ()"
  "fs_dirs (snd (write_parts False 0 ''snapshots/aaa/rank_0.pack'' parts (sh_store mw_state)))
     = [''snapshots'', ''snapshots/a'', ''snapshots/aa'', ''snapshots/aaa'']"
  "map fst (fs_files (snd (write_parts False 0 ''snapshots/aaa/rank_0.pack'' parts (sh_store mw_state))))
     = [''snapshots/a/rank_0.pack'', ''snapshots/aa/rank_0.pack'', ''snapshots/aaa/rank_0.pack'']"
  by (simp_all add: mw_state_def empty_fs_def mw_writes)

lemma mw_persist:
  assumes "fs_dirs fs = [''snapshots'', ''snapshots/a'', ''snapshots/aa'', ''snapshots/aaa'']"
    and "map fst (fs_files fs) = [''snapshots/a/rank_0.pack'', ''snapshots/aa/rank_0.pack'', ''snapshots/aaa/rank_0.pack'']"
    and "mf_snapshots m = [sn]" and "sn_id sn = 3"
  shows "fst (persist (local_backend False 0) codec_ext (fs, m)) = Inr ()"
proof -
  obtain d1 d2 d3 where f: "fs_files fs = [(''snapshots/a/rank_0.pack'', d1), (''snapshots/aa/rank_0.pack'', d2), (''snapshots/aaa/rank_0.pack'', d3)]"
    using assms(2) by (auto simp: Cons_eq_map_conv)
  have path: "ranks_path codec_ext 3 = ''snapshots/aaa/ranks.json''"
    by (simp add: ranks_path_def codec_ext_def ranks_file_def numeral_eq_Suc)
  show ?thesis
    using assms(1,3,4) f path
    by (auto simp: persist_def unwritten_ids_def write_ranks_def codec_ext_def one_json_def serialization_def
      bind_io_def lift_io_def local_backend_def mw_writes manifest_path_def split: prod.splits)
qed

lemma mw_plan:
  "\<exists>reg. plan_merge (sh_manifest mw_state) (sh_in_flight mw_state)
     = Inr (Inr (mw_snapshot 1 None mw_base, [mw_snapshot 2 (Some 1) mw_delta], reg))"
  by (simp add: plan_merge_def mw_state_def last_full_snapshot_def mw_snapshot_def plain_def claim_def any_pinned_def
    empty_inflight_def Let_def)

abbreviation mw_env :: "local_fs merge_env" where
  "mw_env \<equiv> idle_env 3"

abbreviation mw_plan_of :: merge_plan where
  "mw_plan_of \<equiv> plan_of mw_env (mw_snapshot 1 None mw_base) [mw_snapshot 2 (Some 1) mw_delta]"

lemma mw_ranks:
  "\<exists>re parts. merge_ranks (local_backend False 0) codec_ext NoCompression mw_plan_of (merged_rank_ids mw_plan_of) (sh_store mw_state)
     = (Inr [(0, re)], snd (write_parts False 0 ''snapshots/aaa/rank_0.pack'' parts (sh_store mw_state)))"
proof -
  have ids: "merged_rank_ids mw_plan_of = [0]"
    by (simp add: merged_rank_ids_def mw_snapshot_def sort_dedup_def)
  have src: "source_snapshot mw_plan_of 0 = mw_snapshot 2 (Some 1) mw_delta"
    by (simp add: source_snapshot_def mw_snapshot_def)
  have rk: "map_of (sn_ranks (mw_snapshot 2 (Some 1) mw_delta)) 0 = Some mw_delta" by (simp add: mw_snapshot_def)
  have path: "rank_pack_path (snapshot_dir codec_ext 3) 0 = ''snapshots/aaa/rank_0.pack''"
    by (simp add: rank_pack_path_def snapshot_dir_def codec_ext_def nat_str.simps dec_digit_def numeral_eq_Suc)
  obtain mr where mr: "merge_tensors (local_backend False 0) codec_ext (sh_store mw_state) NoCompression
      (mw_snapshot 1 None mw_base) (mw_snapshot 2 (Some 1) mw_delta) 0 (re_tensors mw_delta) no_tensors = Inr mr"
    using mw_tensors by blast
  have one: "\<exists>re parts. merge_rank (local_backend False 0) codec_ext NoCompression mw_plan_of 0 mw_delta (sh_store mw_state)
      = (Inr re, snd (write_parts False 0 ''snapshots/aaa/rank_0.pack'' parts (sh_store mw_state)))"
  proof -
    let ?e = "merged_rank_entry 0 ''snapshots/aaa/rank_0.pack'' mr"
    have js: "serialization (js_to_vec (x_descriptor codec_ext) d) = Inr [123, 125]" for d
      by (simp add: serialization_def codec_ext_def one_json_def)
    have put: "b_put_parts (local_backend False 0) = write_parts False 0" by (simp add: local_backend_def)
    show ?thesis
      unfolding merge_rank_def src plan_of_simps mr sum.case Let_def js put
      by (simp add: idle_env_def path bind_io_def ret_io_def split: prod.splits sum.splits) (metis fst_conv snd_conv mw_put(1) sum.distinct(1))
  qed
  then show ?thesis
    unfolding ids merge_ranks.simps src rk by (auto simp: bind_io_def ret_io_def)
qed

lemma mw_run: "\<exists>st'. do_full_merge_within (local_backend False 0) codec_ext NoCompression mw_env mw_state = (Inr Merged, st')"
proof -
  let ?B = "local_backend False 0" and ?env = mw_env
  obtain reg where reg: "plan_merge (sh_manifest mw_state) (sh_in_flight mw_state)
      = Inr (Inr (mw_snapshot 1 None mw_base, [mw_snapshot 2 (Some 1) mw_delta], reg))"
    using mw_plan by blast
  obtain re parts where mr: "merge_ranks ?B codec_ext NoCompression mw_plan_of (merged_rank_ids mw_plan_of) (sh_store mw_state)
     = (Inr [(0, re)], snd (write_parts False 0 ''snapshots/aaa/rank_0.pack'' parts (sh_store mw_state)))"
    using mw_ranks by blast
  obtain r st' where run: "do_full_merge_within ?B codec_ext NoCompression ?env mw_state = (r, st')"
    by (metis prod.collapse)
  from run reg have "r = Inr Merged"
  proof (cases rule: full_merge_steps)
    case (build e s1)
    with mr show ?thesis by simp
  next
    case (publish ranks s1 q st3)
    let ?st2 = "mw_state\<lparr>sh_in_flight := reg, sh_store := s1\<rparr>"
    let ?sns = "with_merged mw_plan_of (merged_snapshot mw_plan_of NoCompression ranks) (mf_snapshots (sh_manifest mw_state))"
    have s1: "s1 = snd (write_parts False 0 ''snapshots/aaa/rank_0.pack'' parts (sh_store mw_state))"
      using publish(1) mr by simp
    have sns: "?sns = [merged_snapshot mw_plan_of NoCompression ranks]"
      by (simp add: with_merged_def folded_ids_def mw_state_def mw_snapshot_def)
    have "fst (persist ?B codec_ext (s1, (sh_manifest mw_state)\<lparr>mf_snapshots := ?sns\<rparr>)) = Inr ()"
      unfolding sns s1 by (rule mw_persist [where sn = "merged_snapshot mw_plan_of NoCompression ranks"]) (simp_all add: mw_put merged_snapshot_def idle_env_def)
    then have "fst (replace_snapshots ?B codec_ext ?sns ?st2) = Inr ()"
      by (auto simp: replace_snapshots_def Let_def split: prod.splits)
    moreover have "me_meanwhile ?env ?st2 = ?st2" by (simp add: idle_env_def)
    ultimately show ?thesis using publish(2,4) by (auto simp: idle_env_def split: sum.splits)
  qed
  with run show ?thesis by blast
qed

lemma mw_facts:
  "chained (mf_snapshots (sh_manifest mw_state))"
  "list_all (packed_rank NoCompression 0) (mf_snapshots (sh_manifest mw_state))"
  "fresh_packs codec_ext (me_id mw_env) (mf_snapshots (sh_manifest mw_state))"
  "spares fs_contents codec_ext mw_env mw_state"
  "last_full_snapshot (sh_manifest mw_state) = Some (mw_snapshot 1 None mw_base)"
  "mw_snapshot 2 (Some 1) mw_delta = last (filter (\<lambda>s. sn_base_snapshot_id s = Some (sn_id (mw_snapshot 1 None mw_base)) \<and> sn_finalized s)
     (mf_snapshots (sh_manifest mw_state)))"
  subgoal by (simp add: chained_def mw_state_def mw_snapshot_def)
  subgoal by (simp add: packed_rank_def mw_state_def mw_snapshot_def rank_of_def mw_base_def mw_delta_def entry_for_def
      sample_tensor_def sample_base_entry_def plain_def)
  subgoal by (simp add: fresh_packs_def mw_state_def mw_snapshot_def snapshot_files_def rank_files_def mw_base_def mw_delta_def
      snapshot_dir_def codec_ext_def idle_env_def numeral_eq_Suc entry_for_def sample_base_entry_def map_filter_Cons List.map_filter_simps)
  subgoal by (auto simp: spares_def idle_env_def mw_state_def mw_snapshot_def)
  subgoal by (simp add: last_full_snapshot_def mw_state_def mw_snapshot_def)
  subgoal by (simp add: mw_state_def mw_snapshot_def)
  done

theorem full_merge_keeps_contents_witness:
  "\<exists>st'. do_full_merge_within (local_backend False 0) codec_ext NoCompression mw_env mw_state = (Inr Merged, st')
     \<and> load_in_pool (local_backend False 0) codec_ext (sh_store st') 0 (sh_manifest st') 3
         = Inr [(''b'', [9, 9]), (''w'', [1, 2, 3])]"
proof -
  obtain st' where run: "do_full_merge_within (local_backend False 0) codec_ext NoCompression mw_env mw_state = (Inr Merged, st')"
    using mw_run by blast
  have "load_in_pool (local_backend False 0) codec_ext (sh_store mw_state) 0 (sh_manifest mw_state)
      (sn_id (mw_snapshot 2 (Some 1) mw_delta)) = Inr [(''b'', [9, 9]), (''w'', [1, 2, 3])]"
    using mw_load by (simp add: mw_snapshot_def)
  from full_merge_keeps_contents [OF run mw_facts(1,2) codec_sound mw_facts(3-6) this] run
  show ?thesis by (simp add: idle_env_def)
qed



section \<open>Where the readers differ\<close>

text \<open>
  The merger's reader checks no hash: what a load refuses as corrupt it takes, and the merged entry
  is given the hash of what was found.
\<close>

lemma merge_takes_corrupt:
  "load_tensor_data (local_backend False 0) codec_ext (empty_fs\<lparr>fs_files := [(''snapshots/a/rank_0.pack'', [7, 7, 7])]\<rparr>)
     NoCompression (mw_snapshot 1 None mw_base) 0 (sample_base_entry codec_ext) = Inr [7, 7, 7]
   \<and> \<not> is_ok (load_tensor (local_backend False 0) codec_ext empty_fs R (sample_base_entry codec_ext) None NoCompression (Whole [7, 7, 7]))"
proof -
  have "hash_hex codec_ext [7, 7, 7] \<noteq> hash_hex codec_ext [1, 2, 3]"
    unfolding hash_hex_eq_iff by (simp add: codec_ext_def)
  then show ?thesis
    by (simp add: load_tensor_data_def load_compressed_data_def mw_snapshot_def mw_base_def sample_base_entry_def
      entry_for_def sample_tensor_def local_backend_def local_get_range_def load_tensor_def load_tensor_raw.simps
      extract_compressed_def)
qed

text \<open>
  It also decompresses with the merger's own setting rather than the snapshot's: a base written
  under another setting is read as what it is compressed to.
\<close>

lemma merge_takes_own_compression:
  "\<exists>s sn e z. sn_compression sn = Zstd 3 \<and> z \<noteq> [1, 2, 3]
     \<and> load_tensor (local_backend False 0) codec_ext s R e None (sn_compression sn) (Whole z) = Inr [1, 2, 3]
     \<and> load_tensor_data (local_backend False 0) codec_ext s NoCompression sn 0 e = Inr z"
proof -
  obtain z where z: "compress (x_zstd codec_ext) [1, 2, 3] (Zstd 3) = Inr z" using codec_compresses by blast
  have "zstd_ok (x_zstd codec_ext) (Zstd 3) [1, 2, 3]" using codec_sound by (simp add: zstd_sound_def)
  from decompress_compressed [OF this z] have dec: "decompress (x_zstd codec_ext) z (Zstd 3) = Inr [1, 2, 3]" .
  have len: "length z = 11"
    using z by (auto simp: codec_ext_def stored_zstd_def parallel_chunk_def compression_error_def)
  let ?e = "entry_for codec_ext sample_tensor [1, 2, 3] ''uint8'' None Full (Some z) False"
  let ?sn = "(mw_snapshot 1 None mw_base)\<lparr>sn_compression := Zstd 3\<rparr>"
  let ?s = "empty_fs\<lparr>fs_files := [(''snapshots/a/rank_0.pack'', z)]\<rparr>"
  have ex: "extract_compressed (local_backend False 0) ?s ?e (Whole z) = Inr z"
    by (simp add: extract_compressed_def entry_for_def)
  have "load_tensor_raw (local_backend False 0) codec_ext ?s R ?e None (Zstd 3) (Whole z) = Inr [1, 2, 3]"
    by (rule load_full_entry [OF _ _ ex dec]) simp_all
  then have "load_tensor (local_backend False 0) codec_ext ?s R ?e None (Zstd 3) (Whole z) = Inr [1, 2, 3]"
    by (simp add: load_tensor_def sample_tensor_def)
  moreover have "load_tensor_data (local_backend False 0) codec_ext ?s NoCompression ?sn 0 ?e = Inr z"
    using len by (simp add: load_tensor_data_def load_compressed_data_def mw_snapshot_def mw_base_def
      entry_for_def local_backend_def local_get_range_def)
  moreover have "z \<noteq> [1, 2, 3]" using len by auto
  ultimately show ?thesis by (intro exI [of _ ?s] exI [of _ ?sn] exI [of _ ?e] exI [of _ z]) simp
qed

end
