(* ===== verification/TrainingRun.thy ===== *)
theory TrainingRun
  imports Coordinator MergeLoads
begin

text \<open>
  A training run: one coordinator that opens on an empty store, saves and pins as the caller asks,
  and the promise it makes - whatever sequence of full and delta saves, failures and retention
  passes has gone by, each checkpoint its manifest lists loads to the tensors it was saved from.
\<close>

section \<open>What is known of a saved snapshot\<close>

definition pack_path :: "ext \<Rightarrow> 'r coordinator_config \<Rightarrow> uuid \<Rightarrow> string" where
  "pack_path X cfg i = rank_pack_path (snapshot_dir X i) (cc_rank cfg)"

definition of_other :: "uuid \<Rightarrow> retained_base option \<Rightarrow> bool" where
  "of_other i ret \<longleftrightarrow> (\<forall>r. ret = Some r \<longrightarrow> rb_snap_id r \<noteq> i)"

text \<open>A save of the tensors in full, before which no bytes of that snapshot were retained.\<close>

definition full_save :: "'s backend \<Rightarrow> ext \<Rightarrow> 'r coordinator_config \<Rightarrow> uuid \<Rightarrow> tensor_data list \<Rightarrow> rank_entry
    \<Rightarrow> 's \<Rightarrow> retained_base option \<Rightarrow> bool" where
  "full_save B X cfg i ts re s1 ret1 \<longleftrightarrow> distinct (map td_name ts)
     \<and> (\<exists>cx s0 ret0. save_rank_tensors B X cfg i (snapshot_dir X i) None ts cx (s0, ret0) = (Inr re, (s1, ret1))
          \<and> of_other i ret0)"

definition names_rank :: "'r coordinator_config \<Rightarrow> snapshot \<Rightarrow> uuid option \<Rightarrow> rank_entry \<Rightarrow> bool" where
  "names_rank cfg sn base re \<longleftrightarrow> sn_base_snapshot_id sn = base \<and> sn_ranks sn = [(cc_rank cfg, re)]
     \<and> sn_compression sn = cc_compression cfg"

text \<open>
  \<open>now\<close> is what the store holds, \<open>ret\<close> what is retained, \<open>H\<close> what was saved under each id.
\<close>

definition full_kept :: "'s backend \<Rightarrow> ('s \<Rightarrow> string \<Rightarrow> bytes option) \<Rightarrow> ext \<Rightarrow> 'r coordinator_config
    \<Rightarrow> (string \<Rightarrow> bytes option) \<Rightarrow> retained_base option \<Rightarrow> (uuid \<times> tensor_data list) list \<Rightarrow> snapshot \<Rightarrow> bool" where
  "full_kept B contents X cfg now ret H sn \<longleftrightarrow> (\<exists>ts re s1 ret1. map_of H (sn_id sn) = Some ts
     \<and> full_save B X cfg (sn_id sn) ts re s1 ret1 \<and> names_rank cfg sn None re
     \<and> now (pack_path X cfg (sn_id sn)) = contents s1 (pack_path X cfg (sn_id sn))
     \<and> (ret = ret1 \<or> of_other (sn_id sn) ret))"

definition delta_kept :: "'s backend \<Rightarrow> ('s \<Rightarrow> string \<Rightarrow> bytes option) \<Rightarrow> ext \<Rightarrow> 'r coordinator_config
    \<Rightarrow> (string \<Rightarrow> bytes option) \<Rightarrow> snapshot list \<Rightarrow> (uuid \<times> tensor_data list) list \<Rightarrow> uuid \<Rightarrow> snapshot \<Rightarrow> bool" where
  "delta_kept B contents X cfg now sns H b sn \<longleftrightarrow> (\<exists>ts1 re1 s1 ret1 ts re cx bs s2 ret s3 ret3.
     map_of H b = Some ts1 \<and> full_save B X cfg b ts1 re1 s1 ret1
     \<and> map_of H (sn_id sn) = Some ts \<and> distinct (map td_name ts)
     \<and> save_rank_tensors B X cfg (sn_id sn) (snapshot_dir X (sn_id sn)) (Some bs) ts cx (s2, ret) = (Inr re, (s3, ret3))
     \<and> sn_id bs = b \<and> names_rank cfg bs None re1 \<and> names_rank cfg sn (Some b) re
     \<and> (ret = ret1 \<or> of_other b ret) \<and> contents s2 (pack_path X cfg b) = contents s1 (pack_path X cfg b)
     \<and> now (pack_path X cfg b) = contents s1 (pack_path X cfg b)
     \<and> now (pack_path X cfg (sn_id sn)) = contents s3 (pack_path X cfg (sn_id sn))
     \<and> (\<forall>f \<in> set sns. sn_id f = b \<longrightarrow> names_rank cfg f None re1))"

definition kept :: "'s backend \<Rightarrow> ('s \<Rightarrow> string \<Rightarrow> bytes option) \<Rightarrow> ext \<Rightarrow> 'r coordinator_config
    \<Rightarrow> (string \<Rightarrow> bytes option) \<Rightarrow> retained_base option \<Rightarrow> snapshot list \<Rightarrow> (uuid \<times> tensor_data list) list \<Rightarrow> snapshot \<Rightarrow> bool" where
  "kept B contents X cfg now ret sns H sn = (case sn_base_snapshot_id sn of
       None \<Rightarrow> full_kept B contents X cfg now ret H sn
     | Some b \<Rightarrow> delta_kept B contents X cfg now sns H b sn)"

text \<open>Part of a list of snapshots, with other pin flags.\<close>

definition part_of :: "snapshot list \<Rightarrow> snapshot list \<Rightarrow> bool" where
  "part_of sns' sns \<longleftrightarrow> (\<forall>s' \<in> set sns'. \<exists>s \<in> set sns. \<exists>p. s' = s\<lparr>sn_pinned := p\<rparr>)"

definition apart :: "ext \<Rightarrow> (uuid \<times> tensor_data list) list \<Rightarrow> bool" where
  "apart X H \<longleftrightarrow> distinct (map (x_uuid_str X \<circ> fst) H)"

definition run_inv :: "'s backend \<Rightarrow> ('s \<Rightarrow> string \<Rightarrow> bytes option) \<Rightarrow> ext \<Rightarrow> 'r coordinator_config
    \<Rightarrow> ('s, 'r) core \<Rightarrow> (uuid \<times> tensor_data list) list \<Rightarrow> bool" where
  "run_inv B contents X cfg st H \<longleftrightarrow> chained (mf_snapshots (co_manifest st)) \<and> \<not> co_poisoned st \<and> \<not> co_stale st
     \<and> (\<forall>r. co_retained st = Some r \<longrightarrow> rb_snap_id r \<in> fst ` set H)
     \<and> (\<forall>sn \<in> set (mf_snapshots (co_manifest st)).
          kept B contents X cfg (contents (co_store st)) (co_retained st) (mf_snapshots (co_manifest st)) H sn)"

lemma pack_path_eq_iff [simp]: "pack_path X cfg i = pack_path X cfg j \<longleftrightarrow> x_uuid_str X i = x_uuid_str X j"
  by (simp add: pack_path_def rank_pack_path_def snapshot_dir_def)

lemma pack_path_neq [simp]:
  "pack_path X cfg i \<noteq> manifest_path" "pack_path X cfg i \<noteq> ranks_path X j" "pack_path X cfg i \<noteq> pins_file"
proof -
  have "last (pack_path X cfg i) = CHR ''k''" by (simp add: pack_path_def rank_pack_path_def snapshot_dir_def)
  then show "pack_path X cfg i \<noteq> manifest_path" "pack_path X cfg i \<noteq> ranks_path X j" "pack_path X cfg i \<noteq> pins_file"
    by (auto simp: manifest_path_def ranks_path_def ranks_file_def pins_file_def dest: arg_cong [where f = last])
qed

lemma apart_inj: "apart X H \<Longrightarrow> map_of H i = Some ts \<Longrightarrow> map_of H j = Some us \<Longrightarrow> x_uuid_str X i = x_uuid_str X j \<Longrightarrow> i = j"
  by (force simp: apart_def distinct_map inj_on_def dest!: map_of_SomeD)

section \<open>What keeps it\<close>

lemma names_rank_pinned [simp]: "names_rank cfg (s\<lparr>sn_pinned := p\<rparr>) base re = names_rank cfg s base re"
  by (simp add: names_rank_def)

lemma kept_pinned [simp]: "kept B contents X cfg now ret sns H (s\<lparr>sn_pinned := p\<rparr>) = kept B contents X cfg now ret sns H s"
  by (simp add: kept_def full_kept_def delta_kept_def split: option.splits)

lemma part_of_trans: "part_of xs ys \<Longrightarrow> part_of ys zs \<Longrightarrow> part_of xs zs"
  unfolding part_of_def by fastforce

lemma part_of_subset:
  assumes "set xs \<subseteq> set ys"
  shows "part_of xs ys"
  unfolding part_of_def
proof
  fix s assume "s \<in> set xs"
  with assms show "\<exists>t \<in> set ys. \<exists>p. s = t\<lparr>sn_pinned := p\<rparr>"
    by (intro bexI [of _ s] exI [of _ "sn_pinned s"]) auto
qed

lemma part_of_flags:
  assumes "\<And>s. s \<in> set sns \<Longrightarrow> \<exists>p. f s = s\<lparr>sn_pinned := p\<rparr>"
  shows "part_of (map f sns) sns"
  using assms by (fastforce simp: part_of_def)

lemma flag_as_update: "\<exists>p. (if c then s\<lparr>sn_pinned := q\<rparr> else s) = s\<lparr>sn_pinned := p\<rparr>"
  by (cases c) (auto intro: exI [of _ "sn_pinned s"])

lemma kept_part:
  assumes "kept B contents X cfg now ret sns H sn" and "part_of sns' sns"
  shows "kept B contents X cfg now ret sns' H sn"
proof (cases "sn_base_snapshot_id sn")
  case (Some b)
  have "names_rank cfg f None re" if "\<forall>f \<in> set sns. sn_id f = b \<longrightarrow> names_rank cfg f None re" "f \<in> set sns'" "sn_id f = b" for f re
    using that assms(2) by (fastforce simp: part_of_def)
  with assms(1) Some show ?thesis unfolding kept_def delta_kept_def by simp (blast)
qed (use assms(1) in \<open>simp add: kept_def\<close>)

lemma kept_now:
  assumes "kept B contents X cfg now ret sns H sn"
    and "now' (pack_path X cfg (sn_id sn)) = now (pack_path X cfg (sn_id sn))"
    and "\<And>b. sn_base_snapshot_id sn = Some b \<Longrightarrow> now' (pack_path X cfg b) = now (pack_path X cfg b)"
  shows "kept B contents X cfg now' ret sns H sn"
  using assms by (simp add: kept_def full_kept_def delta_kept_def split: option.splits)

lemma kept_saved:
  "kept B contents X cfg now ret sns H sn \<Longrightarrow> \<exists>ts. map_of H (sn_id sn) = Some ts"
  "kept B contents X cfg now ret sns H sn \<Longrightarrow> sn_base_snapshot_id sn = Some b \<Longrightarrow> \<exists>ts. map_of H b = Some ts"
  by (auto simp: kept_def full_kept_def delta_kept_def split: option.splits)

lemma kept_more:
  assumes "kept B contents X cfg now ret sns H sn" and "i \<notin> fst ` set H"
  shows "kept B contents X cfg now ret sns ((i, ts) # H) sn"
proof -
  have "map_of ((i, ts) # H) j = map_of H j" if "map_of H j = Some us" for j us
    using assms(2) that by (force dest: map_of_SomeD)
  moreover have "map_of H j = Some us \<Longrightarrow> j \<noteq> i" for j us using assms(2) by (force dest: map_of_SomeD)
  ultimately show ?thesis using assms(1)
    by (auto simp: kept_def full_kept_def delta_kept_def split: option.splits) blast+
qed

section \<open>What is unlinked\<close>

lemma process_tensor_filename:
  assumes "process_tensor B X s t cache algo ratio policy = Inr p"
  shows "te_filename (pt_entry p) = None"
proof -
  obtain w d q where "working_copy t policy = Inr (w, d, q)" using assms by (rule process_tensor_working)
  with assms show ?thesis by (cases rule: process_tensor_cases) (simp_all add: entry_for_def)
qed

lemma rank_saved_filenames:
  assumes "rank_saved B X s cfg cache ts es c" and "e \<in> set es"
  shows "te_filename e = None"
proof -
  have "te_filename e = None" if "saved_entry B X s cfg cache c t e" for t
    using that process_tensor_filename by (auto simp: saved_entry_def stored_form_def)
  moreover have "te_filename e = None" if "alias_entry X t owner e0 e" for t owner e0
    using that by (auto simp: alias_entry_def make_alias_entry_def)
  ultimately show ?thesis using assms unfolding rank_saved_def by blast
qed

context reliable_backend
begin

lemma saved_rank_files:
  assumes "save_rank_tensors B X cfg i (snapshot_dir X i) base ts cx (s, ret) = (Inr re, (s', ret'))"
    and "distinct (map td_name ts)"
  shows "rank_files re = [pack_path X cfg i]"
proof -
  obtain c where "re_pack_file re = Some (pack_path X cfg i)" and
      saved: "rank_saved B X s cfg (build_base_cache cfg ret base) ts (re_tensors re) c"
    using save_rank_saved [OF assms] by (metis pack_path_def)
  moreover have "List.map_filter te_filename (re_tensors re) = []"
    using rank_saved_filenames [OF saved] by (auto simp: List.map_filter_def filter_empty_conv)
  ultimately show ?thesis by (simp add: rank_files_def)
qed

lemma kept_files:
  assumes "kept B contents X cfg now ret sns H sn"
  shows "snapshot_files sn = [pack_path X cfg (sn_id sn)]"
proof -
  obtain re where "sn_ranks sn = [(cc_rank cfg, re)]" "rank_files re = [pack_path X cfg (sn_id sn)]"
    using assms saved_rank_files
    by (fastforce simp: kept_def full_kept_def delta_kept_def full_save_def names_rank_def split: option.splits)
  then show ?thesis by (simp add: snapshot_files_def)
qed

lemma apply_retention_effect:
  assumes "apply_retention B X (s, m) = (r, (s', m'))" and "chained (mf_snapshots m)"
  shows "chained (mf_snapshots m')" and "part_of (mf_snapshots m') (mf_snapshots m)"
    and "r = Inr evicted \<Longrightarrow> part_of evicted (mf_snapshots m) \<and> sn_id ` set evicted \<inter> sn_id ` set (mf_snapshots m') = {}"
    and "path \<noteq> manifest_path \<Longrightarrow> (\<And>i. path \<noteq> ranks_path X i) \<Longrightarrow> contents s' path = contents s path"
proof -
  have *: "chained (mf_snapshots m') \<and> part_of (mf_snapshots m') (mf_snapshots m)
      \<and> (r = Inr evicted \<longrightarrow> part_of evicted (mf_snapshots m) \<and> sn_id ` set evicted \<inter> sn_id ` set (mf_snapshots m') = {})
      \<and> (path \<noteq> manifest_path \<longrightarrow> (\<forall>i. path \<noteq> ranks_path X i) \<longrightarrow> contents s' path = contents s path)"
  proof (cases "sync_pins B X s m")
    case (Inl e)
    with assms show ?thesis by (auto simp: apply_retention_def intro: part_of_subset)
  next
    case (Inr m1)
    obtain gone kpt where ret: "retained m1 = (gone, kpt)" by fastforce
    have m': "mf_snapshots m' = kpt" "\<And>evicted. r = Inr evicted \<Longrightarrow> evicted = gone"
      using apply_retention_manifest [OF assms(1) Inr ret] by auto
    have m1: "part_of (mf_snapshots m1) (mf_snapshots m)" "chained (mf_snapshots m1)"
    proof -
      have "part_of (mf_snapshots (set_pins steps m)) (mf_snapshots m)" for steps
        unfolding set_pins_def by (simp add: part_of_flags [OF flag_as_update])
      then show "part_of (mf_snapshots m1) (mf_snapshots m)" using sync_pins_Inr [OF Inr] by (auto intro: part_of_subset)
      show "chained (mf_snapshots m1)" using chained_sync [OF Inr] assms(2) by simp
    qed
    have parts: "subseq kpt (mf_snapshots m1)" "mset gone + mset kpt = mset (mf_snapshots m1)"
      using retained_partition [OF ret] by auto
    have "set gone \<subseteq> set (mf_snapshots m1)" "set kpt \<subseteq> set (mf_snapshots m1)"
      using parts(2) by (metis set_mset_mset set_mset_union Un_upper1, metis set_mset_mset set_mset_union Un_upper2)
    then have "part_of gone (mf_snapshots m)" "part_of kpt (mf_snapshots m)"
      using m1(1) part_of_subset part_of_trans by blast+
    moreover have "sn_id ` set gone \<inter> sn_id ` set kpt = {}"
    proof -
      have "mset (map sn_id gone @ map sn_id kpt) = image_mset sn_id (mset gone + mset kpt)" by simp
      also have "\<dots> = mset (map sn_id (mf_snapshots m1))" unfolding parts(2) by simp
      finally have "mset (map sn_id gone @ map sn_id kpt) = mset (map sn_id (mf_snapshots m1))" .
      moreover have "distinct (map sn_id (mf_snapshots m1))" using m1(2) by (simp add: chained_def)
      ultimately have "distinct (map sn_id gone @ map sn_id kpt)" using mset_eq_imp_distinct_iff by metis
      then show ?thesis by simp
    qed
    moreover have "contents s' path = contents s path" if "path \<noteq> manifest_path" "\<forall>i. path \<noteq> ranks_path X i"
    proof -
      have "s' = fst (snd (persist B X (s, m1\<lparr>mf_snapshots := kpt\<rparr>)))"
        using assms(1) Inr ret by (auto simp: apply_retention_def split: prod.splits sum.splits)
      moreover have "path \<notin> ranks_path X ` I" for I using that(2) by auto
      ultimately show ?thesis using that(1) by (simp add: persist_other)
    qed
    moreover have "chained (mf_snapshots m')" using retained_chained [OF ret m1(2)] m'(1) by simp
    ultimately show ?thesis using m' by (metis (no_types, lifting))
  qed
  from * show "chained (mf_snapshots m')" "part_of (mf_snapshots m') (mf_snapshots m)"
    "r = Inr evicted \<Longrightarrow> part_of evicted (mf_snapshots m) \<and> sn_id ` set evicted \<inter> sn_id ` set (mf_snapshots m') = {}"
    "path \<noteq> manifest_path \<Longrightarrow> (\<And>i. path \<noteq> ranks_path X i) \<Longrightarrow> contents s' path = contents s path"
    by blast+
qed


text \<open>The end of a save: what is still listed keeps its pack, and its base's.\<close>

lemma record_snapshots_effect:
  assumes rec: "record_snapshots B X env pins m st = (r, st')" and ch: "chained (mf_snapshots m)"
    and kept: "\<And>sn. sn \<in> set (mf_snapshots m) \<Longrightarrow> kept B contents X cfg now ret (mf_snapshots m) H sn"
    and H: "apart X H"
  shows "chained (mf_snapshots (co_manifest st')) \<and> part_of (mf_snapshots (co_manifest st')) (mf_snapshots m)
    \<and> co_poisoned st' = co_poisoned st \<and> co_stale st' = co_stale st \<and> co_retained st' = co_retained st
    \<and> (\<forall>sn \<in> set (mf_snapshots (co_manifest st')). contents (co_store st') (pack_path X cfg (sn_id sn))
          = contents (co_store st) (pack_path X cfg (sn_id sn)))"
proof -
  obtain q s' m' where ret: "apply_retention B X (co_store st, m) = (q, (s', m'))" by (metis prod.collapse)
  note effect = apply_retention_effect [OF ret ch]
  have same: "contents s' (pack_path X cfg i) = contents (co_store st) (pack_path X cfg i)" for i
    by (rule effect(4)) simp_all
  show ?thesis
  proof (cases q)
    case (Inl e)
    with rec ret effect(1,2) same show ?thesis
      by (auto simp: record_snapshots_def unpin_ids_def with_store_def with_shared_def)
  next
    case (Inr evicted)
    note gone = effect(3) [OF Inr]
    let ?mid = "co_shared (unpin_ids pins (with_store s' m' st))"
    have st': "co_manifest st' = m'" "co_store st' = sh_store (unlink_snapshots B X (se_seen env) evicted ?mid)"
        "co_poisoned st' = co_poisoned st" "co_stale st' = co_stale st" "co_retained st' = co_retained st"
      using rec ret Inr
      by (auto simp: record_snapshots_def unpin_ids_def with_store_def with_shared_def notify_threads_def)
    have mid: "sh_store ?mid = s'" by (simp add: unpin_ids_def with_store_def with_shared_def)
    have "contents (co_store st') (pack_path X cfg (sn_id sn)) = contents (co_store st) (pack_path X cfg (sn_id sn))"
      if sn: "sn \<in> set (mf_snapshots m')" for sn
    proof -
      obtain s0 p0 where s0: "s0 \<in> set (mf_snapshots m)" "sn = s0\<lparr>sn_pinned := p0\<rparr>"
        using effect(2) sn by (auto simp: part_of_def)
      obtain ts where ts: "map_of H (sn_id sn) = Some ts" using kept_saved(1) [OF kept [OF s0(1)]] s0(2) by auto
      have "pack_path X cfg (sn_id sn) \<notin> set (snapshot_files e) \<and> pack_path X cfg (sn_id sn) \<noteq> ranks_path X (sn_id e)"
        if e: "e \<in> set evicted" for e
      proof -
        obtain s1 p1 where s1: "s1 \<in> set (mf_snapshots m)" "e = s1\<lparr>sn_pinned := p1\<rparr>"
          using gone e by (auto simp: part_of_def)
        obtain us where us: "map_of H (sn_id e) = Some us" using kept_saved(1) [OF kept [OF s1(1)]] s1(2) by auto
        have "snapshot_files e = [pack_path X cfg (sn_id e)]"
          using kept_files [OF kept [OF s1(1)]] s1(2) by (simp add: snapshot_files_def)
        moreover have "sn_id e \<noteq> sn_id sn" using gone e sn by blast
        ultimately show ?thesis using apart_inj [OF H ts us] by auto
      qed
      then have "contents (sh_store (unlink_snapshots B X (se_seen env) evicted ?mid)) (pack_path X cfg (sn_id sn))
          = contents (sh_store ?mid) (pack_path X cfg (sn_id sn))"
        by (rule unlink_snapshots_other)
      with mid st'(2) same show ?thesis by simp
    qed
    with effect(1,2) st' show ?thesis by simp
  qed
qed


end

section \<open>One save\<close>

lemma retained_after:
  assumes "save_rank_tensors B X cfg i dir base ts cx (s, ret) = (r, (s', ret'))"
  shows "ret' = ret \<or> (\<exists>k. ret' = Some k \<and> rb_snap_id k = i)"
  using assms by (auto simp: save_rank_tensors_def retain_base_def Let_def split: sum.splits prod.splits if_splits)

lemma kept_retained:
  assumes "kept B contents X cfg now ret sns H sn" and "ret' = ret \<or> (\<exists>k. ret' = Some k \<and> rb_snap_id k = i)" and "sn_id sn \<noteq> i"
  shows "kept B contents X cfg now ret' sns H sn"
proof -
  have "ret' = ret \<or> of_other (sn_id sn) ret'" using assms(2,3) by (auto simp: of_other_def)
  then show ?thesis using assms(1) by (auto simp: kept_def full_kept_def split: option.splits)
qed

lemma kept_pushed:
  assumes "kept B contents X cfg now ret sns H sn" and "sn_base_snapshot_id sn \<noteq> Some (sn_id new)"
  shows "kept B contents X cfg now ret (sns @ [new]) H sn"
proof (cases "sn_base_snapshot_id sn")
  case (Some b)
  then have "sn_id new \<noteq> b" using assms(2) by simp
  then have *: "(\<forall>f \<in> set (sns @ [new]). sn_id f = b \<longrightarrow> P f) \<longleftrightarrow> (\<forall>f \<in> set sns. sn_id f = b \<longrightarrow> P f)" for P by auto
  show ?thesis using assms(1) Some by (simp only: kept_def option.case delta_kept_def *)
qed (use assms(1) in \<open>simp add: kept_def\<close>)

lemma chained_pushed:
  assumes "chained sns" and "sn_id new \<notin> sn_id ` set sns"
    and "\<And>b. sn_base_snapshot_id new = Some b \<Longrightarrow> \<exists>f \<in> set sns. sn_id f = b \<and> sn_base_snapshot_id f = None"
  shows "chained (sns @ [new])"
proof (rule chainedI)
  show "distinct (map sn_id (sns @ [new]))" using assms(1,2) by (auto simp: chained_def)
qed (use assms(3) chained_base [OF assms(1)] in \<open>auto; blast\<close>)

lemma heal_sound [simp]: "\<not> co_poisoned st \<Longrightarrow> \<not> co_stale st \<Longrightarrow> heal_manifest B X st = (Inr (), st)"
  by (simp add: heal_manifest_def)

lemma lock_sound [simp]: "\<not> co_poisoned st \<Longrightarrow> lock_manifest st = st"
  by (simp add: lock_manifest_def)

lemma choose_base_full:
  "choose_base m reg step = Some b \<Longrightarrow> b \<in> set (mf_snapshots m) \<and> sn_base_snapshot_id b = None \<and> sn_finalized b"
  by (auto simp: choose_base_def last_full_snapshot_def split: if_splits option.splits dest: find_Some_iff_mem)

context reliable_backend
begin

lemma save_rank_failed:
  assumes "save_rank_tensors B X cfg i dir base ts cx (s, ret) = (Inl e, (s', ret'))"
  shows "contents s' = contents s"
  using assms by (auto simp: save_rank_tensors_def Let_def split: sum.splits prod.splits dest: put_parts_err)

text \<open>What a save adds to what is known: the new snapshot, and nothing less of the others.\<close>

lemma kept_after_save:
  assumes save: "save_rank_tensors B X cfg i (snapshot_dir X i) base ts cx (s, ret) = (Inr re, (s', ret'))"
    and dist: "distinct (map td_name ts)" and ch: "chained sns"
    and kept: "\<And>sn. sn \<in> set sns \<Longrightarrow> kept B contents X cfg (contents s) ret sns H sn"
    and fresh: "x_uuid_str X i \<notin> x_uuid_str X ` fst ` set H"
    and ret: "of_other i ret"
    and base: "\<And>b. base = Some b \<Longrightarrow> b \<in> set sns \<and> sn_base_snapshot_id b = None"
    and sn: "sn \<in> set (sns @ [saved_snapshot cfg i base cx re])"
  shows "kept B contents X cfg (contents s') ret' (sns @ [saved_snapshot cfg i base cx re]) ((i, ts) # H) sn"
proof -
  let ?new = "saved_snapshot cfg i base cx re"
  let ?H = "(i, ts) # H"
  have iH: "i \<notin> fst ` set H" using fresh by blast
  have other: "contents s' (pack_path X cfg j) = contents s (pack_path X cfg j)" if "map_of H j = Some us" for j us
  proof -
    have "j \<in> fst ` set H" using that by (force dest: map_of_SomeD)
    then have "x_uuid_str X j \<noteq> x_uuid_str X i" using fresh by (metis imageI)
    then have "pack_path X cfg j \<noteq> rank_pack_path (snapshot_dir X i) (cc_rank cfg)"
      unfolding pack_path_def [symmetric] by simp
    then show ?thesis by (rule save_rank_other [OF save dist])
  qed
  have old: "kept B contents X cfg (contents s') ret' (sns @ [?new]) ?H sn"
    if "sn \<in> set sns" for sn
  proof -
    note k = kept [OF that]
    obtain us where us: "map_of H (sn_id sn) = Some us" using kept_saved(1) [OF k] by blast
    have ne: "sn_id sn \<noteq> i" using us iH by (force dest: map_of_SomeD)
    have "sn_base_snapshot_id sn \<noteq> Some (sn_id ?new)"
      using kept_saved(2) [OF k, of i] iH by (force simp: saved_snapshot_def dest: map_of_SomeD)
    moreover have "kept B contents X cfg (contents s') ret sns H sn"
      using other [OF us] other kept_saved(2) [OF k] by (intro kept_now [OF k]) blast+
    ultimately show ?thesis
      using kept_retained [OF _ retained_after [OF save] ne] by (intro kept_pushed kept_more iH) blast+
  qed
  show ?thesis
  proof (cases "sn = ?new")
    case False
    with sn old show ?thesis by simp
  next
    case new: True
    have nr: "names_rank cfg ?new (map_option sn_id base) re" "sn_id ?new = i"
      by (simp_all add: names_rank_def saved_snapshot_def)
    show ?thesis
    proof (cases base)
      case None
      with save dist ret have "full_save B X cfg i ts re s' ret'" by (auto simp: full_save_def)
      then have "full_kept B contents X cfg (contents s') ret' ?H ?new"
        using nr None by (auto simp: full_kept_def intro!: exI)
      then show ?thesis using new None by (simp add: kept_def saved_snapshot_def)
    next
      case (Some bs)
      have bs: "bs \<in> set sns" "sn_base_snapshot_id bs = None" using base [OF Some] by auto
      obtain ts1 re1 s1 ret1 where full: "map_of H (sn_id bs) = Some ts1" "full_save B X cfg (sn_id bs) ts1 re1 s1 ret1"
          "names_rank cfg bs None re1" "contents s (pack_path X cfg (sn_id bs)) = contents s1 (pack_path X cfg (sn_id bs))"
          "ret = ret1 \<or> of_other (sn_id bs) ret"
        using kept [OF bs(1)] bs(2) by (auto simp: kept_def full_kept_def)
      have ne: "sn_id bs \<noteq> i" using full(1) iH by (force dest: map_of_SomeD)
      have f: "names_rank cfg f None re1" if "f \<in> set (sns @ [?new])" "sn_id f = sn_id bs" for f
        using that chained_id [OF ch bs(1), of f] full(3) nr(2) ne by auto
      have "save_rank_tensors B X cfg (sn_id ?new) (snapshot_dir X (sn_id ?new)) (Some bs) ts cx (s, ret) = (Inr re, (s', ret'))"
        using save Some nr(2) by simp
      moreover have "map_of ?H (sn_id bs) = Some ts1" "map_of ?H (sn_id ?new) = Some ts"
        using full(1) ne nr(2) by auto
      moreover have "names_rank cfg ?new (Some (sn_id bs)) re" using nr(1) Some by simp
      moreover have "contents s' (pack_path X cfg (sn_id bs)) = contents s1 (pack_path X cfg (sn_id bs))"
        using other [OF full(1)] full(4) by simp
      ultimately have "delta_kept B contents X cfg (contents s') (sns @ [?new]) ?H (sn_id bs) ?new"
        using full(2-5) dist f unfolding delta_kept_def by blast
      then show ?thesis using new Some by (simp add: kept_def saved_snapshot_def)
    qed
  qed
qed

lemma write_rank_result:
  assumes "write_rank B X cfg i base ts cx st = (r, st')"
  obtains s' ret' where
    "save_rank_tensors B X cfg i (snapshot_dir X i) base ts cx (co_store st, co_retained st) = (r, (s', ret'))"
    "co_store st' = s'" "co_retained st' = ret'" "co_manifest st' = co_manifest st"
    "co_poisoned st' = co_poisoned st" "co_stale st' = co_stale st"
proof -
  obtain q s' ret' where "save_rank_tensors B X cfg i (snapshot_dir X i) base ts cx (co_store st, co_retained st) = (q, (s', ret'))"
    by (metis prod.collapse)
  with assms that show thesis
    by (auto simp: write_rank_def with_store_def with_shared_def check_dtype_patterns_def)
qed

lemma run_save:
  assumes inv: "run_inv B contents X cfg st H" and H: "apart X ((i, ts) # H)" and dist: "distinct (map td_name ts)"
    and alone: "se_meanwhile env = (\<lambda>st. st)"
    and save: "save_sync_in_pool B X cfg env i step ts md st = (r, st')"
  shows "run_inv B contents X cfg st' ((i, ts) # H)"
proof -
  let ?sns = "mf_snapshots (co_manifest st)" and ?H = "(i, ts) # H"
  let ?base = "choose_base (co_manifest st) (sh_in_flight (co_shared st)) step"
  let ?cx = "\<lparr>cx_step = step, cx_created_at = se_now env, cx_metadata = md\<rparr>"
  let ?st1 = "pin_ids (base_ids ?base) st"
  have fresh: "x_uuid_str X i \<notin> x_uuid_str X ` fst ` set H" and H': "apart X H"
    using H by (auto simp: apart_def image_image)
  then have iH: "i \<notin> fst ` set H" by blast
  have ok: "\<not> co_poisoned st" "\<not> co_stale st" and ch: "chained ?sns"
    and kept: "\<And>sn. sn \<in> set ?sns \<Longrightarrow> kept B contents X cfg (contents (co_store st)) (co_retained st) ?sns H sn"
    and ret: "\<And>k. co_retained st = Some k \<Longrightarrow> rb_snap_id k \<in> fst ` set H"
    using inv by (auto simp: run_inv_def)
  have st1: "co_store ?st1 = co_store st" "co_retained ?st1 = co_retained st" "co_manifest ?st1 = co_manifest st"
      "co_poisoned ?st1 = co_poisoned st" "co_stale ?st1 = co_stale st"
    by (simp_all add: pin_ids_def with_shared_def)
  obtain q st2 where w: "write_rank B X cfg i ?base ts ?cx ?st1 = (q, st2)" by (metis prod.collapse)
  obtain s2 ret2 where tensors: "save_rank_tensors B X cfg i (snapshot_dir X i) ?base ts ?cx
        (co_store st, co_retained st) = (q, (s2, ret2))"
      and st2: "co_store st2 = s2" "co_retained st2 = ret2" "co_manifest st2 = co_manifest st"
        "\<not> co_poisoned st2" "\<not> co_stale st2"
    using write_rank_result [OF w] st1 ok by metis
  have ret2: "ret2 = co_retained st \<or> (\<exists>k. ret2 = Some k \<and> rb_snap_id k = i)" using tensors by (rule retained_after)
  have ids: "rb_snap_id k \<in> fst ` set ?H" if "ret2 = Some k" for k using ret2 ret that by auto
  have base: "b \<in> set ?sns \<and> sn_base_snapshot_id b = None" if "?base = Some b" for b
    using choose_base_full that by blast
  have ne: "sn_id sn \<noteq> i" if "sn \<in> set ?sns" for sn
    using kept_saved(1) [OF kept [OF that]] iH by (force dest: map_of_SomeD)
  show ?thesis
  proof (cases q)
    case (Inl e)
    then have st': "st' = unpin_ids (base_ids ?base) st2"
      using save w ok by (simp add: save_sync_in_pool_def bind_io_def Let_def)
    have "contents s2 = contents (co_store st)" using tensors Inl by (simp add: save_rank_failed)
    then have "kept B contents X cfg (contents s2) ret2 ?sns ?H sn" if "sn \<in> set ?sns" for sn
      using kept_more [OF kept_retained [OF kept [OF that] ret2 ne [OF that]] iH] by simp
    then show ?thesis using ch st2 ids
      by (auto simp: run_inv_def st' unpin_ids_def with_shared_def)
  next
    case (Inr re)
    let ?new = "saved_snapshot cfg i ?base ?cx re"
    let ?m = "push_snapshot ?new (co_manifest st)"
    have sns: "mf_snapshots ?m = ?sns @ [?new]" by (simp add: push_snapshot_def)
    have rec: "record_snapshots B X env (base_ids ?base) ?m st2 = (r, st')"
      using save w ok Inr st2 alone by (simp add: save_sync_in_pool_def bind_io_def Let_def)
    have new: "kept B contents X cfg (contents s2) ret2 (mf_snapshots ?m) ?H sn" if "sn \<in> set (mf_snapshots ?m)" for sn
      unfolding sns
    proof (rule kept_after_save [OF _ dist ch kept fresh])
      show "save_rank_tensors B X cfg i (snapshot_dir X i) ?base ts ?cx (co_store st, co_retained st) = (Inr re, (s2, ret2))"
        using tensors Inr by simp
      show "of_other i (co_retained st)" using ret iH by (auto simp: of_other_def)
    qed (use base that sns in auto)
    have "chained (mf_snapshots ?m)"
      unfolding sns
    proof (rule chained_pushed [OF ch])
      show "sn_id ?new \<notin> sn_id ` set ?sns" using ne by (auto simp: saved_snapshot_def)
    qed (use base in \<open>auto simp: saved_snapshot_def\<close>)
    from record_snapshots_effect [OF rec this new H] have
      eff: "chained (mf_snapshots (co_manifest st'))" "part_of (mf_snapshots (co_manifest st')) (mf_snapshots ?m)"
        "\<not> co_poisoned st'" "\<not> co_stale st'" "co_retained st' = ret2"
      and now: "\<And>sn. sn \<in> set (mf_snapshots (co_manifest st')) \<Longrightarrow>
          contents (co_store st') (pack_path X cfg (sn_id sn)) = contents s2 (pack_path X cfg (sn_id sn))"
      using st2 by auto
    have "kept B contents X cfg (contents (co_store st')) ret2 (mf_snapshots (co_manifest st')) ?H sn"
      if sn: "sn \<in> set (mf_snapshots (co_manifest st'))" for sn
    proof (rule kept_now [OF kept_part [OF _ eff(2)]])
      obtain s0 p0 where "s0 \<in> set (mf_snapshots ?m)" "sn = s0\<lparr>sn_pinned := p0\<rparr>" using eff(2) sn by (auto simp: part_of_def)
      with new [of s0] show "kept B contents X cfg (contents s2) ret2 (mf_snapshots ?m) ?H sn" by simp
      fix b assume "sn_base_snapshot_id sn = Some b"
      then obtain f where "f \<in> set (mf_snapshots (co_manifest st'))" "sn_id f = b" using chained_base [OF eff(1) sn] by blast
      with now show "contents (co_store st') (pack_path X cfg b) = contents s2 (pack_path X cfg b)" by blast
    qed (rule now [OF sn])
    with eff ids show ?thesis by (auto simp: run_inv_def)
  qed
qed


lemma set_pinned_effect:
  assumes "set_pinned B X step pinned (s, m) = (r, (s', m'))" and "chained (mf_snapshots m)"
  shows "chained (mf_snapshots m') \<and> part_of (mf_snapshots m') (mf_snapshots m)
    \<and> (\<forall>i. contents s' (pack_path X cfg i) = contents s (pack_path X cfg i))"
proof -
  have flags: "part_of (mf_snapshots (flag_snapshot i pinned m)) (mf_snapshots m)"
      "chained (mf_snapshots (flag_snapshot i pinned m))" for i
    unfolding flag_snapshot_def by (simp_all add: part_of_flags [OF flag_as_update] chained_map assms(2))
  have pers: "mf_snapshots m2 = mf_snapshots m1 \<and> contents s1 (pack_path X cfg i) = contents s (pack_path X cfg i)"
    if "persist B X (s, m1) = (q, (s1, m2))" for q s1 m1 m2 i
  proof -
    have "pack_path X cfg i \<notin> ranks_path X ` I" for I by auto
    then have "contents (fst (snd (persist B X (s, m1)))) (pack_path X cfg i) = contents s (pack_path X cfg i)"
      by (simp add: persist_other)
    with that persist_snapshots [of B X s m1] show ?thesis by simp
  qed
  have pins: "contents s2 (pack_path X cfg i) = contents s1 (pack_path X cfg i)"
    if "write_pins B X steps s1 = (q, s2)" for q s1 s2 steps i
    using that put_other [of "pack_path X cfg i" pins_file]
    by (auto simp: write_pins_def bind_io_def lift_io_def split: sum.splits prod.splits) (metis snd_conv)+
  show ?thesis
  proof (cases "find (\<lambda>sn. sn_step sn = step \<and> sn_finalized sn) (rev (mf_snapshots m))")
    case None
    with assms show ?thesis by (auto simp: set_pinned_def intro: part_of_subset)
  next
    case (Some target)
    let ?m1 = "flag_snapshot (sn_id target) pinned m"
    let ?changed = "list_ex (\<lambda>sn. sn_id sn = sn_id target \<and> sn_pinned sn \<noteq> pinned) (mf_snapshots m)"
    obtain q s1 m2 where first: "(if ?changed then persist B X (s, ?m1) else (Inr (), (s, ?m1))) = (q, (s1, m2))"
      by (metis prod.collapse)
    have m2: "mf_snapshots m2 = mf_snapshots ?m1" "contents s1 (pack_path X cfg i) = contents s (pack_path X cfg i)" for i
      using first pers by (auto split: if_splits)
    have "m' = m2 \<and> (s' = s1 \<or> (\<exists>q2 steps. write_pins B X steps s1 = (q2, s')))"
      using assms(1) Some first
      by (auto simp: set_pinned_def Let_def split: sum.splits prod.splits option.splits if_splits)
    with m2 flags pins show ?thesis by (metis (no_types, lifting))
  qed
qed

lemma run_pin:
  assumes "run_inv B contents X cfg st H" and "core_set_pinned B X step pinned st = (r, st')"
  shows "run_inv B contents X cfg st' H"
proof -
  let ?sns = "mf_snapshots (co_manifest st)" and ?sns' = "mf_snapshots (co_manifest st')"
  have ok: "\<not> co_poisoned st" and ch: "chained ?sns" using assms(1) by (auto simp: run_inv_def)
  obtain q s' m' where p: "set_pinned B X step pinned (co_store st, co_manifest st) = (q, (s', m'))" by (metis prod.collapse)
  have st': "co_store st' = s'" "co_manifest st' = m'" "co_poisoned st' = co_poisoned st" "co_stale st' = co_stale st"
      "co_retained st' = co_retained st"
    using assms(2) ok p by (auto simp: core_set_pinned_def with_store_def with_shared_def)
  note eff = set_pinned_effect [OF p ch, of cfg]
  have "kept B contents X cfg (contents s') (co_retained st) ?sns' H sn" if sn: "sn \<in> set ?sns'" for sn
  proof (rule kept_part [OF _ eff [THEN conjunct2, THEN conjunct1, folded st'(2)]])
    obtain s0 p0 where "s0 \<in> set ?sns" "sn = s0\<lparr>sn_pinned := p0\<rparr>" using eff sn st'(2) by (auto simp: part_of_def)
    then have "kept B contents X cfg (contents (co_store st)) (co_retained st) ?sns H sn"
      using assms(1) by (simp add: run_inv_def)
    then show "kept B contents X cfg (contents s') (co_retained st) ?sns H sn" using eff by (auto intro: kept_now)
  qed
  with eff st' assms(1) show ?thesis by (simp add: run_inv_def)
qed

end

section \<open>Runs\<close>

text \<open>
  The run of one process: saves with fresh ids and distinct names, each as it ends, pins, and loads in
  between. No merger runs beside it and no other thread touches the state.
\<close>

inductive run :: "'s backend \<Rightarrow> ext \<Rightarrow> 'r coordinator_config \<Rightarrow> ('s, 'r) core \<Rightarrow> (uuid \<times> tensor_data list) list \<Rightarrow> bool"
  for B X cfg where
  run_opened: "mf_snapshots m = [] \<Longrightarrow> run B X cfg (new_core cfg s m remote) []"
| run_saved: "run B X cfg st H \<Longrightarrow> x_uuid_str X i \<notin> x_uuid_str X ` fst ` set H \<Longrightarrow> distinct (map td_name ts)
    \<Longrightarrow> se_meanwhile env = (\<lambda>st. st) \<Longrightarrow> save_sync_in_pool B X cfg env i step ts md st = (r, st')
    \<Longrightarrow> run B X cfg st' ((i, ts) # H)"
| run_pinned: "run B X cfg st H \<Longrightarrow> core_set_pinned B X step pinned st = (r', st') \<Longrightarrow> run B X cfg st' H"
| run_loaded: "run B X cfg st H \<Longrightarrow> cc_remote_storage cfg = None \<Longrightarrow> core_load B X cfg (\<lambda>st. st) i st = (r'', st')
    \<Longrightarrow> run B X cfg st' H"

context reliable_backend
begin

lemma core_load_local:
  assumes "cc_remote_storage cfg = None" and "\<not> co_poisoned st" and "find_snapshot (co_manifest st) i = Some sn"
  shows "core_load B X cfg (\<lambda>st. st) i st
    = (load_in_pool B X (co_store st) (cc_rank cfg) (co_manifest st) i, unpin_ids (read_ids sn) (pin_ids (read_ids sn) st))"
  using assms by (simp add: core_load_def bind_io_def pin_and_fetch_def fetch_absent_def pin_ids_def with_shared_def Let_def)

lemma core_load_keeps:
  assumes "cc_remote_storage cfg = None" and "\<not> co_poisoned st" and "core_load B X cfg (\<lambda>st. st) i st = (r, st')"
  shows "co_manifest st' = co_manifest st \<and> co_store st' = co_store st \<and> co_retained st' = co_retained st
    \<and> co_poisoned st' = co_poisoned st \<and> co_stale st' = co_stale st"
proof (cases "find_snapshot (co_manifest st) i")
  case None
  with assms show ?thesis by (simp add: core_load_def bind_io_def pin_and_fetch_def Let_def)
next
  case (Some sn)
  from core_load_local [OF assms(1,2) this] assms(3) show ?thesis
    by (auto simp: pin_ids_def unpin_ids_def with_shared_def)
qed

lemma run_invariant: "run B X cfg st H \<Longrightarrow> apart X H \<and> run_inv B contents X cfg st H"
proof (induction rule: run.induct)
  case (run_opened m s remote)
  then show ?case by (simp add: run_inv_def new_core_def chained_def apart_def Let_def)
next
  case (run_saved st H i ts env step md r st')
  then have "apart X ((i, ts) # H)" by (simp add: apart_def image_image)
  with run_saved show ?case by (blast intro: run_save)
next
  case (run_pinned st H step pinned r' st')
  then show ?case by (blast intro: run_pin)
next
  case (run_loaded st H i r'' st')
  then have "\<not> co_poisoned st" by (simp add: run_inv_def)
  from core_load_keeps [OF run_loaded(2) this run_loaded(3)] run_loaded.IH show ?case by (simp add: run_inv_def)
qed

lemma kept_loads_back:
  assumes ch: "chained (mf_snapshots m)" and sn: "sn \<in> set (mf_snapshots m)"
    and k: "kept B contents X cfg (contents s) ret0 (mf_snapshots m) H sn"
    and zs: "zstd_sound X (cc_compression cfg)"
    and coll: "hashes_apart X (\<Union>(_, ts) \<in> set H. stored_bytes (cc_save_dtype cfg) ` set ts)"
  shows "\<exists>ts out. map_of H (sn_id sn) = Some ts \<and> gives_back (cc_save_dtype cfg) X ts out
    \<and> load_in_pool B X s (cc_rank cfg) m (sn_id sn) = Inr out"
proof -
  have found: "find_snapshot m (sn_id f) = Some f" if "f \<in> set (mf_snapshots m)" for f
    unfolding find_snapshot_def using ch that by (intro find_distinct) (simp_all add: chained_def)
  have rec: "recorded cfg m (sn_id f) base re" if "f \<in> set (mf_snapshots m)" "names_rank cfg f base re" for f base re
    using found [OF that(1)] that(2) by (auto simp: recorded_def names_rank_def rank_of_def)
  show ?thesis
  proof (cases "sn_base_snapshot_id sn")
    case None
    then obtain ts re s1 ret1 cx s00 ret00 where f: "map_of H (sn_id sn) = Some ts" "distinct (map td_name ts)"
        "save_rank_tensors B X cfg (sn_id sn) (snapshot_dir X (sn_id sn)) None ts cx (s00, ret00) = (Inr re, (s1, ret1))"
        "names_rank cfg sn None re"
        "contents s (pack_path X cfg (sn_id sn)) = contents s1 (pack_path X cfg (sn_id sn))"
      using k by (auto simp: kept_def full_kept_def full_save_def)
    from full_loads [OF f(3,2) zs rec [OF sn f(4)] f(5) [unfolded pack_path_def]] f(1) show ?thesis by blast
  next
    case (Some b)
    then have "delta_kept B contents X cfg (contents s) (mf_snapshots m) H b sn" using k by (simp add: kept_def)
    then obtain ts1 re1 s1 ret1 ts re cx bs s2 ret s3 ret3 cx1 s0 ret0 where
        d: "map_of H b = Some ts1" "distinct (map td_name ts1)"
          "save_rank_tensors B X cfg b (snapshot_dir X b) None ts1 cx1 (s0, ret0) = (Inr re1, (s1, ret1))" "of_other b ret0"
          "map_of H (sn_id sn) = Some ts" "distinct (map td_name ts)"
          "save_rank_tensors B X cfg (sn_id sn) (snapshot_dir X (sn_id sn)) (Some bs) ts cx (s2, ret) = (Inr re, (s3, ret3))"
          "sn_id bs = b" "names_rank cfg bs None re1" "names_rank cfg sn (Some b) re" "ret = ret1 \<or> of_other b ret"
          "contents s2 (pack_path X cfg b) = contents s1 (pack_path X cfg b)"
          "contents s (pack_path X cfg b) = contents s1 (pack_path X cfg b)"
          "contents s (pack_path X cfg (sn_id sn)) = contents s3 (pack_path X cfg (sn_id sn))"
          "\<And>f. f \<in> set (mf_snapshots m) \<Longrightarrow> sn_id f = b \<Longrightarrow> names_rank cfg f None re1"
      unfolding delta_kept_def full_save_def by blast
    obtain f where f: "f \<in> set (mf_snapshots m)" "sn_id f = b" using chained_base [OF ch sn Some] by blast
    have "recorded cfg m b None re1" using rec [OF f(1) d(15) [OF f]] f(2) by simp
    moreover have "hashes_apart X (stored_bytes (cc_save_dtype cfg) ` (set ts1 \<union> set ts))"
    proof -
      have "(b, ts1) \<in> set H" "(sn_id sn, ts) \<in> set H" using d(1,5) by (auto dest: map_of_SomeD)
      then have "stored_bytes (cc_save_dtype cfg) ` (set ts1 \<union> set ts)
          \<subseteq> (\<Union>(_, ts) \<in> set H. stored_bytes (cc_save_dtype cfg) ` set ts)"
        by fastforce
      then show ?thesis using coll by (auto simp: hashes_apart_def intro: inj_on_subset)
    qed
    moreover have "rank_of (cc_rank cfg) bs = Some re1" "sn_compression bs = cc_compression cfg"
      using d(9) by (auto simp: names_rank_def rank_of_def)
    ultimately show ?thesis
      using delta_loads [OF d(3,7,2,6) zs d(8) _ _ _ rec [OF sn d(10)] _ _ d(12) [unfolded pack_path_def]
          d(13,14) [unfolded pack_path_def]] d(4,5,11)
      by (auto simp: of_other_def)
  qed
qed

lemma run_loads_back:
  assumes run: "run B X cfg st H" and sn: "sn \<in> set (mf_snapshots (co_manifest st))"
    and "zstd_sound X (cc_compression cfg)"
    and "hashes_apart X (\<Union>(_, ts) \<in> set H. stored_bytes (cc_save_dtype cfg) ` set ts)"
  shows "\<exists>ts out. map_of H (sn_id sn) = Some ts \<and> gives_back (cc_save_dtype cfg) X ts out
    \<and> load_in_pool B X (co_store st) (cc_rank cfg) (co_manifest st) (sn_id sn) = Inr out"
  using run_invariant [OF run] sn assms(3,4) by (intro kept_loads_back) (auto simp: run_inv_def)

text \<open>Its packs are there.\<close>

lemma kept_present:
  assumes "kept B contents X cfg now ret sns H sn"
  shows "now (pack_path X cfg (sn_id sn)) \<noteq> None"
    and "sn_base_snapshot_id sn = Some b \<Longrightarrow> now (pack_path X cfg b) \<noteq> None"
proof -
  have saved: "contents s' (pack_path X cfg i) \<noteq> None"
    if "save_rank_tensors B X cfg i (snapshot_dir X i) base ts cx (s, ret) = (Inr re, (s', ret'))" "distinct (map td_name ts)"
    for i base ts cx s ret re s' ret'
    using save_rank_saved [OF that] by (auto simp: pack_path_def)
  show "now (pack_path X cfg (sn_id sn)) \<noteq> None"
  proof (cases "sn_base_snapshot_id sn")
    case None
    with assms obtain ts cx s0 ret0 re s1 ret1 where "now (pack_path X cfg (sn_id sn)) = contents s1 (pack_path X cfg (sn_id sn))"
        "save_rank_tensors B X cfg (sn_id sn) (snapshot_dir X (sn_id sn)) None ts cx (s0, ret0) = (Inr re, (s1, ret1))"
        "distinct (map td_name ts)"
      by (auto simp: kept_def full_kept_def full_save_def)
    with saved show ?thesis by metis
  next
    case (Some b)
    with assms have "delta_kept B contents X cfg now sns H b sn" by (simp add: kept_def)
    then show ?thesis unfolding delta_kept_def using saved by metis
  qed
  show "now (pack_path X cfg b) \<noteq> None" if "sn_base_snapshot_id sn = Some b"
  proof -
    from assms that have "delta_kept B contents X cfg now sns H b sn" by (simp add: kept_def)
    then show ?thesis unfolding delta_kept_def full_save_def using saved by metis
  qed
qed

end


section \<open>A concrete run\<close>

definition quiet_env :: "('s, 'r) save_env" where
  "quiet_env = \<lparr>se_now = 0, se_meanwhile = (\<lambda>st. st), se_seen = [], se_merger_alive = True, se_syncer_alive = True\<rparr>"

lemma quiet_env_simps [simp]: "se_meanwhile quiet_env = (\<lambda>st. st)" "se_now quiet_env = 0"
  by (simp_all add: quiet_env_def)

definition first_core :: "(local_fs, local_fs) core" where
  "first_core = new_core run_config empty_fs (run_manifest []) empty_fs"

lemma save_sync_runs:
  assumes "\<not> co_poisoned st" and "\<not> co_stale st" and "se_meanwhile env = (\<lambda>st. st)"
    and "choose_base (co_manifest st) (sh_in_flight (co_shared st)) step = base"
    and "write_rank B X cfg i base ts \<lparr>cx_step = step, cx_created_at = se_now env, cx_metadata = md\<rparr>
      (pin_ids (base_ids base) st) = (Inr re, st2)"
    and "\<not> co_poisoned st2"
  shows "save_sync_in_pool B X cfg env i step ts md st = record_snapshots B X env (base_ids base)
    (push_snapshot (saved_snapshot cfg i base \<lparr>cx_step = step, cx_created_at = se_now env, cx_metadata = md\<rparr> re)
      (co_manifest st2)) st2"
  using assms by (simp add: save_sync_in_pool_def bind_io_def Let_def)

lemma run_retained:
  "retained (run_manifest [run_snapshot 1 None re]) = ([], [run_snapshot 1 None re])"
  by (simp add: retained_def run_manifest_def run_snapshot_def default_manifest_def default_retention_def
      cap_fulls.simps cap_total.simps full_count_def effective_total_cap_def Let_def)

text \<open>The first save of the process: in full, and listed.\<close>

lemma first_save:
  "\<exists>re r st'. save_sync_in_pool (local_backend False 0) codec_ext run_config quiet_env 1 1 run_ts1 [] first_core = (r, st')
     \<and> mf_snapshots (co_manifest st') = [run_snapshot 1 None re]"
proof -
  let ?B = "local_backend False 0"
  obtain re s1 ret1 where full: "save_rank_tensors ?B codec_ext run_config 1 (snapshot_dir codec_ext 1)
      None run_ts1 run_cx (empty_fs, None) = (Inr re, (s1, ret1))"
    using run_full by blast
  have core: "co_store first_core = empty_fs" "co_manifest first_core = run_manifest []" "co_retained first_core = None"
      "\<not> co_poisoned first_core" "\<not> co_stale first_core"
    by (simp_all add: first_core_def new_core_def Let_def)
  have base: "choose_base (run_manifest []) reg 1 = None" for reg
    by (simp add: choose_base_def should_force_full_def run_manifest_def)
  obtain st2 where w: "write_rank ?B codec_ext run_config 1 None run_ts1 run_cx (pin_ids [] first_core) = (Inr re, st2)"
      and st2: "co_store st2 = s1" "co_manifest st2 = run_manifest []" "\<not> co_poisoned st2"
    using full core by (auto simp: write_rank_def pin_ids_def with_store_def with_shared_def check_dtype_patterns_def)
  have new: "push_snapshot (saved_snapshot run_config 1 None run_cx re) (run_manifest []) = run_manifest [run_snapshot 1 None re]"
    by (simp add: push_snapshot_def saved_snapshot_def run_manifest_def run_snapshot_def run_cx_def)
  obtain q s' m' where ret: "apply_retention ?B codec_ext (s1, run_manifest [run_snapshot 1 None re]) = (q, (s', m'))"
    by (metis prod.collapse)
  have "fs_contents s1 pins_file = None"
    using local_disk.save_rank_other [OF full, of pins_file]
    by (simp add: run_ts1_def pins_file_def rank_pack_path_def snapshot_dir_def fs_contents_def empty_fs_def)
  then have "read_pins ?B codec_ext s1 \<noteq> Inr (Some steps)" for steps
    using local_store.get_sound [of False 0 s1 pins_file]
    by (auto simp: read_pins_def split: sum.splits moonclip_error.splits)
  then consider e where "read_pins ?B codec_ext s1 = Inl e" | "read_pins ?B codec_ext s1 = Inr None"
    by (metis not_None_eq old.sum.exhaust)
  then have "mf_snapshots m' = [run_snapshot 1 None re]"
  proof cases
    case 1
    with ret show ?thesis by (simp add: apply_retention_def sync_pins_def run_manifest_def split: prod.splits) auto
  next
    case 2
    then show ?thesis using apply_retention_manifest [OF ret _ run_retained] by (simp add: sync_pins_def)
  qed
  moreover obtain r st' where rec: "record_snapshots ?B codec_ext quiet_env [] (run_manifest [run_snapshot 1 None re]) st2 = (r, st')"
    by (metis prod.collapse)
  moreover from rec ret st2 have "co_manifest st' = m'"
    by (cases q) (auto simp: record_snapshots_def unpin_ids_def with_store_def with_shared_def notify_threads_def)
  moreover have "save_sync_in_pool ?B codec_ext run_config quiet_env 1 1 run_ts1 [] first_core
      = record_snapshots ?B codec_ext quiet_env (base_ids None)
          (push_snapshot (saved_snapshot run_config 1 None
            \<lparr>cx_step = 1, cx_created_at = se_now (quiet_env :: (local_fs, local_fs) save_env), cx_metadata = []\<rparr> re) (co_manifest st2)) st2"
    by (rule save_sync_runs)
      (simp_all only: core base st2 quiet_env_simps base_ids_def option.case w [unfolded run_cx_def] not_False_eq_True)
  then have "save_sync_in_pool ?B codec_ext run_config quiet_env 1 1 run_ts1 [] first_core
      = record_snapshots ?B codec_ext quiet_env [] (run_manifest [run_snapshot 1 None re]) st2"
    unfolding quiet_env_simps st2(2) run_cx_def [symmetric] new base_ids_def option.case .
  ultimately show ?thesis by auto
qed


end
