(* ===== verification/AsyncSave.thy ===== *)
theory AsyncSave
  imports TrainingRun
begin

text \<open>
  The public coordinator of \<^verbatim>\<open>src/src/coordinator/mod.rs\<close>: a core and, when saving is asynchronous,
  the saver in front of it. Every call first lets the saver finish what it has, and most of them
  report what became of it. The result of a call is \<open>None\<close> where it would wait for ever.
\<close>

section \<open>The saver's job\<close>

record save_job =
  sj_snap_id :: uuid
  sj_step :: nat
  sj_tensors :: "tensor_data list"
  sj_metadata :: metadata

text \<open>\<^verbatim>\<open>Display\<close> of an error.\<close>

fun error_text :: "moonclip_error \<Rightarrow> string" where
  "error_text (IoErr e) = ''IO error: '' @ e"
| "error_text (SerializationErr e) = ''Serialization error: '' @ e"
| "error_text (CompressionErr e) = ''Compression error: '' @ e"
| "error_text (NotFound e) = ''Checkpoint not found: '' @ e"
| "error_text (IntegrityErr e a) = ''Integrity check failed: expected '' @ e @ '', got '' @ a"
| "error_text (DeltaErr e) = ''Delta error: '' @ e"
| "error_text (StorageErr e) = ''Storage backend error: '' @ e"
| "error_text (ConfigErr e) = ''Invalid configuration: '' @ e"

definition run_job :: "'s backend \<Rightarrow> ext \<Rightarrow> 'r coordinator_config \<Rightarrow> ('s, 'r) save_env \<Rightarrow> save_job \<Rightarrow> ('s, 'r) core
    \<Rightarrow> save_outcome \<times> ('s, 'r) core" where
  "run_job B X cfg env job c =
     (case save_sync_in_pool B X cfg env (sj_snap_id job) (sj_step job) (sj_tensors job) (sj_metadata job) c of
        (Inr _, c') \<Rightarrow> (Saved, c')
      | (Inl e, c') \<Rightarrow> (SaveFailed (error_text e), c'))"

section \<open>The coordinator\<close>

record ('s, 'r) coordinator =
  cd_saver :: "save_job saver option"
  cd_core :: "('s, 'r) core"

definition new_coordinator :: "'r coordinator_config \<Rightarrow> ('s, 'r) core \<Rightarrow> ('s, 'r) coordinator" where
  "new_coordinator cfg c =
     \<lparr>cd_saver = (if cc_async_save cfg \<and> cc_world_size cfg = 1 then Some new_saver else None), cd_core = c\<rparr>"

definition save :: "'s backend \<Rightarrow> ext \<Rightarrow> 'r coordinator_config \<Rightarrow> ('s, 'r) save_env \<Rightarrow> nat \<Rightarrow> uuid \<Rightarrow> nat
    \<Rightarrow> tensor_data list \<Rightarrow> metadata \<Rightarrow> ('s, 'r) coordinator \<Rightarrow> (uuid result \<times> ('s, 'r) coordinator) option" where
  "save B X cfg env waited snap_id step tensors md cd =
     (if cc_world_size cfg \<noteq> 1 then Some (Inl (ConfigErr ''Multi-rank save requires explicit flow''), cd)
      else let job = \<lparr>sj_snap_id = snap_id, sj_step = step, sj_tensors = tensors, sj_metadata = md\<rparr> in
        case cd_saver cd of
          Some sv \<Rightarrow> map_option (\<lambda>(r, sv', c'). (bind_res r (\<lambda>_. Inr snap_id), \<lparr>cd_saver = Some sv', cd_core = c'\<rparr>))
            (submit (run_job B X cfg env) waited job (sv, cd_core cd))
        | None \<Rightarrow> (case save_sync_in_pool B X cfg env snap_id step tensors md (cd_core cd) of
            (r, c') \<Rightarrow> Some (bind_res r (\<lambda>_. Inr snap_id), cd\<lparr>cd_core := c'\<rparr>)))"

definition last_queue_wait :: "('s, 'r) coordinator \<Rightarrow> nat" where
  "last_queue_wait cd = (case cd_saver cd of Some sv \<Rightarrow> sv_last_wait sv | None \<Rightarrow> 0)"

definition cd_wait_idle :: "'s backend \<Rightarrow> ext \<Rightarrow> 'r coordinator_config \<Rightarrow> ('s, 'r) save_env \<Rightarrow> ('s, 'r) coordinator
    \<Rightarrow> ('s, 'r) coordinator option" where
  "cd_wait_idle B X cfg env cd =
     (case cd_saver cd of
        None \<Rightarrow> Some cd
      | Some sv \<Rightarrow> map_option (\<lambda>(sv', c'). \<lparr>cd_saver = Some sv', cd_core = c'\<rparr>)
          (wait_idle (run_job B X cfg env) (sv, cd_core cd)))"

definition flush :: "'s backend \<Rightarrow> ext \<Rightarrow> 'r coordinator_config \<Rightarrow> ('s, 'r) save_env \<Rightarrow> ('s, 'r) coordinator
    \<Rightarrow> (unit result \<times> ('s, 'r) coordinator) option" where
  "flush B X cfg env cd =
     map_option (\<lambda>(r, cd'). (bind_res r (\<lambda>_. check_background_threads (cd_core cd')), cd'))
       (case cd_saver cd of
          None \<Rightarrow> Some (Inr (), cd)
        | Some sv \<Rightarrow> map_option (\<lambda>(r, sv', c'). (r, \<lparr>cd_saver = Some sv', cd_core = c'\<rparr>))
            (saver_flush (run_job B X cfg env) (sv, cd_core cd)))"

text \<open>The calls that report a failed save before they begin, and those that only wait.\<close>

definition after_flush :: "'s backend \<Rightarrow> ext \<Rightarrow> 'r coordinator_config \<Rightarrow> ('s, 'r) save_env \<Rightarrow> (('s, 'r) core, 'a) io
    \<Rightarrow> ('s, 'r) coordinator \<Rightarrow> ('a result \<times> ('s, 'r) coordinator) option" where
  "after_flush B X cfg env op cd =
     map_option (\<lambda>(r, cd'). case r of
         Inl e \<Rightarrow> (Inl e, cd')
       | Inr _ \<Rightarrow> (case op (cd_core cd') of (q, c') \<Rightarrow> (q, cd'\<lparr>cd_core := c'\<rparr>))) (flush B X cfg env cd)"

definition when_idle :: "'s backend \<Rightarrow> ext \<Rightarrow> 'r coordinator_config \<Rightarrow> ('s, 'r) save_env \<Rightarrow> (('s, 'r) core \<Rightarrow> 'a \<times> ('s, 'r) core)
    \<Rightarrow> ('s, 'r) coordinator \<Rightarrow> ('a \<times> ('s, 'r) coordinator) option" where
  "when_idle B X cfg env op cd =
     map_option (\<lambda>cd'. case op (cd_core cd') of (q, c') \<Rightarrow> (q, cd'\<lparr>cd_core := c'\<rparr>)) (cd_wait_idle B X cfg env cd)"

definition cd_create_snapshot :: "'s backend \<Rightarrow> ext \<Rightarrow> 'r coordinator_config \<Rightarrow> ('s, 'r) save_env \<Rightarrow> uuid \<Rightarrow> nat \<Rightarrow> metadata
    \<Rightarrow> ('s, 'r) coordinator \<Rightarrow> (uuid result \<times> ('s, 'r) coordinator) option" where
  "cd_create_snapshot B X cfg env snap_id step md = after_flush B X cfg env (create_snapshot B X cfg env snap_id step md)"

definition cd_save_rank :: "'s backend \<Rightarrow> ext \<Rightarrow> 'r coordinator_config \<Rightarrow> ('s, 'r) save_env \<Rightarrow> uuid \<Rightarrow> tensor_data list
    \<Rightarrow> ('s, 'r) coordinator \<Rightarrow> (unit result \<times> ('s, 'r) coordinator) option" where
  "cd_save_rank B X cfg env snap_id tensors = after_flush B X cfg env (save_rank_in_pool B X cfg env snap_id tensors)"

definition cd_finalize_snapshot :: "'s backend \<Rightarrow> ext \<Rightarrow> 'r coordinator_config \<Rightarrow> ('s, 'r) save_env \<Rightarrow> uuid
    \<Rightarrow> ('s, 'r) coordinator \<Rightarrow> (unit result \<times> ('s, 'r) coordinator) option" where
  "cd_finalize_snapshot B X cfg env snap_id = after_flush B X cfg env (finalize_snapshot B X cfg env snap_id)"

definition cd_load :: "'s backend \<Rightarrow> ext \<Rightarrow> 'r coordinator_config \<Rightarrow> ('s, 'r) save_env \<Rightarrow> (('s, 'r) core \<Rightarrow> ('s, 'r) core) \<Rightarrow> uuid
    \<Rightarrow> ('s, 'r) coordinator \<Rightarrow> ((string \<times> bytes) list result \<times> ('s, 'r) coordinator) option" where
  "cd_load B X cfg env meanwhile snap_id = after_flush B X cfg env (core_load B X cfg meanwhile snap_id)"

definition cd_load_latest :: "'s backend \<Rightarrow> ext \<Rightarrow> 'r coordinator_config \<Rightarrow> ('s, 'r) save_env \<Rightarrow> (('s, 'r) core \<Rightarrow> ('s, 'r) core)
    \<Rightarrow> ('s, 'r) coordinator \<Rightarrow> ((uuid \<times> (string \<times> bytes) list) result \<times> ('s, 'r) coordinator) option" where
  "cd_load_latest B X cfg env meanwhile = after_flush B X cfg env (load_latest B X cfg meanwhile)"

definition cd_load_tensors :: "'s backend \<Rightarrow> ext \<Rightarrow> 'r coordinator_config \<Rightarrow> ('s, 'r) save_env \<Rightarrow> uuid \<Rightarrow> string list
    \<Rightarrow> ('s, 'r) coordinator \<Rightarrow> ((string \<times> bytes) list result \<times> ('s, 'r) coordinator) option" where
  "cd_load_tensors B X cfg env snap_id names = after_flush B X cfg env (core_load_tensors B X cfg snap_id names)"

definition cd_describe :: "'s backend \<Rightarrow> ext \<Rightarrow> 'r coordinator_config \<Rightarrow> ('s, 'r) save_env \<Rightarrow> uuid
    \<Rightarrow> ('s, 'r) coordinator \<Rightarrow> (snapshot_description result \<times> ('s, 'r) coordinator) option" where
  "cd_describe B X cfg env snap_id = when_idle B X cfg env (core_describe cfg snap_id)"

definition cd_describe_latest :: "'s backend \<Rightarrow> ext \<Rightarrow> 'r coordinator_config \<Rightarrow> ('s, 'r) save_env
    \<Rightarrow> ('s, 'r) coordinator \<Rightarrow> (snapshot_description result \<times> ('s, 'r) coordinator) option" where
  "cd_describe_latest B X cfg env = when_idle B X cfg env (core_describe_latest cfg)"

definition cd_list_snapshots :: "'s backend \<Rightarrow> ext \<Rightarrow> 'r coordinator_config \<Rightarrow> ('s, 'r) save_env
    \<Rightarrow> ('s, 'r) coordinator \<Rightarrow> (snapshot_info list \<times> ('s, 'r) coordinator) option" where
  "cd_list_snapshots B X cfg env = when_idle B X cfg env core_list_snapshots"

definition cd_merge_now :: "bool \<Rightarrow> bool \<Rightarrow> 's backend \<Rightarrow> ext \<Rightarrow> 'r coordinator_config \<Rightarrow> ('s, 'r) save_env \<Rightarrow> 's merge_env list
    \<Rightarrow> ('s, 'r) coordinator \<Rightarrow> (unit result \<times> ('s, 'r) coordinator) option" where
  "cd_merge_now alive answers B X cfg env envs = when_idle B X cfg env (core_merge_now alive answers B X cfg envs)"

definition cd_sync_now :: "bool \<Rightarrow> bool \<Rightarrow> 's backend \<Rightarrow> ext \<Rightarrow> 'r coordinator_config \<Rightarrow> ('s, 'r) save_env
    \<Rightarrow> ('s, 'r) coordinator \<Rightarrow> (unit result \<times> ('s, 'r) coordinator) option" where
  "cd_sync_now alive answers B X cfg env = when_idle B X cfg env (core_sync_now alive answers B cfg)"

definition cd_restore_from_remote :: "'s backend \<Rightarrow> ext \<Rightarrow> 'r coordinator_config \<Rightarrow> ('s, 'r) save_env
    \<Rightarrow> ('s, 'r) coordinator \<Rightarrow> (bool result \<times> ('s, 'r) coordinator) option" where
  "cd_restore_from_remote B X cfg env = when_idle B X cfg env (core_restore B X cfg)"

section \<open>Asynchronous saving refines synchronous saving\<close>

text \<open>What the jobs come to when each is carried out where it is submitted.\<close>

fun sync_jobs :: "'s backend \<Rightarrow> ext \<Rightarrow> 'r coordinator_config \<Rightarrow> ('s, 'r) save_env \<Rightarrow> save_job list \<Rightarrow> ('s, 'r) core
    \<Rightarrow> unit result \<times> ('s, 'r) core" where
  "sync_jobs B X cfg env [] c = (Inr (), c)"
| "sync_jobs B X cfg env (job # jobs) c =
     bind_io (save_sync_in_pool B X cfg env (sj_snap_id job) (sj_step job) (sj_tensors job) (sj_metadata job))
       (\<lambda>_. sync_jobs B X cfg env jobs) c"

text \<open>The calls of a training loop: save after save, and a flush; it stops at the first error.\<close>

fun save_all :: "'s backend \<Rightarrow> ext \<Rightarrow> 'r coordinator_config \<Rightarrow> ('s, 'r) save_env \<Rightarrow> save_job list \<Rightarrow> ('s, 'r) coordinator
    \<Rightarrow> (unit result \<times> ('s, 'r) coordinator) option" where
  "save_all B X cfg env [] cd = flush B X cfg env cd"
| "save_all B X cfg env (job # jobs) cd =
     (case save B X cfg env 0 (sj_snap_id job) (sj_step job) (sj_tensors job) (sj_metadata job) cd of
        None \<Rightarrow> None
      | Some (Inl e, cd') \<Rightarrow> Some (Inl e, cd')
      | Some (Inr _, cd') \<Rightarrow> save_all B X cfg env jobs cd')"

definition pending :: "save_job saver \<Rightarrow> save_job list \<Rightarrow> bool" where
  "pending sv jobs \<longleftrightarrow> slot_held sv \<and> sv_tx sv \<and> sv_error sv = None \<and> sv_queue sv = jobs"

lemma pending_new: "pending new_saver []"
  by (simp add: pending_def slot_held_def new_saver_def)

lemma sync_jobs_append:
  "sync_jobs B X cfg env (xs @ ys) c = bind_io (sync_jobs B X cfg env xs) (\<lambda>_. sync_jobs B X cfg env ys) c"
  by (induction xs arbitrary: c) (auto simp: bind_io_def split: prod.splits sum.splits)

text \<open>Waiting carries out what is pending, and keeps its error.\<close>

lemma wait_pending:
  assumes "pending sv jobs"
  obtains sv' q c' where "wait_idle (run_job B X cfg env) (sv, c) = Some (sv', c')" "sync_jobs B X cfg env jobs c = (q, c')"
    "slot_held sv'" "sv_tx sv'" "\<not> sv_busy sv'" "sv_queue sv' = []"
    "sv_error sv' = (case q of Inr _ \<Rightarrow> None | Inl e \<Rightarrow> Some (error_text e))"
proof (cases jobs)
  case Nil
  with assms have idle: "\<not> sv_busy sv" by (auto simp: pending_def slot_held_def split: if_splits)
  then have "wait_idle (run_job B X cfg env) (sv, c) = Some (sv, c)" by simp
  moreover have "sync_jobs B X cfg env jobs c = (Inr (), c)" using Nil by simp
  ultimately show thesis using that idle assms Nil by (auto simp: pending_def)
next
  case (Cons job rest)
  with assms have q: "sv_queue sv = [job]" "slot_held sv" "rest = []"
    by (auto simp: pending_def slot_held_def split: if_splits)
  obtain r c1 where s: "save_sync_in_pool B X cfg env (sj_snap_id job) (sj_step job) (sj_tensors job) (sj_metadata job) c = (r, c1)"
    by fastforce
  obtain out where out: "run_job B X cfg env job c = (out, c1)"
      "outcome_error out = (case r of Inr _ \<Rightarrow> None | Inl e \<Rightarrow> Some (error_text e))"
    using s by (cases r) (auto simp: run_job_def outcome_error_def)
  have "sync_jobs B X cfg env jobs c = (r, c1)" using s Cons q(3) by (cases r) (auto simp: bind_io_def)
  moreover have "wait_idle (run_job B X cfg env) (sv, c) = Some (finish_job out (take_job sv), c1)"
    by (rule wait_idle_busy) (use q(1,2) out(1) in simp_all)
  ultimately show thesis using that assms q out(2)
    by (auto simp: pending_def finish_job_def take_job_def slot_held_def split: option.splits)
qed

lemma save_all_async:
  assumes "pending sv jobs" and "cc_world_size cfg = 1"
  shows "\<exists>r cd'. save_all B X cfg env todo \<lparr>cd_saver = Some sv, cd_core = c\<rparr> = Some (r, cd')
    \<and> (is_ok r \<longrightarrow> sync_jobs B X cfg env (jobs @ todo) c = (Inr (), cd_core cd'))
    \<and> (\<forall>c'. sync_jobs B X cfg env (jobs @ todo) c = (Inr (), c') \<longrightarrow> cd_core cd' = c' \<and> r = check_background_threads c')"
  using assms(1)
proof (induction todo arbitrary: sv jobs c)
  case Nil
  obtain sv' q c' where w: "wait_idle (run_job B X cfg env) (sv, c) = Some (sv', c')" "sync_jobs B X cfg env jobs c = (q, c')"
      "sv_error sv' = (case q of Inr _ \<Rightarrow> None | Inl e \<Rightarrow> Some (error_text e))"
    using wait_pending [OF Nil] by metis
  show ?case
    using w by (cases q) (auto simp: flush_def saver_flush_def flush_idle_def)
next
  case (Cons job todo)
  obtain sv' q c' where w: "wait_idle (run_job B X cfg env) (sv, c) = Some (sv', c')" "sync_jobs B X cfg env jobs c = (q, c')"
      "slot_held sv'" "sv_tx sv'" "\<not> sv_busy sv'" "sv_queue sv' = []"
      "sv_error sv' = (case q of Inr _ \<Rightarrow> None | Inl e \<Rightarrow> Some (error_text e))"
    using wait_pending [OF Cons.prems] by metis
  have tx: "sv_tx sv" using Cons.prems by (simp add: pending_def)
  show ?case
  proof (cases q)
    case (Inl e)
    then show ?thesis using w tx assms(2)
      by (simp add: save_def submit_def claim_slot_def Let_def sync_jobs_append bind_io_def del: sync_jobs.simps)
  next
    case (Inr u)
    let ?sv = "sv'\<lparr>sv_last_wait := 0, sv_busy := True, sv_queue := [job]\<rparr>"
    have job: "\<lparr>sj_snap_id = sj_snap_id job, sj_step = sj_step job, sj_tensors = sj_tensors job, sj_metadata = sj_metadata job\<rparr> = job"
      by simp
    have p: "pending ?sv [job]" using w Inr by (auto simp: pending_def slot_held_def)
    have rec: "sv_receiver sv'" using w(3,4) by (simp add: slot_held_def)
    have "save B X cfg env 0 (sj_snap_id job) (sj_step job) (sj_tensors job) (sj_metadata job) \<lparr>cd_saver = Some sv, cd_core = c\<rparr>
        = Some (Inr (sj_snap_id job), \<lparr>cd_saver = Some ?sv, cd_core = c'\<rparr>)"
      using w Inr tx rec assms(2) by (simp add: save_def submit_def claim_slot_def send_job_def Let_def job)
    then have "save_all B X cfg env (job # todo) \<lparr>cd_saver = Some sv, cd_core = c\<rparr>
        = save_all B X cfg env todo \<lparr>cd_saver = Some ?sv, cd_core = c'\<rparr>"
      by simp
    moreover have "sync_jobs B X cfg env (jobs @ job # todo) c = sync_jobs B X cfg env ([job] @ todo) c'"
      using w(2) Inr by (simp add: sync_jobs_append bind_io_def del: sync_jobs.simps)
    ultimately show ?thesis using Cons.IH [OF p, of c'] by (simp del: sync_jobs.simps)
  qed
qed

text \<open>
  C2. Asynchronous saving is synchronous saving: a training loop that hands its saves to the
  background thread and then flushes always gets an answer. When that is a success, the coordinator
  is exactly as if every save had been carried out on the spot and had succeeded; and when they
  all would have succeeded, it is that state it ends in, and only a dead background thread can make
  the flush complain.
\<close>

theorem async_refines_sync:
  assumes "cc_world_size cfg = 1" and "cc_async_save cfg"
  shows "\<exists>r cd'. save_all B X cfg env jobs (new_coordinator cfg c) = Some (r, cd')
    \<and> (is_ok r \<longrightarrow> sync_jobs B X cfg env jobs c = (Inr (), cd_core cd'))
    \<and> (\<forall>c'. sync_jobs B X cfg env jobs c = (Inr (), c') \<longrightarrow> cd_core cd' = c' \<and> r = check_background_threads c')"
  using save_all_async [OF pending_new assms(1), of B X env jobs c] assms by (simp add: new_coordinator_def)

theorem async_refines_sync_witness:
  "\<exists>r cd'. save_all (local_backend False 0) codec_ext run_config quiet_env
     [\<lparr>sj_snap_id = 1, sj_step = 1, sj_tensors = run_ts1, sj_metadata = []\<rparr>] (new_coordinator run_config first_core) = Some (r, cd')"
  using async_refines_sync [of run_config "local_backend False 0" codec_ext quiet_env
      "[\<lparr>sj_snap_id = 1, sj_step = 1, sj_tensors = run_ts1, sj_metadata = []\<rparr>]" first_core]
  by (auto simp: run_config_def default_config_def)

end
