(* ===== verification/S3Text.thy ===== *)
theory S3Text
  imports RemoteSync "HOL-Library.List_Lexorder" "HOL-Library.Product_Lexorder" "HOL-Library.Char_ord"
begin

text \<open>
  The parts of \<^verbatim>\<open>src/src/s3.rs\<close> that only handle text: the configuration and where its keys come
  from, the little XML of the answers, percent-encoding, and the layout of a multipart upload. A
  string is the list of its bytes.
\<close>

section \<open>Searching text\<close>

text \<open>\<^verbatim>\<open>str::find\<close> with the two slices around what it found.\<close>

fun cut_at :: "string \<Rightarrow> string \<Rightarrow> (string \<times> string) option" where
  "cut_at pat [] = (if pat = [] then Some ([], []) else None)"
| "cut_at pat (c # cs) =
     (if Sublist.prefix pat (c # cs) then Some ([], drop (length pat) (c # cs))
      else map_option (\<lambda>(a, b). (c # a, b)) (cut_at pat cs))"

lemma cut_at_length: "cut_at pat s = Some (a, b) \<Longrightarrow> length s = length a + length pat + length b"
  by (induction pat s arbitrary: a rule: cut_at.induct) (auto split: if_splits dest: prefix_length_le)

definition contains_text :: "string \<Rightarrow> string \<Rightarrow> bool" where
  "contains_text s pat \<longleftrightarrow> cut_at pat s \<noteq> None"

text \<open>\<^verbatim>\<open>str::split\<close> and \<^verbatim>\<open>str::replace\<close>, for a pattern that is not empty.\<close>

function split_on :: "string \<Rightarrow> string \<Rightarrow> string list" where
  "split_on pat s =
     (case cut_at pat s of
        None \<Rightarrow> [s]
      | Some (a, b) \<Rightarrow> if pat = [] then [s] else a # split_on pat b)"
  by pat_completeness auto
termination
  by (relation "measure (\<lambda>(pat, s). length s)") (auto dest: cut_at_length)

declare split_on.simps [simp del]

function replace_all :: "string \<Rightarrow> string \<Rightarrow> string \<Rightarrow> string" where
  "replace_all pat rep [] = []"
| "replace_all pat rep (c # cs) =
     (if pat \<noteq> [] \<and> Sublist.prefix pat (c # cs) then rep @ replace_all pat rep (drop (length pat - 1) cs)
      else c # replace_all pat rep cs)"
  by pat_completeness auto
termination
  by (relation "measure (\<lambda>(pat, rep, s). length s)") auto

text \<open>\<^verbatim>\<open>str::parse\<close> of an unsigned integer of so many bits.\<close>

definition is_digit :: "char \<Rightarrow> bool" where
  "is_digit c \<longleftrightarrow> 48 \<le> (of_char c :: nat) \<and> (of_char c :: nat) \<le> 57"

definition parse_uint :: "nat \<Rightarrow> string \<Rightarrow> nat option" where
  "parse_uint bits s =
     (let digits = (case s of [] \<Rightarrow> [] | c # cs \<Rightarrow> if c = CHR ''+'' \<and> cs \<noteq> [] then cs else s);
          n = foldl (\<lambda>a c. 10 * a + (of_char c - 48)) 0 digits
      in if digits \<noteq> [] \<and> list_all is_digit digits \<and> n < 2 ^ bits then Some n else None)"

section \<open>The XML of the answers\<close>

definition unescape_xml :: "string \<Rightarrow> string" where
  "unescape_xml s =
     replace_all ''&amp;'' ''&'' (replace_all ''&apos;'' [CHR 0x27] (replace_all ''&quot;'' [CHR 0x22]
       (replace_all ''&gt;'' ''>'' (replace_all ''&lt;'' ''<'' s))))"

function extract_xml_values :: "string \<Rightarrow> string \<Rightarrow> string list" where
  "extract_xml_values xml tag =
     (case cut_at (''<'' @ tag @ ''>'') xml of
        None \<Rightarrow> []
      | Some (before, rest) \<Rightarrow>
          (case cut_at (''</'' @ tag @ ''>'') rest of
             None \<Rightarrow> []
           | Some (v, rest') \<Rightarrow> unescape_xml v # extract_xml_values rest' tag))"
  by pat_completeness auto
termination
  by (relation "measure (\<lambda>(xml, tag). length xml)") (auto dest!: cut_at_length)

declare extract_xml_values.simps [simp del]

definition extract_xml_value :: "string \<Rightarrow> string \<Rightarrow> string option" where
  "extract_xml_value xml tag = (case extract_xml_values xml tag of [] \<Rightarrow> None | v # _ \<Rightarrow> Some v)"

definition element_text :: "string \<Rightarrow> string \<Rightarrow> string" where
  "element_text close chunk = hd (split_on close chunk)"

definition listed_objects :: "string \<Rightarrow> (string \<times> nat option) list" where
  "listed_objects xml =
     List.map_filter (\<lambda>chunk.
       let element = element_text ''</Contents>'' chunk in
       map_option (\<lambda>key. (key, Option.bind (extract_xml_value element ''Size'') (\<lambda>s. parse_uint 64 (trim_text s))))
         (extract_xml_value element ''Key''))
       (tl (split_on ''<Contents>'' xml))"

definition listed_uploads :: "string \<Rightarrow> (string \<times> string) list" where
  "listed_uploads xml =
     List.map_filter (\<lambda>chunk.
       let entry = element_text ''</Upload>'' chunk in
       case (extract_xml_value entry ''Key'', extract_xml_value entry ''UploadId'') of
         (Some key, Some upload_id) \<Rightarrow> Some (key, upload_id)
       | _ \<Rightarrow> None)
       (tl (split_on ''<Upload>'' xml))"

section \<open>Configuration\<close>

record s3_config =
  s3_bucket :: string
  s3_prefix :: string
  s3_region :: string
  s3_endpoint :: "string option"
  s3_access_key :: string
  s3_secret_key :: string
  s3_session_token :: "string option"
  s3_path_style :: bool
  s3_timeout_secs :: nat
  s3_single_put_limit :: nat

definition with_auto_path_style :: "s3_config \<Rightarrow> s3_config" where
  "with_auto_path_style cfg = (if s3_endpoint cfg \<noteq> None then cfg\<lparr>s3_path_style := True\<rparr> else cfg)"

definition with_single_put_limit :: "nat \<Rightarrow> s3_config \<Rightarrow> s3_config" where
  "with_single_put_limit n cfg = cfg\<lparr>s3_single_put_limit := n\<rparr>"

definition trim_slashes :: "string \<Rightarrow> string" where
  "trim_slashes s = rev (dropWhile (\<lambda>c. c = CHR ''/'') (rev (dropWhile (\<lambda>c. c = CHR ''/'') s)))"

definition normalized_prefix :: "s3_config \<Rightarrow> string" where
  "normalized_prefix cfg = (let p = trim_slashes (s3_prefix cfg) in if p = [] then [] else p @ ''/'')"

definition object_key :: "s3_config \<Rightarrow> string \<Rightarrow> string" where
  "object_key cfg rel_path = normalized_prefix cfg @ rel_path"

definition strip_base :: "string \<Rightarrow> string \<Rightarrow> string" where
  "strip_base base key = (if Sublist.prefix base key then drop (length base) key else key)"

section \<open>Credentials\<close>

record s3_credentials =
  sc_access_key :: string
  sc_secret_key :: string
  sc_session_token :: "string option"

definition credential_sources :: "(string \<times> string \<times> string) list" where
  "credential_sources =
     [(''MOONCLIP_S3_ACCESS_KEY'', ''MOONCLIP_S3_SECRET_KEY'', ''MOONCLIP_S3_SESSION_TOKEN''),
      (''AWS_ACCESS_KEY_ID'', ''AWS_SECRET_ACCESS_KEY'', ''AWS_SESSION_TOKEN'')]"

definition given :: "string option \<Rightarrow> string option" where
  "given v = Option.bind v (\<lambda>s. if s = [] then None else Some s)"

fun from_sources :: "(string \<Rightarrow> string option) \<Rightarrow> string option \<Rightarrow> (string \<times> string \<times> string) list \<Rightarrow> s3_credentials option" where
  "from_sources var session [] = None"
| "from_sources var session ((access, secret, token) # rest) =
     (case (given (var access), given (var secret)) of
        (Some a, Some s) \<Rightarrow>
          Some \<lparr>sc_access_key = a, sc_secret_key = s,
                sc_session_token = (case given session of Some t \<Rightarrow> Some t | None \<Rightarrow> given (var token))\<rparr>
      | _ \<Rightarrow> from_sources var session rest)"

definition resolve_with :: "string option \<Rightarrow> string option \<Rightarrow> string option \<Rightarrow> (string \<Rightarrow> string option)
    \<Rightarrow> s3_credentials result" where
  "resolve_with access secret session var =
     (case (given access, given secret) of
        (Some a, Some s) \<Rightarrow> Inr \<lparr>sc_access_key = a, sc_secret_key = s, sc_session_token = given session\<rparr>
      | (None, None) \<Rightarrow>
          ok_or (from_sources var session credential_sources)
            (ConfigErr ''a bucket needs keys and none were found'')
      | _ \<Rightarrow> Inl (ConfigErr ''an access key and a secret key go together''))"

section \<open>Percent-encoding and hexadecimal\<close>

definition unreserved :: "char \<Rightarrow> bool" where
  "unreserved c \<longleftrightarrow> (let n = (of_char c :: nat) in (48 \<le> n \<and> n \<le> 57) \<or> (65 \<le> n \<and> n \<le> 90) \<or> (97 \<le> n \<and> n \<le> 122))
     \<or> c \<in> set ''-_.~''"

definition upper_hex_digit :: "nat \<Rightarrow> char" where
  "upper_hex_digit d = ''0123456789ABCDEF'' ! d"

definition aws_encode_char :: "char \<Rightarrow> string" where
  "aws_encode_char c =
     (if unreserved c then [c]
      else [CHR ''%'', upper_hex_digit (of_char c div 16), upper_hex_digit (of_char c mod 16)])"

definition aws_encode :: "string \<Rightarrow> string" where
  "aws_encode s = concat (map aws_encode_char s)"

definition hex_text :: "bytes \<Rightarrow> string" where
  "hex_text bs = concat (map (\<lambda>b. [hex_digit (unat b div 16), hex_digit (unat b mod 16)]) bs)"

section \<open>The layout of a large upload\<close>

definition default_single_put_limit :: nat where
  "default_single_put_limit = 4 * 1024 * 1024 * 1024"

definition min_part_size :: nat where
  "min_part_size = 16 * 1024 * 1024"

definition max_parts :: nat where
  "max_parts = 10000"

definition part_size_for :: "nat \<Rightarrow> nat" where
  "part_size_for n = max min_part_size ((n + (max_parts - 16) - 1) div (max_parts - 16))"

section \<open>Numbers read back\<close>

lemma is_digit_dec [simp]: "d < 10 \<Longrightarrow> is_digit (dec_digit d)"
  by (simp add: is_digit_def dec_digit_value)

lemma nat_str_digits: "nat_str n \<noteq> [] \<and> list_all is_digit (nat_str n)"
proof (induction n rule: nat_str.induct)
  case (1 n)
  then show ?case by (subst (1 2) nat_str.simps) (auto simp: list_all_append)
qed

lemma parse_nat_str: "n < 2 ^ bits \<Longrightarrow> parse_uint bits (nat_str n) = Some n"
proof -
  assume n: "n < 2 ^ bits"
  obtain c cs where s: "nat_str n = c # cs" and d: "list_all is_digit (c # cs)"
    using nat_str_digits [of n] by (cases "nat_str n") auto
  have "c \<noteq> CHR ''+''" using d by (auto simp: is_digit_def)
  then show ?thesis using n d nat_str_value [of n] s by (simp add: parse_uint_def Let_def)
qed

lemma digit_chars: "is_digit c \<Longrightarrow> c \<noteq> CHR ''<'' \<and> \<not> is_space c \<and> c \<noteq> CHR '':'' \<and> c \<noteq> CHR ''&''"
  by (auto simp: is_digit_def is_space_def)

lemma trim_text_digits: "list_all is_digit s \<Longrightarrow> trim_text s = s"
proof -
  assume d: "list_all is_digit s"
  have *: "dropWhile is_space t = t" if "list_all is_digit t" for t
    using that digit_chars by (cases t) auto
  show ?thesis using d by (simp add: trim_text_def * list.pred_set)
qed

section \<open>Searching for a tag\<close>

text \<open>Every pattern starts with a character it has nowhere else: nothing it is looked for in can hide half of it.\<close>

lemma cut_at_skip: "h \<notin> set a \<Longrightarrow> cut_at (h # t) (a @ s) = map_option (\<lambda>(x, y). (a @ x, y)) (cut_at (h # t) s)"
  by (induction a) (auto simp: option.map_comp comp_def split_def option.map_ident)

lemma cut_at_here [simp]: "pat \<noteq> [] \<Longrightarrow> cut_at pat (pat @ s) = Some ([], s)"
  by (cases pat) auto

lemma cut_at_boundary:
  assumes "h \<notin> set t" and "cut_at (h # t) a = None"
  shows "cut_at (h # t) (a @ h # r) = map_option (\<lambda>(x, y). (a @ x, y)) (cut_at (h # t) (h # r))"
  using assms(2)
proof (induction a)
  case Nil
  then show ?case by (simp add: option.map_ident split_def)
next
  case (Cons c a)
  have "\<not> (c = h \<and> Sublist.prefix t (a @ h # r))"
  proof
    assume p: "c = h \<and> Sublist.prefix t (a @ h # r)"
    have "Sublist.prefix t a"
    proof (cases "length t \<le> length a")
      case True
      with p show ?thesis by (metis prefix_append prefix_length_prefix prefix_order.refl)
    next
      case False
      with p have "Sublist.prefix (a @ [h]) t"
        by (metis append.assoc append_Cons append_Nil length_append_singleton not_less_eq_eq prefixI prefix_length_prefix)
      then have "h \<in> set t" by (auto simp: Sublist.prefix_def)
      with assms(1) show ?thesis by simp
    qed
    with p Cons.prems show False by simp
  qed
  with Cons show ?case by (auto simp: option.map_comp comp_def split_def split: if_splits)
qed

lemma cut_at_None_boundary:
  "h \<notin> set t \<Longrightarrow> cut_at (h # t) a = None \<Longrightarrow> cut_at (h # t) (h # r) = None \<Longrightarrow> cut_at (h # t) (a @ h # r) = None"
  by (simp add: cut_at_boundary)

lemma cut_at_None_skip: "h \<notin> set a \<Longrightarrow> cut_at (h # t) a = None"
  using cut_at_skip [of h a t "[]"] by simp

section \<open>Escaping\<close>

text \<open>What S3 does to a key in its answers.\<close>

definition xml_char :: "char \<Rightarrow> string" where
  "xml_char c = (if c = CHR ''&'' then ''&amp;'' else if c = CHR ''<'' then ''&lt;'' else if c = CHR ''>'' then ''&gt;''
     else if c = CHR 0x22 then ''&quot;'' else if c = CHR 0x27 then ''&apos;'' else [c])"

definition xml_escape :: "string \<Rightarrow> string" where
  "xml_escape s = concat (map xml_char s)"

text \<open>Text made of single characters and of entities, none of which is part of another.\<close>

definition entity :: "string \<Rightarrow> bool" where
  "entity w \<longleftrightarrow> (\<exists>name. w = CHR ''&'' # name @ '';'' \<and> CHR ''&'' \<notin> set name \<and> CHR '';'' \<notin> set name)"

definition xml_token :: "string \<Rightarrow> bool" where
  "xml_token w \<longleftrightarrow> entity w \<or> (\<exists>c. c \<noteq> CHR ''&'' \<and> w = [c])"

lemma replace_all_skip:
  "CHR ''&'' \<notin> set w \<Longrightarrow> replace_all (CHR ''&'' # p) rep (w @ t) = w @ replace_all (CHR ''&'' # p) rep t"
  by (induction w) auto

lemma entity_prefix:
  assumes "entity p" and "entity w"
  shows "Sublist.prefix p (w @ t) \<longleftrightarrow> p = w"
proof
  obtain m n where p: "p = CHR ''&'' # m @ '';''" "CHR '';'' \<notin> set m" and w: "w = CHR ''&'' # n @ '';''" "CHR '';'' \<notin> set n"
    using assms by (auto simp: entity_def)
  have upto: "takeWhile (\<lambda>c. c \<noteq> CHR '';'') (x @ '';'' @ y) = x" if "CHR '';'' \<notin> set x" for x y
    using that by (induction x) auto
  assume "Sublist.prefix p (w @ t)"
  then obtain r where "m @ '';'' @ r = n @ '';'' @ t" using p(1) w(1) by (auto simp: Sublist.prefix_def)
  then have "m = n" using upto [OF p(2)] upto [OF w(2)] by metis
  then show "p = w" using p(1) w(1) by simp
qed simp

lemma replace_all_token:
  assumes "entity p" and "xml_token w"
  shows "replace_all p rep (w @ t) = (if w = p then rep else w) @ replace_all p rep t"
proof -
  obtain m where p: "p = CHR ''&'' # m @ '';''" using assms(1) by (auto simp: entity_def)
  from assms(2) show ?thesis unfolding xml_token_def
  proof
    assume w: "entity w"
    then obtain n where n: "w = CHR ''&'' # n @ '';''" "CHR ''&'' \<notin> set n" by (auto simp: entity_def)
    show ?thesis
    proof (cases "w = p")
      case True
      then show ?thesis by (simp add: p)
    next
      case False
      then have "\<not> Sublist.prefix p (w @ t)" using entity_prefix [OF assms(1) w] by simp
      then have "replace_all p rep (w @ t) = CHR ''&'' # replace_all p rep ((n @ '';'') @ t)" using n(1) p by simp
      also have "\<dots> = CHR ''&'' # (n @ '';'') @ replace_all p rep t"
        unfolding p using n(2) by (subst replace_all_skip) auto
      finally show ?thesis using False n(1) by simp
    qed
  next
    assume "\<exists>c. c \<noteq> CHR ''&'' \<and> w = [c]"
    then show ?thesis by (auto simp: p)
  qed
qed

lemma replace_all_tokens:
  assumes "entity p" and "\<And>c. xml_token (e c)"
  shows "replace_all p rep (concat (map e s)) = concat (map (\<lambda>c. if e c = p then rep else e c) s)"
  by (induction s) (simp_all add: replace_all_token [OF assms])

lemma entities [simp]:
  "entity ''&amp;''" "entity ''&lt;''" "entity ''&gt;''" "entity ''&quot;''" "entity ''&apos;''"
proof -
  have "entity (CHR ''&'' # name @ '';'')" if "CHR ''&'' \<notin> set name" "CHR '';'' \<notin> set name" for name
    using that by (auto simp: entity_def)
  from this [of "''amp''"] this [of "''lt''"] this [of "''gt''"] this [of "''quot''"] this [of "''apos''"]
  show "entity ''&amp;''" "entity ''&lt;''" "entity ''&gt;''" "entity ''&quot;''" "entity ''&apos;''" by simp_all
qed

text \<open>
  Keys survive the listing's escaping: whatever characters a key has, undoing what S3 does to
  it gives the key back - the ampersand last, so that nothing is expanded twice.
\<close>

lemma unescape_escape [simp]: "unescape_xml (xml_escape s) = s"
proof -
  let ?e1 = "\<lambda>c. if xml_char c = ''&lt;'' then ''<'' else xml_char c"
  let ?e2 = "\<lambda>c. if ?e1 c = ''&gt;'' then ''>'' else ?e1 c"
  let ?e3 = "\<lambda>c. if ?e2 c = ''&quot;'' then [CHR 0x22] else ?e2 c"
  let ?e4 = "\<lambda>c. if ?e3 c = ''&apos;'' then [CHR 0x27] else ?e3 c"
  let ?e5 = "\<lambda>c. if ?e4 c = ''&amp;'' then ''&'' else ?e4 c"
  have t0: "xml_token (xml_char c)" for c by (auto simp: xml_token_def xml_char_def)
  have t1: "xml_token (?e1 c)" for c using t0 [of c] by (auto simp: xml_token_def)
  have t2: "xml_token (?e2 c)" for c using t1 [of c] by (auto simp: xml_token_def)
  have t3: "xml_token (?e3 c)" for c using t2 [of c] by (auto simp: xml_token_def)
  have t4: "xml_token (?e4 c)" for c using t3 [of c] by (auto simp: xml_token_def)
  have "?e5 c = [c]" for c by (simp add: xml_char_def)
  then have "concat (map ?e5 s) = s" by (simp only: concat_map_singleton list.map_ident)
  then show ?thesis
    unfolding unescape_xml_def xml_escape_def
    by (simp only: replace_all_tokens [OF entities(2) t0] replace_all_tokens [OF entities(3) t1]
        replace_all_tokens [OF entities(4) t2] replace_all_tokens [OF entities(5) t3] replace_all_tokens [OF entities(1) t4])
qed

section \<open>A page of a listing\<close>

text \<open>An element, and a page as S3 documents it: the objects, and a token when there are more.\<close>

definition element_xml :: "string \<Rightarrow> string \<Rightarrow> string" where
  "element_xml tag v = ''<'' @ tag @ ''>'' @ xml_escape v @ ''</'' @ tag @ ''>''"

fun object_xml :: "string \<times> nat option \<times> string \<Rightarrow> string" where
  "object_xml (key, n, modified) = element_xml ''Key'' key @ element_xml ''LastModified'' modified
     @ (case n of None \<Rightarrow> [] | Some k \<Rightarrow> element_xml ''Size'' (nat_str k)) @ ''</Contents>''"

definition objects_xml :: "(string \<times> nat option \<times> string) list \<Rightarrow> string" where
  "objects_xml objs = concat (map (\<lambda>ob. ''<Contents>'' @ object_xml ob) objs)"

definition end_xml :: "string option \<Rightarrow> string" where
  "end_xml token = (case token of
       None \<Rightarrow> ''<IsTruncated>false</IsTruncated></ListBucketResult>''
     | Some t \<Rightarrow> ''<IsTruncated>true</IsTruncated>'' @ element_xml ''NextContinuationToken'' t @ ''</ListBucketResult>'')"

definition page_xml :: "(string \<times> nat option \<times> string) list \<Rightarrow> string option \<Rightarrow> string" where
  "page_xml objs token = ''<ListBucketResult>'' @ objects_xml objs @ end_xml token"

lemma escape_no_tag [simp]: "CHR ''<'' \<notin> set (xml_escape s)"
  by (auto simp: xml_escape_def xml_char_def split: if_splits)

lemma escape_digits: "list_all is_digit s \<Longrightarrow> xml_escape s = s"
proof -
  assume "list_all is_digit s"
  then have "map xml_char s = map (\<lambda>c. [c]) s" by (intro map_cong) (auto simp: list.pred_set is_digit_def xml_char_def)
  then have "xml_escape s = concat (map (\<lambda>c. [c]) s)" unfolding xml_escape_def by (rule arg_cong)
  then show ?thesis by simp
qed

text \<open>Looking for a tag steps over text without one, over other tags and over whole elements.\<close>

definition tag_name :: "string \<Rightarrow> bool" where
  "tag_name t \<longleftrightarrow> CHR ''<'' \<notin> set t \<and> CHR ''>'' \<notin> set t"

abbreviation find_tag :: "string \<Rightarrow> string \<Rightarrow> (string \<times> string) option" where
  "find_tag t s \<equiv> cut_at (''<'' @ t @ ''>'') s"

definition shift :: "string \<Rightarrow> (string \<times> string) option \<Rightarrow> (string \<times> string) option" where
  "shift a = map_option (\<lambda>(x, y). (a @ x, y))"

lemma shift_simps [simp]: "shift a None = None" "shift a (Some (x, y)) = Some (a @ x, y)" "shift a (shift b r) = shift (a @ b) r"
  "shift a r = None \<longleftrightarrow> r = None" "shift [] r = r"
  by (auto simp: shift_def option.map_comp comp_def split_def option.map_ident)

lemma tag_prefix:
  assumes "tag_name a" and "tag_name b"
  shows "Sublist.prefix (a @ ''>'') (b @ CHR ''>'' # r) \<longleftrightarrow> a = b"
proof
  have upto: "takeWhile (\<lambda>c. c \<noteq> CHR ''>'') (x @ CHR ''>'' # y) = x" if "tag_name x" for x y
    using that by (induction x) (auto simp: tag_name_def)
  assume "Sublist.prefix (a @ ''>'') (b @ CHR ''>'' # r)"
  then obtain r' where "a @ CHR ''>'' # r' = b @ CHR ''>'' # r" by (auto simp: Sublist.prefix_def)
  then show "a = b" using upto assms by metis
qed (simp add: Sublist.prefix_def)

lemma over_plain: "CHR ''<'' \<notin> set a \<Longrightarrow> find_tag t (a @ s) = shift a (find_tag t s)"
  using cut_at_skip [of "CHR ''<''" a] by (simp add: shift_def)

lemma over_tag:
  assumes "tag_name t" and "tag_name u" and "t \<noteq> u"
  shows "find_tag t (''<'' @ u @ ''>'' @ s) = shift (''<'' @ u @ ''>'') (find_tag t s)"
proof -
  have "\<not> Sublist.prefix (t @ ''>'') (u @ CHR ''>'' # s)" using tag_prefix assms by simp
  moreover have "CHR ''<'' \<notin> set (u @ ''>'')" using assms(2) by (simp add: tag_name_def)
  then have "find_tag t ((u @ ''>'') @ s) = shift (u @ ''>'') (find_tag t s)" by (rule over_plain)
  ultimately show ?thesis by (auto simp: shift_def option.map_comp comp_def split_def)
qed

lemma at_tag [simp]: "find_tag t (''<'' @ t @ ''>'' @ s) = Some ([], s)"
  using cut_at_here [of "''<'' @ t @ ''>''" s] by simp

lemma over_element:
  assumes "tag_name t" and "tag_name u" and "t \<noteq> u" and "t \<noteq> CHR ''/'' # u"
  shows "find_tag t (element_xml u v @ s) = shift (element_xml u v) (find_tag t s)"
proof -
  have u: "tag_name (CHR ''/'' # u)" using assms(2) by (simp add: tag_name_def)
  have "find_tag t (element_xml u v @ s) = find_tag t (''<'' @ u @ ''>'' @ xml_escape v @ ''<'' @ (CHR ''/'' # u) @ ''>'' @ s)"
    by (simp add: element_xml_def)
  also have "\<dots> = shift (''<'' @ u @ ''>'' @ xml_escape v @ ''<'' @ (CHR ''/'' # u) @ ''>'') (find_tag t s)"
    by (simp only: over_tag [OF assms(1-3)] over_tag [OF assms(1) u assms(4)] over_plain [OF escape_no_tag] shift_simps append.assoc)
  finally show ?thesis by (simp add: element_xml_def)
qed

lemma read_element:
  assumes "tag_name u"
  shows "extract_xml_value (element_xml u v @ s) u = Some v"
proof -
  have u: "tag_name (CHR ''/'' # u)" using assms by (simp add: tag_name_def)
  have "find_tag u (element_xml u v @ s) = Some ([], xml_escape v @ ''</'' @ u @ ''>'' @ s)"
    unfolding element_xml_def by (simp only: append.assoc at_tag)
  moreover have "cut_at (''</'' @ u @ ''>'') (xml_escape v @ ''</'' @ u @ ''>'' @ s) = Some (xml_escape v, s)"
    using over_plain [OF escape_no_tag, of "CHR ''/'' # u" v "''</'' @ u @ ''>'' @ s"] at_tag [of "CHR ''/'' # u" s]
    by (simp del: at_tag)
  ultimately show ?thesis by (simp add: extract_xml_value_def extract_xml_values.simps [of _ u])
qed

lemma read_past:
  assumes "\<And>s. find_tag u (a @ s) = shift a (find_tag u s)"
  shows "extract_xml_value (a @ s) u = extract_xml_value s u"
proof (cases "find_tag u s")
  case None
  then show ?thesis
    using assms [of s] by (subst (1 2) extract_xml_value_def, subst (1 2) extract_xml_values.simps) simp
next
  case (Some xy)
  then show ?thesis
    using assms [of s] by (cases xy, subst (1 2) extract_xml_value_def, subst (1 2) extract_xml_values.simps) (simp split: option.splits)
qed

lemma listing_tags [simp]:
  "tag_name ''Contents''" "tag_name ''/Contents''" "tag_name ''Key''" "tag_name ''LastModified''" "tag_name ''Size''"
  "tag_name ''IsTruncated''" "tag_name ''/IsTruncated''" "tag_name ''NextContinuationToken''" "tag_name ''ListBucketResult''"
  "tag_name ''/ListBucketResult''"
  by (simp_all add: tag_name_def)

lemma over_object:
  assumes "tag_name t" and "t \<notin> {''Key'', ''/Key'', ''LastModified'', ''/LastModified'', ''Size'', ''/Size'', ''/Contents''}"
  shows "find_tag t (object_xml ob @ s) = shift (object_xml ob) (find_tag t s)"
proof -
  obtain key n modified where ob: "ob = (key, n, modified)" by (cases ob)
  have close: "find_tag t (''</Contents>'' @ s) = shift ''</Contents>'' (find_tag t s)"
    using over_tag [of t "''/Contents''" s] assms by simp
  have key: "find_tag t (element_xml ''Key'' key @ r) = shift (element_xml ''Key'' key) (find_tag t r)" for r
    using over_element [of t "''Key''"] assms by simp
  have modified: "find_tag t (element_xml ''LastModified'' modified @ r) = shift (element_xml ''LastModified'' modified) (find_tag t r)" for r
    using over_element [of t "''LastModified''"] assms by simp
  have n: "find_tag t (element_xml ''Size'' v @ r) = shift (element_xml ''Size'' v) (find_tag t r)" for v r
    using over_element [of t "''Size''"] assms by simp
  show ?thesis unfolding ob object_xml.simps
    by (cases n) (simp_all only: option.case append.assoc append_Nil key modified n close shift_simps)
qed

text \<open>What one object's text is read as.\<close>

definition read_object :: "string \<Rightarrow> (string \<times> nat option) option" where
  "read_object chunk =
     (let element = element_text ''</Contents>'' chunk in
      map_option (\<lambda>key. (key, Option.bind (extract_xml_value element ''Size'') (\<lambda>s. parse_uint 64 (trim_text s))))
        (extract_xml_value element ''Key''))"

lemma read_object_xml:
  assumes "\<And>k. n = Some k \<Longrightarrow> k < 2 ^ 64"
  shows "read_object (object_xml (key, n, modified) @ r) = Some (key, n)"
proof -
  let ?size = "case n of None \<Rightarrow> [] | Some k \<Rightarrow> element_xml ''Size'' (nat_str k)"
  let ?el = "element_xml ''Key'' key @ element_xml ''LastModified'' modified @ ?size"
  have key: "find_tag t (element_xml ''Key'' key @ s) = shift (element_xml ''Key'' key) (find_tag t s)"
      "find_tag t (element_xml ''LastModified'' modified @ s) = shift (element_xml ''LastModified'' modified) (find_tag t s)"
    if "t = ''/Contents'' \<or> t = ''Size''" for t s
    using that over_element [of t "''Key''"] over_element [of t "''LastModified''"] by auto
  note close = key [of "''/Contents''", simplified] and sized = key [of "''Size''", simplified]
  have size: "find_tag ''/Contents'' (?size @ s) = shift ?size (find_tag ''/Contents'' s)" for s
    using over_element [of "''/Contents''" "''Size''"] by (cases n) auto
  have "find_tag ''/Contents'' (?el @ ''</Contents>'' @ r) = Some (?el, r)"
    using at_tag [of "''/Contents''" r] by (simp del: at_tag add: close size [simplified])
  then have el: "element_text ''</Contents>'' (object_xml (key, n, modified) @ r) = ?el"
    by (simp add: element_text_def split_on.simps [of "''</Contents>''"])
  have k: "extract_xml_value ?el ''Key'' = Some key" by (simp add: read_element)
  have past: "extract_xml_value ?el ''Size'' = extract_xml_value ?size ''Size''"
    using read_past [of "''Size''" "element_xml ''Key'' key @ element_xml ''LastModified'' modified" ?size]
    by (simp add: sized)
  show ?thesis
  proof (cases n)
    case None
    have "extract_xml_value [] ''Size'' = None" by (simp add: extract_xml_value_def extract_xml_values.simps)
    with None past k el show ?thesis by (simp add: read_object_def)
  next
    case (Some i)
    have "extract_xml_value (element_xml ''Size'' (nat_str i)) ''Size'' = Some (nat_str i)"
      using read_element [of "''Size''" "nat_str i" "[]"] by simp
    moreover have "trim_text (nat_str i) = nat_str i" using nat_str_digits trim_text_digits by blast
    ultimately show ?thesis using Some past k el assms [of i] by (simp add: read_object_def parse_nat_str)
  qed
qed

lemma split_objects:
  assumes "\<And>s. find_tag ''Contents'' (a @ s) = shift a (find_tag ''Contents'' s)" and "find_tag ''Contents'' e = None"
    and "\<And>ob r. ob \<in> set objs \<Longrightarrow> f (object_xml ob @ r) = Some (g ob)"
  shows "\<exists>r texts. split_on ''<Contents>'' (a @ objects_xml objs @ e) = (a @ r) # texts \<and> List.map_filter f texts = map g objs"
  using assms(1,3)
proof (induction objs arbitrary: a)
  case Nil
  then show ?case using assms(2) by (simp add: objects_xml_def split_on.simps [of "''<Contents>''"] List.map_filter_def)
next
  case (Cons ob objs)
  have "find_tag ''Contents'' (''<Contents>'' @ object_xml ob @ objects_xml objs @ e) = Some ([], object_xml ob @ objects_xml objs @ e)"
    using at_tag [of "''Contents''" "object_xml ob @ objects_xml objs @ e"] by (simp del: at_tag)
  then have "find_tag ''Contents'' (a @ objects_xml (ob # objs) @ e) = Some (a, object_xml ob @ objects_xml objs @ e)"
    using Cons.prems(1) [of "''<Contents>'' @ object_xml ob @ objects_xml objs @ e"] by (simp add: objects_xml_def)
  then have "split_on ''<Contents>'' (a @ objects_xml (ob # objs) @ e) = a # split_on ''<Contents>'' (object_xml ob @ objects_xml objs @ e)"
    by (subst split_on.simps) simp
  moreover have "find_tag ''Contents'' (object_xml ob @ s) = shift (object_xml ob) (find_tag ''Contents'' s)" for s
    by (rule over_object) simp_all
  then obtain r texts where "split_on ''<Contents>'' (object_xml ob @ objects_xml objs @ e) = (object_xml ob @ r) # texts"
      "List.map_filter f texts = map g objs"
    using Cons.IH [of "object_xml ob"] Cons.prems(2) by auto
  ultimately show ?case using Cons.prems(2) [of ob] by (auto simp: List.map_filter_simps)
qed

lemma over_objects:
  assumes "tag_name t" and "t \<notin> {''Contents'', ''Key'', ''/Key'', ''LastModified'', ''/LastModified'', ''Size'', ''/Size'', ''/Contents''}"
  shows "find_tag t (objects_xml objs @ s) = shift (objects_xml objs) (find_tag t s)"
proof (induction objs)
  case Nil
  then show ?case by (simp add: objects_xml_def)
next
  case (Cons ob objs)
  have "objects_xml (ob # objs) @ s = ''<'' @ ''Contents'' @ ''>'' @ object_xml ob @ objects_xml objs @ s"
    by (simp add: objects_xml_def)
  then have "find_tag t (objects_xml (ob # objs) @ s)
      = shift (''<'' @ ''Contents'' @ ''>'') (shift (object_xml ob) (shift (objects_xml objs) (find_tag t s)))"
    using over_tag [of t "''Contents''"] over_object [of t ob] assms Cons.IH by auto
  then show ?case by (simp add: objects_xml_def)
qed

lemma over_page_head:
  "tag_name t \<Longrightarrow> t \<noteq> ''ListBucketResult'' \<Longrightarrow> find_tag t (''<ListBucketResult>'' @ s) = shift ''<ListBucketResult>'' (find_tag t s)"
  using over_tag [of t "''ListBucketResult''" s] by simp

text \<open>A longer pattern is found where its beginning is, or later.\<close>

lemma cut_at_longer:
  assumes "p \<noteq> []"
  shows "cut_at (p @ q) s = (case cut_at p s of
      None \<Rightarrow> None
    | Some (x, y) \<Rightarrow> if Sublist.prefix q y then Some (x, drop (length q) y)
        else shift (x @ [hd p]) (cut_at (p @ q) (tl p @ y)))"
proof (induction s)
  case Nil
  then show ?case using assms by simp
next
  case (Cons c s)
  show ?case
  proof (cases "Sublist.prefix p (c # s)")
    case True
    then obtain y where y: "c # s = p @ y" by (auto simp: Sublist.prefix_def)
    then have s: "s = tl p @ y" "c = hd p" using assms by (metis hd_append2 list.sel(1,3) tl_append2)+
    have "cut_at p (c # s) = Some ([], y)" using y assms by simp
    moreover have "Sublist.prefix (p @ q) (c # s) \<longleftrightarrow> Sublist.prefix q y" by (simp add: y)
    moreover have "drop (length (p @ q)) (c # s) = drop (length q) y" by (simp add: y)
    ultimately show ?thesis using s by (simp add: shift_def)
  next
    case False
    then have "\<not> Sublist.prefix (p @ q) (c # s)" by (meson append_prefixD)
    with False Cons.IH show ?thesis by (auto simp: option.map_comp comp_def shift_def split_def split: option.splits)
  qed
qed

lemma truncated_text:
  "contains_text (page_xml objs token) ''<IsTruncated>true</IsTruncated>'' \<longleftrightarrow> token \<noteq> None"
proof -
  let ?q = "''true</IsTruncated>''"
  have page_head: "find_tag ''IsTruncated'' (''<ListBucketResult>'' @ s) = shift ''<ListBucketResult>'' (find_tag ''IsTruncated'' s)" for s
    by (rule over_page_head) simp_all
  have objects: "find_tag ''IsTruncated'' (objects_xml objs @ s) = shift (objects_xml objs) (find_tag ''IsTruncated'' s)" for s
    by (rule over_objects) simp_all
  have at: "find_tag ''IsTruncated'' (page_xml objs token) = Some (''<ListBucketResult>'' @ objects_xml objs, r)"
    if "end_xml token = ''<IsTruncated>'' @ r" for r
  proof -
    have "find_tag ''IsTruncated'' (page_xml objs token) = shift (''<ListBucketResult>'' @ objects_xml objs) (find_tag ''IsTruncated'' (end_xml token))"
      unfolding page_xml_def by (simp only: page_head objects shift_simps)
    then show ?thesis using that at_tag [of "''IsTruncated''" r] by simp
  qed
  have longer: "cut_at (''<IsTruncated>'' @ ?q) s = (case find_tag ''IsTruncated'' s of None \<Rightarrow> None
      | Some (x, y) \<Rightarrow> if Sublist.prefix ?q y then Some (x, drop (length ?q) y)
          else shift (x @ ''<'') (cut_at (''<IsTruncated>'' @ ?q) (''IsTruncated>'' @ y)))" for s
    using cut_at_longer [of "''<IsTruncated>''" ?q s] by (cases "find_tag ''IsTruncated'' s") auto
  show ?thesis
  proof (cases token)
    case None
    let ?r = "''false</IsTruncated></ListBucketResult>''"
    have "end_xml token = ''<IsTruncated>'' @ ?r" using None by (simp add: end_xml_def)
    moreover have "\<not> Sublist.prefix ?q ?r" by simp
    moreover have "cut_at (''<IsTruncated>'' @ ?q) (''IsTruncated>'' @ ?r) = None" by simp
    ultimately show ?thesis using at [of ?r] longer [of "page_xml objs token"] None
      by (simp add: contains_text_def)
  next
    case (Some t)
    let ?r = "?q @ element_xml ''NextContinuationToken'' t @ ''</ListBucketResult>''"
    have "end_xml token = ''<IsTruncated>'' @ ?r" using Some by (simp add: end_xml_def)
    then show ?thesis using at [of ?r] longer [of "page_xml objs token"] Some
      by (simp add: contains_text_def)
  qed
qed

lemma token_text: "extract_xml_value (page_xml objs (Some t)) ''NextContinuationToken'' = Some t"
proof -
  let ?a = "''<ListBucketResult>'' @ objects_xml objs @ ''<IsTruncated>true</IsTruncated>''"
  have page_head: "find_tag ''NextContinuationToken'' (''<ListBucketResult>'' @ s)
      = shift ''<ListBucketResult>'' (find_tag ''NextContinuationToken'' s)" for s
    by (rule over_page_head) simp_all
  have objects: "find_tag ''NextContinuationToken'' (objects_xml objs @ s) = shift (objects_xml objs) (find_tag ''NextContinuationToken'' s)" for s
    by (rule over_objects) simp_all
  have flag: "find_tag ''NextContinuationToken'' (''<IsTruncated>true</IsTruncated>'' @ s)
      = shift ''<IsTruncated>true</IsTruncated>'' (find_tag ''NextContinuationToken'' s)" for s
    by (simp add: shift_def option.map_comp comp_def split_def)
  have "extract_xml_value (?a @ element_xml ''NextContinuationToken'' t @ ''</ListBucketResult>'') ''NextContinuationToken'' = Some t"
    by (subst read_past) (simp_all only: append.assoc page_head objects flag shift_simps read_element listing_tags)
  then show ?thesis by (simp add: page_xml_def end_xml_def)
qed

lemma read_page:
  assumes "\<And>key n modified. (key, Some n, modified) \<in> set objs \<Longrightarrow> n < 2 ^ 64"
  shows "listed_objects (page_xml objs token) = map (\<lambda>(key, n, _). (key, n)) objs
    \<and> (if contains_text (page_xml objs token) ''<IsTruncated>true</IsTruncated>''
       then extract_xml_value (page_xml objs token) ''NextContinuationToken'' else None) = token"
proof
  have head: "find_tag ''Contents'' (''<ListBucketResult>'' @ s) = shift ''<ListBucketResult>'' (find_tag ''Contents'' s)" for s
    by (rule over_page_head) simp_all
  have "find_tag ''Contents'' (element_xml ''NextContinuationToken'' t @ s) = shift (element_xml ''NextContinuationToken'' t) (find_tag ''Contents'' s)" for t s
    by (rule over_element) simp_all
  then have "find_tag ''Contents'' (end_xml token) = None"
    by (cases token) (simp_all add: end_xml_def)
  moreover have "read_object (object_xml ob @ r) = Some ((\<lambda>(key, n, _). (key, n)) ob)" if "ob \<in> set objs" for ob r
  proof -
    obtain key n modified where ob: "ob = (key, n, modified)" by (cases ob)
    then have "k < 2 ^ 64" if "n = Some k" for k using assms that \<open>ob \<in> set objs\<close> by blast
    then show ?thesis unfolding ob by (simp only: read_object_xml split_conv)
  qed
  ultimately obtain r texts where "split_on ''<Contents>'' (page_xml objs token) = (''<ListBucketResult>'' @ r) # texts"
      "List.map_filter read_object texts = map (\<lambda>(key, n, _). (key, n)) objs"
    using split_objects [OF head, of "end_xml token" objs read_object "\<lambda>(key, n, _). (key, n)"] by (auto simp: page_xml_def)
  then show "listed_objects (page_xml objs token) = map (\<lambda>(key, n, _). (key, n)) objs"
    by (simp add: listed_objects_def read_object_def [abs_def])
  show "(if contains_text (page_xml objs token) ''<IsTruncated>true</IsTruncated>''
       then extract_xml_value (page_xml objs token) ''NextContinuationToken'' else None) = token"
    by (cases token) (simp_all only: truncated_text token_text, simp_all)
qed

text \<open>
  A page of a listing is read as it was written: for every page of S3's documented form, whatever
  characters its keys have, the client reads each object's key with that object's size - no size where
  S3 gave none - and goes on exactly when there is more, with the token it was given.
\<close>

theorem page_roundtrip:
  assumes "\<And>key n modified. (key, Some n, modified) \<in> set objs \<Longrightarrow> n < 2 ^ 64"
  shows "listed_objects (page_xml objs token) = map (\<lambda>(key, n, _). (key, n)) objs
    \<and> (if contains_text (page_xml objs token) ''<IsTruncated>true</IsTruncated>''
       then extract_xml_value (page_xml objs token) ''NextContinuationToken'' else None) = token"
  using assms by (rule read_page)

theorem page_roundtrip_witness:
  "listed_objects (page_xml [(''a&b.pack'', Some 7, ''x''), (''c'', None, ''y'')] (Some ''t'')) = [(''a&b.pack'', Some 7), (''c'', None)]"
  using page_roundtrip [of "[(''a&b.pack'', Some 7, ''x''), (''c'', None, ''y'')]" "Some ''t''"] by auto

section \<open>What the small parts promise\<close>

lemma given_Some: "given v = Some t \<longleftrightarrow> v = Some t \<and> t \<noteq> []"
  by (auto simp: given_def bind_eq_Some_conv split: if_splits)

lemma given_simps [simp]: "given None = None" "given (Some []) = None" "s \<noteq> [] \<Longrightarrow> given (Some s) = Some s"
  by (simp_all add: given_def)

definition source_used :: "(string \<Rightarrow> string option) \<Rightarrow> string option \<Rightarrow> string \<times> string \<times> string \<Rightarrow> s3_credentials \<Rightarrow> bool" where
  "source_used var session src cr \<longleftrightarrow> (case src of (access, secret, token) \<Rightarrow>
     var access = Some (sc_access_key cr) \<and> var secret = Some (sc_secret_key cr)
     \<and> sc_session_token cr = (case given session of Some t \<Rightarrow> Some t | None \<Rightarrow> given (var token)))"

definition whole_source :: "(string \<Rightarrow> string option) \<Rightarrow> string \<times> string \<times> string \<Rightarrow> bool" where
  "whole_source var src \<longleftrightarrow> (case src of (access, secret, token) \<Rightarrow> given (var access) \<noteq> None \<and> given (var secret) \<noteq> None)"

lemma from_sources_first:
  "from_sources var session srcs = (case find (whole_source var) srcs of
     None \<Rightarrow> None
   | Some (access, secret, token) \<Rightarrow> Some \<lparr>sc_access_key = the (given (var access)), sc_secret_key = the (given (var secret)),
       sc_session_token = (case given session of Some t \<Rightarrow> Some t | None \<Rightarrow> given (var token))\<rparr>)"
proof (induction srcs)
  case (Cons src srcs)
  obtain access secret token where "src = (access, secret, token)" by (cases src)
  then show ?case
    using Cons by (cases "given (var access)"; cases "given (var secret)") (simp_all add: whole_source_def)
qed simp

text \<open>
  Keys are never put together from two places: those of the caller are taken as they are when
  both are given, and refused when one is missing; otherwise both come from the first source of the
  environment that has both, and without one there is an error. No key is ever empty.
\<close>

theorem credentials_whole:
  "case resolve_with access secret session var of
     Inr cr \<Rightarrow> sc_access_key cr \<noteq> [] \<and> sc_secret_key cr \<noteq> []
       \<and> (if given access = None \<and> given secret = None
          then \<exists>src. find (whole_source var) credential_sources = Some src \<and> source_used var session src cr
          else access = Some (sc_access_key cr) \<and> secret = Some (sc_secret_key cr) \<and> sc_session_token cr = given session)
   | Inl e \<Rightarrow> if given access = None \<and> given secret = None
       then find (whole_source var) credential_sources = None
       else given access = None \<or> given secret = None"
proof (cases "given access = None \<and> given secret = None")
  case False
  then show ?thesis by (cases "given access"; cases "given secret") (auto simp: resolve_with_def given_Some)
next
  case True
  show ?thesis
  proof (cases "find (whole_source var) credential_sources")
    case None
    with True show ?thesis by (auto simp: resolve_with_def from_sources_first)
  next
    case (Some src)
    then have "whole_source var src" by (simp add: find_Some_iff_mem)
    with True Some show ?thesis
      by (cases src) (auto simp: resolve_with_def from_sources_first whole_source_def source_used_def given_Some)
  qed
qed

text \<open>What SigV4 is checked against: the text the encoding stands for.\<close>

definition hex_value :: "char \<Rightarrow> nat" where
  "hex_value c = (let n = of_char c in if n \<le> 57 then n - 48 else n - 55)"

fun percent_decode :: "string \<Rightarrow> string" where
  "percent_decode (c # a # b # s) =
     (if c = CHR ''%'' then char_of (16 * hex_value a + hex_value b) # percent_decode s else c # percent_decode (a # b # s))"
| "percent_decode s = s"

lemma upper_hex_value: "d < 16 \<Longrightarrow> hex_value (upper_hex_digit d) = d"
proof -
  assume "d < 16"
  then have "d \<in> {0, 1, 2, 3, 4, 5, 6, 7, 8, 9, 10, 11, 12, 13, 14, 15}" by (simp, presburger)
  then show ?thesis by (elim insertE) (simp_all add: upper_hex_digit_def hex_value_def)
qed

lemma percent_decode_plain: "c \<noteq> CHR ''%'' \<Longrightarrow> percent_decode (c # s) = c # percent_decode s"
  by (cases "(c # s)" rule: percent_decode.cases) auto

text \<open>
  Percent-encoding loses nothing and leaves nothing SigV4 would encode: decoding what
  \<^verbatim>\<open>aws_encode\<close> made gives the text back, and it consists of unreserved characters and per cent signs.
\<close>

theorem aws_encode_roundtrip:
  "percent_decode (aws_encode s) = s \<and> list_all (\<lambda>c. unreserved c \<or> c = CHR ''%'') (aws_encode s)"
proof (induction s)
  case Nil
  then show ?case by (simp add: aws_encode_def)
next
  case (Cons c s)
  have digits: "unreserved (upper_hex_digit d)" if "d < 16" for d
  proof -
    have "d \<in> {0, 1, 2, 3, 4, 5, 6, 7, 8, 9, 10, 11, 12, 13, 14, 15}" using that by (simp, presburger)
    then show ?thesis by (elim insertE) (simp_all add: upper_hex_digit_def unreserved_def)
  qed
  have small: "(of_char c :: nat) < 256" by (simp add: nat_of_char_less_256)
  have enc: "aws_encode (c # s) = aws_encode_char c @ aws_encode s" by (simp add: aws_encode_def)
  show ?case
  proof (cases "unreserved c")
    case True
    then have "c \<noteq> CHR ''%''" by (auto simp: unreserved_def)
    with True Cons.IH show ?thesis by (simp add: enc aws_encode_char_def percent_decode_plain)
  next
    case False
    have hi: "(of_char c :: nat) div 16 < 16" using small by (rule less_mult_imp_div_less [of _ 16 16, simplified])
    have "char_of (16 * ((of_char c :: nat) div 16) + of_char c mod 16) = c" by (simp only: mult_div_mod_eq char_of_char)
    with False Cons.IH show ?thesis
      by (simp add: enc aws_encode_char_def upper_hex_value [OF hi] upper_hex_value digits [OF hi] digits)
  qed
qed

lemma length_chunks:
  assumes "0 < n"
  shows "length (chunks n xs) = (length xs + n - 1) div n"
  using assms
proof (induction n xs rule: chunks.induct)
  case (1 n xs)
  consider "xs = []" | "xs \<noteq> []" "length xs < n" | "n \<le> length xs" "xs \<noteq> []" by fastforce
  then show ?case
  proof cases
    case 1
    with \<open>0 < n\<close> show ?thesis by simp
  next
    case 2
    then have "(length xs + n - 1) div n = 1" by (intro div_nat_eqI) (cases xs; simp)+
    with 2 \<open>0 < n\<close> show ?thesis by (simp add: chunks_Cons)
  next
    case 3
    have "length xs + n - 1 = (length xs - n + n - 1) + n" using 3 \<open>0 < n\<close> by simp
    then have "(length xs + n - 1) div n = Suc ((length xs - n + n - 1) div n)" using \<open>0 < n\<close> by (simp only: div_add_self2)
    moreover have "length (chunks n (drop n xs)) = (length xs - n + n - 1) div n" using 1 3 by simp
    ultimately show ?thesis using 3 \<open>0 < n\<close> by (simp add: chunks_Cons)
  qed
qed

lemma chunks_nth_length:
  "0 < n \<Longrightarrow> Suc i < length (chunks n xs) \<Longrightarrow> length (chunks n xs ! i) = n"
proof (induction n xs arbitrary: i rule: chunks.induct)
  case (1 n xs)
  then have ne: "xs \<noteq> []" by auto
  with 1 have c: "chunks n xs = take n xs # chunks n (drop n xs)" by (simp add: chunks_Cons)
  show ?case
  proof (cases i)
    case 0
    then have "drop n xs \<noteq> []" using 1(3) c by (auto simp del: drop_eq_Nil)
    with 0 c show ?thesis by simp
  next
    case (Suc j)
    with 1 ne c show ?thesis by simp
  qed
qed

text \<open>
  C39. The parts of a large upload are ones S3 and R2 take, whatever the size of the object: together
  they are the object, there are at most ten thousand, all but the last are of one size of at least
  16 MiB, the last is not empty and not larger; and up to R2's ceiling of 5 TiB none is over 5 GiB.
\<close>

theorem part_layout:
  fixes data :: bytes
  defines "n \<equiv> part_size_for (length data)"
  shows "concat (chunks n data) = data \<and> length (chunks n data) \<le> max_parts \<and> min_part_size \<le> n
    \<and> list_all (\<lambda>i. length (chunks n data ! i) = n) [0..<length (chunks n data) - 1]
    \<and> list_all (\<lambda>part. part \<noteq> [] \<and> length part \<le> n) (chunks n data)
    \<and> n \<le> max (5 * 1024 ^ 3) ((length data + 9983) div 9984)
    \<and> (5 * 1024 ^ 4 < length data \<or> n \<le> 5 * 1024 ^ 3)"
proof -
  have pos: "0 < n" by (simp add: n_def part_size_for_def min_part_size_def)
  have "length data \<le> n * 9984"
    using ceil_div_covers [of 9984 "length data"] by (auto simp: n_def part_size_for_def max_parts_def max_def)
  then have "length data + n - 1 < n * 9985" using pos by (simp add: algebra_simps)
  then have "(length data + n - 1) div n < 9985" by (simp add: less_mult_imp_div_less mult.commute)
  then have "length (chunks n data) \<le> max_parts" using pos by (simp add: length_chunks max_parts_def)
  moreover have "list_all (\<lambda>i. length (chunks n data ! i) = n) [0..<length (chunks n data) - 1]"
    by (auto simp: list.pred_set intro!: chunks_nth_length [OF pos])
  moreover have "list_all (\<lambda>part. part \<noteq> [] \<and> length part \<le> n) (chunks n data)"
    using chunks_bound by (auto simp: list.pred_set)
  moreover have "n \<le> 5 * 1024 ^ 3" if "length data \<le> 5 * 1024 ^ 4"
  proof -
    have "(length data + 9983) div 9984 \<le> (5 * 1024 ^ 4 + 9983) div 9984" using that by (intro div_le_mono) simp
    then show ?thesis by (simp add: n_def part_size_for_def min_part_size_def max_parts_def)
  qed
  moreover have "min_part_size \<le> n" by (simp add: n_def part_size_for_def)
  moreover have "n \<le> max (5 * 1024 ^ 3) ((length data + 9983) div 9984)"
    by (auto simp: n_def part_size_for_def min_part_size_def max_parts_def)
  ultimately show ?thesis using pos by (auto simp: not_less)
qed

end
