(* ===== verification/S3.thy ===== *)
theory S3
  imports S3Text
begin

text \<open>
  The S3 client of \<^verbatim>\<open>src/src/s3.rs\<close>: signing, the retried requests, the multipart upload and the
  operations of the storage trait. The crates underneath (\<^verbatim>\<open>rusty-s3\<close>, \<^verbatim>\<open>url\<close>, \<^verbatim>\<open>jiff\<close>, \<^verbatim>\<open>sha2\<close>,
  \<^verbatim>\<open>hmac\<close>, \<^verbatim>\<open>ureq\<close>) and with them the service are the fields of a record; what is on the other side of
  the network is a state that every request passes on.
\<close>

section \<open>Requests and answers\<close>

datatype http_method = Get | Put | Delete | Head | Post

text \<open>\<^verbatim>\<open>ureq::Error\<close>: a status with what could be read of its body, or no answer at all.\<close>

datatype http_error = Status nat string | Transport string

text \<open>
  \<open>rs_reader\<close> is what of the body arrives and how reading it breaks off, if it does; \<open>rs_text\<close> is the
  outcome of \<^verbatim>\<open>into_string\<close>.
\<close>

record response =
  rs_status :: nat
  rs_header :: "string \<Rightarrow> string option"
  rs_reader :: "bytes \<times> string option"
  rs_text :: "string + string"

record ('u, 'b, 's) s3_world =
  sx_parse_url :: "string \<Rightarrow> string + 'u"
  sx_new_bucket :: "'u \<Rightarrow> bool \<Rightarrow> string \<Rightarrow> string \<Rightarrow> string + 'b"
  sx_object_url :: "'b \<Rightarrow> string \<Rightarrow> string + 'u"
  sx_region :: "'b \<Rightarrow> string"
  sx_sign :: "timestamp \<Rightarrow> http_method \<Rightarrow> 'u \<Rightarrow> s3_credentials \<Rightarrow> string \<Rightarrow> nat \<Rightarrow> (string \<times> string) list \<Rightarrow> 'u"
  sx_host :: "'u \<Rightarrow> string option"
  sx_port :: "'u \<Rightarrow> nat option"
  sx_path :: "'u \<Rightarrow> string"
  sx_set_query :: "string option \<Rightarrow> 'u \<Rightarrow> 'u"
  sx_stamp :: "timestamp \<Rightarrow> string"
  sx_sha256 :: "bytes \<Rightarrow> bytes"
  sx_hmac :: "bytes \<Rightarrow> bytes \<Rightarrow> bytes"
  sx_now :: "'s \<Rightarrow> timestamp"
  sx_sleep :: "nat \<Rightarrow> 's \<Rightarrow> 's"
  sx_send :: "http_method \<Rightarrow> 'u \<Rightarrow> (string \<times> string) list \<Rightarrow> bytes option \<Rightarrow> 's \<Rightarrow> (http_error + response) \<times> 's"

record 'b s3_storage =
  st_config :: s3_config
  st_bucket :: 'b
  st_credentials :: s3_credentials

definition text_bytes :: "string \<Rightarrow> bytes" where
  "text_bytes s = map of_char s"

section \<open>Addressing and signing\<close>

definition signed_for_secs :: nat where
  "signed_for_secs = 3600"

definition bucket_of :: "('u, 'b, 's) s3_world \<Rightarrow> s3_config \<Rightarrow> 'b result" where
  "bucket_of W cfg =
     (let endpoint = (case s3_endpoint cfg of Some e \<Rightarrow> e | None \<Rightarrow> ''https://s3.'' @ s3_region cfg @ ''.amazonaws.com'');
          endpoint = (if suffix ''/'' endpoint then endpoint else endpoint @ ''/'')
      in case sx_parse_url W endpoint of
           Inl e \<Rightarrow> Inl (StorageErr ''S3 endpoint is not an address'')
         | Inr url \<Rightarrow> (case sx_new_bucket W url (s3_path_style cfg) (s3_bucket cfg) (s3_region cfg) of
             Inl e \<Rightarrow> Inl (StorageErr ''S3 bucket'')
           | Inr b \<Rightarrow> Inr b))"

definition new_s3 :: "('u, 'b, 's) s3_world \<Rightarrow> s3_config \<Rightarrow> 'b s3_storage result" where
  "new_s3 W cfg = bind_res (bucket_of W cfg) (\<lambda>b. Inr
     \<lparr>st_config = cfg, st_bucket = b,
      st_credentials = \<lparr>sc_access_key = s3_access_key cfg, sc_secret_key = s3_secret_key cfg, sc_session_token = s3_session_token cfg\<rparr>\<rparr>)"

definition signed_url :: "('u, 'b, 's) s3_world \<Rightarrow> 'b s3_storage \<Rightarrow> http_method \<Rightarrow> string \<Rightarrow> (string \<times> string) list \<Rightarrow> 's \<Rightarrow> 'u result" where
  "signed_url W st m key query s =
     (case sx_object_url W (st_bucket st) key of
        Inl e \<Rightarrow> Inl (StorageErr ''S3 key is not a path'')
      | Inr url \<Rightarrow> Inr (sx_sign W (sx_now W s) m url (st_credentials st) (sx_region W (st_bucket st)) signed_for_secs (sort query)))"

text \<open>SigV4 in the header: the canonical request, what is signed, and the headers sent.\<close>

definition empty_sha256 :: string where
  "empty_sha256 = ''e3b0c44298fc1c149afbf4c8996fb92427ae41e4649b934ca495991b7852b855''"

fun join :: "string \<Rightarrow> string list \<Rightarrow> string" where
  "join sep [] = []"
| "join sep [x] = x"
| "join sep (x # xs) = x @ sep @ join sep xs"

definition canonical_query :: "(string \<times> string) list \<Rightarrow> string" where
  "canonical_query query =
     join ''&'' (map (\<lambda>(k, v). k @ ''='' @ v) (sort (map (\<lambda>(k, v). (aws_encode k, aws_encode v)) query)))"

definition host_text :: "('u, 'b, 's) s3_world \<Rightarrow> 'u \<Rightarrow> string" where
  "host_text W url =
     (let host = (case sx_host W url of Some h \<Rightarrow> h | None \<Rightarrow> [])
      in case sx_port W url of Some port \<Rightarrow> host @ '':'' @ nat_str port | None \<Rightarrow> host)"

definition signed_headers :: "string \<Rightarrow> string \<Rightarrow> string option \<Rightarrow> (string \<times> string) list" where
  "signed_headers host stamp token =
     [(''host'', host), (''x-amz-content-sha256'', empty_sha256), (''x-amz-date'', stamp)]
     @ (case token of Some t \<Rightarrow> [(''x-amz-security-token'', t)] | None \<Rightarrow> [])"

definition newline :: string where
  "newline = [CHR 0x0A]"

definition canonical_request :: "string \<Rightarrow> string \<Rightarrow> (string \<times> string) list \<Rightarrow> string" where
  "canonical_request path query_string heads =
     ''GET'' @ newline @ path @ newline @ query_string @ newline
     @ concat (map (\<lambda>(name, v). name @ '':'' @ trim_text v @ newline) heads)
     @ newline @ join '';'' (map fst heads) @ newline @ empty_sha256"

definition header_signed :: "('u, 'b, 's) s3_world \<Rightarrow> 'u \<Rightarrow> (string \<times> string) list \<Rightarrow> string \<Rightarrow> string \<Rightarrow> s3_credentials
    \<Rightarrow> string \<times> (string \<times> string) list" where
  "header_signed W url query stamp region cr =
     (let query_string = canonical_query query;
          heads = signed_headers (host_text W url) stamp (sc_session_token cr);
          names = join '';'' (map fst heads);
          canonical = canonical_request (sx_path W url) query_string heads;
          day = take 8 stamp;
          scope = day @ ''/'' @ region @ ''/s3/aws4_request'';
          to_sign = ''AWS4-HMAC-SHA256'' @ newline @ stamp @ newline @ scope @ newline @ hex_text (sx_sha256 W (text_bytes canonical));
          signing = fold (\<lambda>part key. sx_hmac W key (text_bytes part)) [region, ''s3'', ''aws4_request'']
                      (sx_hmac W (text_bytes (''AWS4'' @ sc_secret_key cr)) (text_bytes day));
          signature = hex_text (sx_hmac W signing (text_bytes to_sign))
      in (query_string, filter (\<lambda>(name, v). name \<noteq> ''host'') heads @
            [(''Authorization'', ''AWS4-HMAC-SHA256 Credential='' @ sc_access_key cr @ ''/'' @ scope
               @ '', SignedHeaders='' @ names @ '', Signature='' @ signature)]))"

section \<open>One request, and its retries\<close>

definition max_attempts :: nat where
  "max_attempts = 3"

fun status_error :: "string \<Rightarrow> http_error \<Rightarrow> moonclip_error" where
  "status_error key (Status code body) =
     (if code = 404 then NotFound key else StorageErr (''S3 HTTP '' @ nat_str code @ '': '' @ body))"
| "status_error key (Transport t) = StorageErr (''S3 transport error: '' @ t)"

definition retry_code :: "string \<Rightarrow> nat option" where
  "retry_code msg =
     (if Sublist.prefix ''S3 HTTP '' msg
      then parse_uint 16 (trim_text (takeWhile (\<lambda>c. c \<noteq> CHR '':'') (drop (length ''S3 HTTP '') msg)))
      else None)"

fun is_retryable :: "moonclip_error \<Rightarrow> bool" where
  "is_retryable (StorageErr msg) =
     (Sublist.prefix ''S3 transport error'' msg
      \<or> (case retry_code msg of Some code \<Rightarrow> code = 429 \<or> (500 \<le> code \<and> code \<le> 599) | None \<Rightarrow> False))"
| "is_retryable _ = False"

definition listed :: "('u, 'b, 's) s3_world \<Rightarrow> 'b s3_storage \<Rightarrow> (string \<times> string) list \<Rightarrow> ('s, response) io" where
  "listed W st query s =
     (case sx_object_url W (st_bucket st) [] of
        Inl e \<Rightarrow> (Inl (StorageErr ''S3 bucket address''), s)
      | Inr url \<Rightarrow>
          (case header_signed W url query (sx_stamp W (sx_now W s)) (sx_region W (st_bucket st)) (st_credentials st) of
             (query_string, headers) \<Rightarrow>
               (case sx_send W Get (sx_set_query W (if query_string = [] then None else Some query_string) url) headers None s of
                  (Inl e, s') \<Rightarrow> (Inl (status_error [] e), s')
                | (Inr resp, s') \<Rightarrow> (Inr resp, s'))))"

definition attempt_request :: "('u, 'b, 's) s3_world \<Rightarrow> 'b s3_storage \<Rightarrow> http_method \<Rightarrow> string \<Rightarrow> bytes option
    \<Rightarrow> (string \<times> string) list \<Rightarrow> ('s, response) io" where
  "attempt_request W st m key body query s =
     (if m = Get \<and> key = [] \<and> s3_session_token (st_config st) \<noteq> None then listed W st query s
      else case signed_url W st m key query s of
             Inl e \<Rightarrow> (Inl e, s)
           | Inr url \<Rightarrow> (case sx_send W m url [] body s of
               (Inl e, s') \<Rightarrow> (Inl (status_error key e), s')
             | (Inr resp, s') \<Rightarrow> (Inr resp, s')))"

text \<open>The loop of attempts; the pause before the next one doubles every time.\<close>

function attempts_from :: "('u, 'b, 's) s3_world \<Rightarrow> ('s, 'a) io \<Rightarrow> nat \<Rightarrow> nat \<Rightarrow> ('s, 'a) io" where
  "attempts_from W once attempt backoff s =
     (case once s of
        (Inr resp, s') \<Rightarrow> (Inr resp, s')
      | (Inl e, s') \<Rightarrow>
          if attempt < max_attempts \<and> is_retryable e
          then attempts_from W once (Suc attempt) (2 * backoff) (sx_sleep W backoff s')
          else (Inl e, s'))"
  by pat_completeness auto
termination
  by (relation "measure (\<lambda>(W, once, attempt, backoff, s). max_attempts - attempt)") auto

declare attempts_from.simps [simp del]

definition do_request :: "('u, 'b, 's) s3_world \<Rightarrow> 'b s3_storage \<Rightarrow> http_method \<Rightarrow> string \<Rightarrow> bytes option
    \<Rightarrow> (string \<times> string) list \<Rightarrow> ('s, response) io" where
  "do_request W st m key body query = attempts_from W (attempt_request W st m key body query) 1 200"

section \<open>Large uploads\<close>

definition part_text :: "nat \<Rightarrow> string \<Rightarrow> string" where
  "part_text number etag =
     ''<Part><PartNumber>'' @ nat_str number @ ''</PartNumber><ETag>'' @ etag @ ''</ETag></Part>''"

text \<open>One part after the other, and the text of the completion as it grows.\<close>

fun send_parts :: "('u, 'b, 's) s3_world \<Rightarrow> 'b s3_storage \<Rightarrow> string \<Rightarrow> string \<Rightarrow> nat \<Rightarrow> bytes list \<Rightarrow> string
    \<Rightarrow> ('s, string) io" where
  "send_parts W st key upload_id number [] completed s = (Inr completed, s)"
| "send_parts W st key upload_id number (part # parts) completed s =
     (case do_request W st Put key (Some part) [(''partNumber'', nat_str number), (''uploadId'', upload_id)] s of
        (Inl e, s') \<Rightarrow> (Inl e, s')
      | (Inr resp, s') \<Rightarrow>
          (case rs_header resp ''ETag'' of
             None \<Rightarrow> (Inl (StorageErr ''S3 part came back without an ETag''), s')
           | Some etag \<Rightarrow> send_parts W st key upload_id (Suc number) parts (completed @ part_text number etag) s'))"

definition upload_parts :: "('u, 'b, 's) s3_world \<Rightarrow> 'b s3_storage \<Rightarrow> string \<Rightarrow> bytes \<Rightarrow> string \<Rightarrow> ('s, unit) io" where
  "upload_parts W st key data upload_id =
     bind_io (send_parts W st key upload_id 1 (chunks (part_size_for (length data)) data) ''<CompleteMultipartUpload>'') (\<lambda>completed.
     bind_io (do_request W st Post key (Some (text_bytes (completed @ ''</CompleteMultipartUpload>''))) [(''uploadId'', upload_id)]) (\<lambda>resp.
       lift_io (case rs_text resp of
           Inl e \<Rightarrow> Inl (StorageErr ''S3 multipart complete'')
         | Inr body \<Rightarrow> if contains_text body ''<Error>'' then Inl (StorageErr ''S3 refused to complete the multipart upload'') else Inr ())))"

text \<open>Every way out but success goes through the abort, whose own failure is only printed.\<close>

definition put_multipart :: "('u, 'b, 's) s3_world \<Rightarrow> 'b s3_storage \<Rightarrow> string \<Rightarrow> bytes \<Rightarrow> ('s, unit) io" where
  "put_multipart W st rel_path data =
     (let key = object_key (st_config st) rel_path in
      bind_io (do_request W st Post key None [(''uploads'', [])]) (\<lambda>created.
      bind_io (lift_io (case rs_text created of
           Inl e \<Rightarrow> Inl (StorageErr ''S3 multipart start'')
         | Inr body \<Rightarrow> ok_or (extract_xml_value body ''UploadId'') (StorageErr ''S3 multipart start returned no UploadId''))) (\<lambda>upload_id s.
        case upload_parts W st key data upload_id s of
          (Inr _, s') \<Rightarrow> (Inr (), s')
        | (Inl e, s') \<Rightarrow> (Inl e, snd (do_request W st Delete key None [(''uploadId'', upload_id)] s')))))"

text \<open>\<open>None\<close> is a listing the service never ends.\<close>

definition upload_params :: "string \<Rightarrow> (string \<times> string) option \<Rightarrow> (string \<times> string) list" where
  "upload_params full_prefix markers =
     [(''uploads'', []), (''prefix'', full_prefix)]
     @ (case markers of None \<Rightarrow> [] | Some (key, upload_id) \<Rightarrow> [(''key-marker'', key), (''upload-id-marker'', upload_id)])"

partial_function (option) uploads_from :: "('u, 'b, 's) s3_world \<Rightarrow> 'b s3_storage \<Rightarrow> string \<Rightarrow> (string \<times> string) option
    \<Rightarrow> (string \<times> string) list \<Rightarrow> 's \<Rightarrow> ((string \<times> string) list result \<times> 's) option" where
  "uploads_from W st full_prefix markers found s =
     (case do_request W st Get [] None (upload_params full_prefix markers) s of
        (Inl e, s') \<Rightarrow> Some (Inl e, s')
      | (Inr resp, s') \<Rightarrow>
          (case rs_text resp of
             Inl e \<Rightarrow> Some (Inl (StorageErr ''S3 multipart listing parse error''), s')
           | Inr body \<Rightarrow>
               (let found = found @ listed_uploads body in
                if \<not> contains_text body ''<IsTruncated>true</IsTruncated>'' then Some (Inr found, s')
                else case (extract_xml_value body ''NextKeyMarker'', extract_xml_value body ''NextUploadIdMarker'') of
                       (Some key, Some upload_id) \<Rightarrow> uploads_from W st full_prefix (Some (key, upload_id)) found s'
                     | _ \<Rightarrow> Some (Inr found, s'))))"

definition list_multipart_uploads :: "('u, 'b, 's) s3_world \<Rightarrow> 'b s3_storage \<Rightarrow> string \<Rightarrow> 's
    \<Rightarrow> ((string \<times> string) list result \<times> 's) option" where
  "list_multipart_uploads W st pre = uploads_from W st (object_key (st_config st) pre) None []"

definition abort_multipart_upload :: "('u, 'b, 's) s3_world \<Rightarrow> 'b s3_storage \<Rightarrow> string \<Rightarrow> string \<Rightarrow> ('s, unit) io" where
  "abort_multipart_upload W st key upload_id =
     bind_io (do_request W st Delete key None [(''uploadId'', upload_id)]) (\<lambda>_. ret_io ())"

definition trim_quotes :: "string \<Rightarrow> string" where
  "trim_quotes s = rev (dropWhile (\<lambda>c. c = CHR 0x22) (rev (dropWhile (\<lambda>c. c = CHR 0x22) s)))"

definition object_etag :: "('u, 'b, 's) s3_world \<Rightarrow> 'b s3_storage \<Rightarrow> string \<Rightarrow> ('s, string option) io" where
  "object_etag W st rel_path =
     bind_io (do_request W st Head (object_key (st_config st) rel_path) None []) (\<lambda>resp.
       ret_io (map_option trim_quotes (rs_header resp ''ETag'')))"

section \<open>The operations of the trait\<close>

text \<open>An answer other than 206 is the whole object, which is only what was asked for at offset 0.\<close>

definition range_text :: "nat \<Rightarrow> nat \<Rightarrow> string" where
  "range_text offset len = ''bytes='' @ nat_str offset @ ''-'' @ nat_str (offset + len - 1)"

definition read_body :: "response \<Rightarrow> bytes result" where
  "read_body resp = (case rs_reader resp of (data, None) \<Rightarrow> Inr data | (_, Some e) \<Rightarrow> Inl (StorageErr ''S3 read error''))"

definition range_body :: "nat \<Rightarrow> nat \<Rightarrow> response \<Rightarrow> bytes result" where
  "range_body offset len resp =
     (if rs_status resp \<noteq> 206 \<and> offset \<noteq> 0 then Inl (StorageErr ''S3 answered a ranged read with the whole object'')
      else if len \<le> length (fst (rs_reader resp)) then Inr (take len (fst (rs_reader resp)))
      else read_body resp)"

text \<open>What goes wrong before the request is sent, or in its body, ends the loop at once.\<close>

function range_from :: "('u, 'b, 's) s3_world \<Rightarrow> 'b s3_storage \<Rightarrow> string \<Rightarrow> nat \<Rightarrow> nat \<Rightarrow> nat \<Rightarrow> nat \<Rightarrow> ('s, bytes) io" where
  "range_from W st key offset len attempt backoff s =
     (case signed_url W st Get key [] s of
        Inl e \<Rightarrow> (Inl e, s)
      | Inr url \<Rightarrow>
          (case sx_send W Get url [(''Range'', range_text offset len)] None s of
             (Inr resp, s') \<Rightarrow> (range_body offset len resp, s')
           | (Inl e, s') \<Rightarrow>
               if attempt < max_attempts \<and> is_retryable (status_error key e)
               then range_from W st key offset len (Suc attempt) (2 * backoff) (sx_sleep W backoff s')
               else (Inl (status_error key e), s')))"
  by pat_completeness auto
termination
  by (relation "measure (\<lambda>(W, st, key, offset, len, attempt, backoff, s). max_attempts - attempt)") auto

declare range_from.simps [simp del]

definition ranged_get :: "('u, 'b, 's) s3_world \<Rightarrow> 'b s3_storage \<Rightarrow> string \<Rightarrow> nat \<Rightarrow> nat \<Rightarrow> ('s, bytes) io" where
  "ranged_get W st key offset len s = (if len = 0 then (Inr [], s) else range_from W st key offset len 1 200 s)"

text \<open>A missing object is reported under the caller's path.\<close>

definition under_path :: "string \<Rightarrow> 'a result \<Rightarrow> 'a result" where
  "under_path rel_path r = (case r of Inl (NotFound _) \<Rightarrow> Inl (NotFound rel_path) | _ \<Rightarrow> r)"

definition s3_put :: "('u, 'b, 's) s3_world \<Rightarrow> 'b s3_storage \<Rightarrow> string \<Rightarrow> bytes \<Rightarrow> ('s, unit) io" where
  "s3_put W st rel_path data =
     (if s3_single_put_limit (st_config st) < length data then put_multipart W st rel_path data
      else bind_io (do_request W st Put (object_key (st_config st) rel_path) (Some data) []) (\<lambda>_. ret_io ()))"

definition s3_get :: "('u, 'b, 's) s3_world \<Rightarrow> 'b s3_storage \<Rightarrow> string \<Rightarrow> ('s, bytes) io" where
  "s3_get W st rel_path s =
     (case do_request W st Get (object_key (st_config st) rel_path) None [] s of
        (r, s') \<Rightarrow> (bind_res (under_path rel_path r) read_body, s'))"

definition s3_exists :: "('u, 'b, 's) s3_world \<Rightarrow> 'b s3_storage \<Rightarrow> string \<Rightarrow> ('s, bool) io" where
  "s3_exists W st rel_path s =
     (case do_request W st Head (object_key (st_config st) rel_path) None [] s of
        (Inr _, s') \<Rightarrow> (Inr True, s')
      | (Inl (NotFound _), s') \<Rightarrow> (Inr False, s')
      | (Inl e, s') \<Rightarrow> (Inl e, s'))"

definition s3_get_range :: "('u, 'b, 's) s3_world \<Rightarrow> 'b s3_storage \<Rightarrow> string \<Rightarrow> nat \<Rightarrow> nat \<Rightarrow> ('s, bytes) io" where
  "s3_get_range W st rel_path offset len s =
     (case ranged_get W st (object_key (st_config st) rel_path) offset len s of (r, s') \<Rightarrow> (under_path rel_path r, s'))"

definition s3_delete :: "('u, 'b, 's) s3_world \<Rightarrow> 'b s3_storage \<Rightarrow> string \<Rightarrow> ('s, unit) io" where
  "s3_delete W st rel_path =
     bind_io (do_request W st Delete (object_key (st_config st) rel_path) None []) (\<lambda>_. ret_io ())"

definition list_params :: "string \<Rightarrow> string option \<Rightarrow> (string \<times> string) list" where
  "list_params full_prefix token =
     [(''list-type'', ''2''), (''prefix'', full_prefix)]
     @ (case token of None \<Rightarrow> [] | Some t \<Rightarrow> [(''continuation-token'', t)])"

partial_function (option) list_from :: "('u, 'b, 's) s3_world \<Rightarrow> 'b s3_storage \<Rightarrow> string \<Rightarrow> string option
    \<Rightarrow> (string \<times> nat option) list \<Rightarrow> 's \<Rightarrow> ((string \<times> nat option) list result \<times> 's) option" where
  "list_from W st full_prefix token found s =
     (case do_request W st Get [] None (list_params full_prefix token) s of
        (Inl e, s') \<Rightarrow> Some (Inl e, s')
      | (Inr resp, s') \<Rightarrow>
          (case rs_text resp of
             Inl e \<Rightarrow> Some (Inl (StorageErr ''S3 list parse error''), s')
           | Inr body \<Rightarrow>
               (let found = found @ map (\<lambda>(key, n). (strip_base (normalized_prefix (st_config st)) key, n)) (listed_objects body) in
                if contains_text body ''<IsTruncated>true</IsTruncated>''
                then (case extract_xml_value body ''NextContinuationToken'' of
                        Some t \<Rightarrow> list_from W st full_prefix (Some t) found s'
                      | None \<Rightarrow> Some (Inr found, s'))
                else Some (Inr found, s'))))"

definition s3_list_sized :: "('u, 'b, 's) s3_world \<Rightarrow> 'b s3_storage \<Rightarrow> string \<Rightarrow> 's
    \<Rightarrow> ((string \<times> nat option) list result \<times> 's) option" where
  "s3_list_sized W st pre = list_from W st (object_key (st_config st) pre) None []"

definition s3_list :: "('u, 'b, 's) s3_world \<Rightarrow> 'b s3_storage \<Rightarrow> string \<Rightarrow> 's \<Rightarrow> (string list result \<times> 's) option" where
  "s3_list W st pre s = map_option (\<lambda>(r, s'). (bind_res r (\<lambda>ks. Inr (map fst ks)), s')) (s3_list_sized W st pre s)"

section \<open>Which failures are tried again\<close>

lemma takeWhile_digits: "list_all is_digit s \<Longrightarrow> takeWhile (\<lambda>c. c \<noteq> CHR '':'') (s @ CHR '':'' # t) = s"
  by (induction s) (auto dest: digit_chars)

lemma retry_code_status:
  assumes "code < 2 ^ 16"
  shows "retry_code (''S3 HTTP '' @ nat_str code @ '': '' @ body) = Some code"
proof -
  have d: "list_all is_digit (nat_str code)" using nat_str_digits by blast
  then have "takeWhile (\<lambda>c. c \<noteq> CHR '':'') (nat_str code @ '': '' @ body) = nat_str code" by (simp add: takeWhile_digits)
  moreover have "Sublist.prefix ''S3 HTTP '' (''S3 HTTP '' @ nat_str code @ '': '' @ body)" by simp
  ultimately show ?thesis using trim_text_digits [OF d] parse_nat_str [OF assms] by (simp add: retry_code_def)
qed

text \<open>
  A request is tried again on exactly the failures that may pass: no answer at all, 429, and the
  statuses from 500 to 599 - whatever the text of the answer says, which is where the status is kept.
\<close>

theorem retryable_iff:
  assumes "code < 2 ^ 16"
  shows "(is_retryable (status_error key (Status code body)) \<longleftrightarrow> code = 429 \<or> (500 \<le> code \<and> code \<le> 599))
    \<and> is_retryable (status_error key (Transport t))"
  using retry_code_status [OF assms, of body] by auto

theorem retryable_iff_witness:
  "is_retryable (status_error ''k'' (Status 503 ''404'')) \<and> \<not> is_retryable (status_error ''k'' (Status 403 ''503''))"
  using retryable_iff [of 503 "''k''" "''404''"] retryable_iff [of 403 "''k''" "''503''"] by simp

text \<open>The state each attempt starts from, with the pauses between them.\<close>

primrec before_attempt :: "('u, 'b, 's) s3_world \<Rightarrow> ('s, 'a) io \<Rightarrow> 's \<Rightarrow> nat \<Rightarrow> 's" where
  "before_attempt W once s 0 = s"
| "before_attempt W once s (Suc k) = sx_sleep W (200 * 2 ^ k) (snd (once (before_attempt W once s k)))"

lemma attempts_from_trace:
  assumes "k < max_attempts"
    and "\<And>j. j < k \<Longrightarrow> \<exists>e. fst (once (before_attempt W once s j)) = Inl e \<and> is_retryable e"
  shows "\<exists>n < max_attempts. attempts_from W once (Suc k) (200 * 2 ^ k) (before_attempt W once s k) = once (before_attempt W once s n)
    \<and> (\<forall>j < n. \<exists>e. fst (once (before_attempt W once s j)) = Inl e \<and> is_retryable e)
    \<and> (case fst (once (before_attempt W once s n)) of Inr _ \<Rightarrow> True | Inl e \<Rightarrow> is_retryable e \<longrightarrow> Suc n = max_attempts)"
  using assms
proof (induction "max_attempts - k" arbitrary: k)
  case 0
  then show ?case by simp
next
  case (Suc m)
  obtain r s' where t: "once (before_attempt W once s k) = (r, s')" by fastforce
  show ?case
  proof (cases "\<exists>e. r = Inl e \<and> is_retryable e \<and> Suc k < max_attempts")
    case True
    then obtain e where e: "r = Inl e" "is_retryable e" "Suc k < max_attempts" by blast
    have "attempts_from W once (Suc k) (200 * 2 ^ k) (before_attempt W once s k)
        = attempts_from W once (Suc (Suc k)) (200 * 2 ^ Suc k) (before_attempt W once s (Suc k))"
      using t e by (subst attempts_from.simps) (simp add: mult.left_commute)
    moreover have "\<exists>e. fst (once (before_attempt W once s j)) = Inl e \<and> is_retryable e" if "j < Suc k" for j
      using that Suc.prems(2) t e by (cases "j = k") auto
    ultimately show ?thesis using Suc.hyps(1) [of "Suc k"] Suc.hyps(2) e(3) by auto
  next
    case False
    then have "attempts_from W once (Suc k) (200 * 2 ^ k) (before_attempt W once s k) = once (before_attempt W once s k)"
      using t by (subst attempts_from.simps) (auto split: sum.splits)
    with False t Suc.prems show ?thesis
      by (intro exI [of _ k]) (auto split: sum.splits)
  qed
qed

text \<open>
  C37. A request is sent at most three times, with twice the pause before each further attempt: what
  comes back is the outcome of one attempt, every attempt before it failed in a way that may pass,
  and a failure of that kind is only reported when it was the third.
\<close>

theorem request_attempts:
  fixes W :: "('u, 'b, 's) s3_world"
  defines "once \<equiv> \<lambda>st m key body query. attempt_request W st m key body query"
  shows "\<exists>n < 3. do_request W st m key body query s = once st m key body query (before_attempt W (once st m key body query) s n)
    \<and> (\<forall>j < n. \<exists>e. fst (once st m key body query (before_attempt W (once st m key body query) s j)) = Inl e \<and> is_retryable e)
    \<and> (case fst (do_request W st m key body query s) of Inr _ \<Rightarrow> True | Inl e \<Rightarrow> is_retryable e \<longrightarrow> n = 2)"
proof -
  obtain n where n: "n < max_attempts" "do_request W st m key body query s
      = once st m key body query (before_attempt W (once st m key body query) s n)"
    "\<forall>j < n. \<exists>e. fst (once st m key body query (before_attempt W (once st m key body query) s j)) = Inl e \<and> is_retryable e"
    "case fst (once st m key body query (before_attempt W (once st m key body query) s n)) of Inr _ \<Rightarrow> True | Inl e \<Rightarrow> is_retryable e \<longrightarrow> Suc n = max_attempts"
    using attempts_from_trace [of 0 "once st m key body query" W s]
    by (simp add: once_def do_request_def max_attempts_def) blast
  show ?thesis
  proof (intro exI conjI)
    show "n < 3" using n(1) by (simp add: max_attempts_def)
    show "case fst (do_request W st m key body query s) of Inr _ \<Rightarrow> True | Inl e \<Rightarrow> is_retryable e \<longrightarrow> n = 2"
      using n(4) unfolding n(2) by (simp add: max_attempts_def split: sum.splits)
  qed (fact n(2,3))+
qed

end
