(* ===== verification/Bindings.thy ===== *)
theory Bindings
  imports AsyncSave S3
begin

text \<open>
  The classes Python sees (\<^verbatim>\<open>python.rs\<close>): what is taken from Python values, the configuration made of
  the arguments, and each method as the coordinator's call between two conversions. A Python value is
  what PyO3's conversions can tell of it.
\<close>

section \<open>Python values\<close>

text \<open>A tensor is what it answers: \<open>str(t.dtype)\<close>, \<open>t.device.type\<close> and so on.\<close>

record py_tensor =
  tn_shape :: "nat list"
  tn_dtype :: string
  tn_device :: string
  tn_contiguous :: bool
  tn_numel :: nat
  tn_data_ptr :: nat

text \<open>Of any other object: the name of its type, and its bytes when it lends a buffer.\<close>

datatype py_value = PyNone | PyStr string | PyInt int | PyBool bool | PyBytes bytes | PyByteArray bytes
  | PyTuple "py_value list" | PyList "py_value list" | PyDict "(py_value \<times> py_value) list"
  | PyTensor py_tensor | PyObject string "bytes option"

text \<open>The exceptions; \<open>ConversionErr\<close> are those PyO3 raises by itself.\<close>

datatype py_error = ValueErr string | TypeErr string | OSErr string | RuntimeErr string | ConversionErr string

type_synonym 'a py = "py_error + 'a"

definition py_bind :: "'a py \<Rightarrow> ('a \<Rightarrow> 'b py) \<Rightarrow> 'b py" where
  "py_bind r f = (case r of Inl e \<Rightarrow> Inl e | Inr x \<Rightarrow> f x)"

fun map_py :: "('a \<Rightarrow> 'b py) \<Rightarrow> 'a list \<Rightarrow> 'b list py" where
  "map_py f [] = Inr []"
| "map_py f (x # xs) = py_bind (f x) (\<lambda>y. py_bind (map_py f xs) (\<lambda>ys. Inr (y # ys)))"

text \<open>\<^verbatim>\<open>From<MoonclipError> for PyErr\<close>, and the two other ways an error is raised.\<close>

definition raised :: "'a result \<Rightarrow> 'a py" where
  "raised r = (case r of Inl e \<Rightarrow> Inl (RuntimeErr (error_text e)) | Inr x \<Rightarrow> Inr x)"

definition value_raised :: "'a result \<Rightarrow> 'a py" where
  "value_raised r = (case r of Inl e \<Rightarrow> Inl (ValueErr (error_text e)) | Inr x \<Rightarrow> Inr x)"

definition os_raised :: "'a result \<Rightarrow> 'a py" where
  "os_raised r = (case r of Inl e \<Rightarrow> Inl (OSErr (error_text e)) | Inr x \<Rightarrow> Inr x)"

section \<open>PyO3's conversions\<close>

fun extract_string :: "py_value \<Rightarrow> string py" where
  "extract_string (PyStr s) = Inr s"
| "extract_string v = Inl (ConversionErr ''not a str'')"

fun extract_uint :: "nat \<Rightarrow> py_value \<Rightarrow> nat py" where
  "extract_uint bits (PyInt i) = (if 0 \<le> i \<and> i < 2 ^ bits then Inr (nat i) else Inl (ConversionErr ''int out of range''))"
| "extract_uint bits (PyBool b) = Inr (of_bool b)"
| "extract_uint bits v = Inl (ConversionErr ''not an int'')"

fun extract_sizes :: "py_value \<Rightarrow> nat list py" where
  "extract_sizes (PyTuple vs) = map_py (extract_uint 64) vs"
| "extract_sizes (PyList vs) = map_py (extract_uint 64) vs"
| "extract_sizes v = Inl (ConversionErr ''not a sequence'')"

fun extract_bytes :: "py_value \<Rightarrow> bytes py" where
  "extract_bytes (PyBytes b) = Inr b"
| "extract_bytes (PyByteArray b) = Inr b"
| "extract_bytes (PyTuple vs) = py_bind (map_py (extract_uint 8) vs) (\<lambda>ns. Inr (map of_nat ns))"
| "extract_bytes (PyList vs) = py_bind (map_py (extract_uint 8) vs) (\<lambda>ns. Inr (map of_nat ns))"
| "extract_bytes (PyObject name (Some b)) = Inr b"
| "extract_bytes v = Inl (ConversionErr ''not bytes'')"

definition get_item :: "py_value list \<Rightarrow> nat \<Rightarrow> py_value py" where
  "get_item vs i = (if i < length vs then Inr (vs ! i) else Inl (ConversionErr ''tuple index out of range''))"

section \<open>Metadata and the cast policy\<close>

definition extract_metadata :: "(py_value \<times> py_value) list option \<Rightarrow> metadata py" where
  "extract_metadata md =
     (case md of
        None \<Rightarrow> Inr []
      | Some items \<Rightarrow> py_bind (map_py (\<lambda>(k, v). py_bind (extract_string k) (\<lambda>k'. py_bind (extract_string v) (\<lambda>v'. Inr (k', v')))) items)
          (\<lambda>kvs. Inr (fold (\<lambda>(k, v). AList.update k v) kvs [])))"

definition dtype_rule :: "py_value \<times> py_value \<Rightarrow> (string \<times> string) py" where
  "dtype_rule kv =
     (case kv of
        (PyStr pattern, PyStr d) \<Rightarrow> Inr (pattern, d)
      | (PyStr pattern, _) \<Rightarrow> Inl (TypeErr ''save_dtype must map to strings'')
      | _ \<Rightarrow> Inl (TypeErr ''save_dtype keys must be strings''))"

definition parse_save_dtype :: "py_value option \<Rightarrow> dtype_policy py" where
  "parse_save_dtype v =
     (case v of
        None \<Rightarrow> Inr []
      | Some PyNone \<Rightarrow> Inr []
      | Some (PyStr s) \<Rightarrow> raised (policy_parse s)
      | Some (PyDict items) \<Rightarrow> py_bind (map_py dtype_rule items) (\<lambda>rules. raised (policy_from_rules rules))
      | Some _ \<Rightarrow> Inl (TypeErr ''save_dtype must be a string or a dict''))"

section \<open>Tensors\<close>

definition get_element_size :: "string \<Rightarrow> nat py" where
  "get_element_size d =
     (if d \<in> {''torch.float32'', ''torch.int32''} then Inr 4
      else if d \<in> {''torch.float64'', ''torch.int64''} then Inr 8
      else if d \<in> {''torch.float16'', ''torch.bfloat16''} then Inr 2
      else if d \<in> {''torch.int16'', ''torch.uint16''} then Inr 2
      else if d = ''torch.uint32'' then Inr 4
      else if d = ''torch.uint64'' then Inr 8
      else if d \<in> {''torch.int8'', ''torch.uint8''} then Inr 1
      else if d = ''torch.bool'' then Inr 1
      else if d = ''torch.complex32'' then Inr 4
      else if d = ''torch.complex64'' then Inr 8
      else if d = ''torch.complex128'' then Inr 16
      else if d \<in> {''torch.float8_e4m3fn'', ''torch.float8_e5m2'', ''torch.float8_e4m3fnuz'', ''torch.float8_e5m2fnuz'',
          ''torch.float8_e8m0fnu'', ''torch.float8_e4m3b11fnuz''} then Inr 1
      else Inl (ValueErr (''unsupported dtype '' @ d)))"

text \<open>
  What is borrowed is read later: of a \<^verbatim>\<open>bytes\<close> object, which cannot change, its own bytes; of a tensor,
  what the memory holds at the address it gave.
\<close>

datatype pending_bytes = Owned bytes | BorrowedObject bytes | BorrowedMemory nat nat

record pending_tensor =
  pn_name :: string
  pn_shape :: "nat list"
  pn_dtype :: string
  pn_bytes :: pending_bytes

definition borrow_or_copy :: "py_value \<Rightarrow> pending_bytes py" where
  "borrow_or_copy v = (case v of PyBytes b \<Rightarrow> Inr (BorrowedObject b) | _ \<Rightarrow> py_bind (extract_bytes v) (\<lambda>b. Inr (Owned b)))"

definition torch_prefix :: string where
  "torch_prefix = ''torch.''"

definition plain_dtype :: "string \<Rightarrow> string" where
  "plain_dtype d = (if prefix torch_prefix d then drop (length torch_prefix) d else d)"

text \<open>The product is a \<^verbatim>\<open>usize\<close>: it wraps in a release build.\<close>

definition collect_tensor :: "py_value \<times> py_value \<Rightarrow> pending_tensor py" where
  "collect_tensor kv =
     (case kv of (key, v) \<Rightarrow>
       py_bind (extract_string key) (\<lambda>name.
         case v of
           PyTuple items \<Rightarrow>
             py_bind (py_bind (get_item items 0) extract_sizes) (\<lambda>shape.
             py_bind (py_bind (get_item items 1) extract_string) (\<lambda>d.
             py_bind (py_bind (get_item items 2) borrow_or_copy) (\<lambda>b.
               Inr \<lparr>pn_name = name, pn_shape = shape, pn_dtype = d, pn_bytes = b\<rparr>)))
         | PyTensor t \<Rightarrow>
             let d = plain_dtype (tn_dtype t) in
             if tn_device t \<noteq> ''cpu'' then Inl (ValueErr (''tensor '' @ name @ '' is on device '' @ tn_device t))
             else if \<not> tn_contiguous t then Inl (ValueErr (''tensor '' @ name @ '' is not contiguous''))
             else py_bind (get_element_size (torch_prefix @ d)) (\<lambda>element_size.
               Inr \<lparr>pn_name = name, pn_shape = tn_shape t, pn_dtype = d,
                    pn_bytes = BorrowedMemory (tn_data_ptr t) (tn_numel t * element_size mod 2 ^ 64)\<rparr>)
         | _ \<Rightarrow> Inl (TypeErr (''Value for '' @ name @ '' is not a supported type''))))"

definition collect_tensors :: "(py_value \<times> py_value) list \<Rightarrow> pending_tensor list py" where
  "collect_tensors = map_py collect_tensor"

text \<open>The copy, of a memory that stays as it is for the whole call.\<close>

fun pending_data :: "(nat \<Rightarrow> 8 word) \<Rightarrow> pending_bytes \<Rightarrow> bytes" where
  "pending_data mem (Owned b) = b"
| "pending_data mem (BorrowedObject b) = b"
| "pending_data mem (BorrowedMemory ptr len) = (if len = 0 then [] else map mem [ptr..<ptr + len])"

definition materialize_tensors :: "(nat \<Rightarrow> 8 word) \<Rightarrow> pending_tensor list \<Rightarrow> tensor_data list" where
  "materialize_tensors mem ps =
     map (\<lambda>p. \<lparr>td_name = pn_name p, td_shape = pn_shape p, td_dtype = pn_dtype p, td_data = pending_data mem (pn_bytes p)\<rparr>) ps"

section \<open>Descriptions\<close>

fun storage_name :: "tensor_storage \<Rightarrow> string" where
  "storage_name Full = ''full''"
| "storage_name DeltaXor = ''delta''"
| "storage_name Skipped = ''skipped''"
| "storage_name Alias = ''alias''"

definition py_size :: "nat \<Rightarrow> py_value" where
  "py_size n = PyInt (int n)"

definition py_option :: "('a \<Rightarrow> py_value) \<Rightarrow> 'a option \<Rightarrow> py_value" where
  "py_option f v = (case v of None \<Rightarrow> PyNone | Some x \<Rightarrow> f x)"

definition py_fields :: "(string \<times> py_value) list \<Rightarrow> py_value" where
  "py_fields kvs = PyDict (map (\<lambda>(k, v). (PyStr k, v)) kvs)"

definition metadata_dict :: "metadata \<Rightarrow> py_value" where
  "metadata_dict md = py_fields (map (\<lambda>(k, v). (k, PyStr v)) md)"

definition tensor_dict :: "tensor_description \<Rightarrow> py_value" where
  "tensor_dict t = py_fields
     [(''name'', PyStr (ds_name t)), (''shape'', PyList (map py_size (ds_shape t))), (''dtype'', PyStr (ds_dtype t)),
      (''stored_dtype'', PyStr (ds_stored_dtype t)), (''storage'', PyStr (storage_name (ds_storage t))),
      (''alias_of'', py_option PyStr (ds_alias_of t)), (''raw_size'', py_size (ds_raw_size t)),
      (''compressed_size'', py_size (ds_compressed_size t)), (''hash_raw'', PyStr (ds_hash_raw t))]"

text \<open>\<open>date\<close> is \<^verbatim>\<open>to_rfc3339\<close>.\<close>

definition description_dict :: "ext \<Rightarrow> (timestamp \<Rightarrow> string) \<Rightarrow> snapshot_description \<Rightarrow> py_value" where
  "description_dict X date d = py_fields
     [(''id'', PyStr (x_uuid_str X (sd_id d))), (''step'', py_size (sd_step d)), (''created_at'', PyStr (date (sd_created_at d))),
      (''is_delta'', PyBool (sd_is_delta d)),
      (''base_snapshot_id'', py_option (\<lambda>i. PyStr (x_uuid_str X i)) (sd_base_snapshot_id d)),
      (''rank'', py_size (sd_rank d)), (''ranks'', py_size (sd_ranks d)), (''metadata'', metadata_dict (sd_metadata d)),
      (''tensors'', PyList (map tensor_dict (sd_tensors d)))]"

definition info_dict :: "ext \<Rightarrow> snapshot_info \<Rightarrow> py_value" where
  "info_dict X s = py_fields
     [(''step'', py_size (si_step s)), (''id'', PyStr (x_uuid_str X (si_id s))), (''is_delta'', PyBool (si_is_delta s)),
      (''total_compressed'', py_size (si_total_compressed s)), (''total_raw'', py_size (si_total_raw s)),
      (''skipped_tensors'', py_size (si_skipped_tensors s)), (''delta_tensors'', py_size (si_delta_tensors s)),
      (''full_tensors'', py_size (si_full_tensors s)), (''ranks'', py_size (si_ranks s)), (''metadata'', metadata_dict (si_metadata s))]"

definition tensors_dict :: "(string \<times> bytes) list \<Rightarrow> py_value" where
  "tensors_dict out = py_fields (map (\<lambda>(n, d). (n, PyByteArray d)) out)"

section \<open>The manager's arguments\<close>

record manager_args =
  ma_compression_level :: int
  ma_max_full_snapshots :: nat
  ma_max_deltas_per_full :: nat
  ma_full_every_steps :: nat
  ma_delta_max_ratio :: f64
  ma_world_size :: nat
  ma_rank :: nat
  ma_merge_stride :: nat
  ma_merge_max_chain :: nat
  ma_rollback_interval_steps :: nat
  ma_max_rollback_snapshots :: nat
  ma_max_total_snapshots :: "nat option"
  ma_s3_bucket :: "string option"
  ma_s3_region :: string
  ma_s3_prefix :: string
  ma_s3_endpoint :: "string option"
  ma_s3_access_key :: "string option"
  ma_s3_secret_key :: "string option"
  ma_s3_path_style :: bool
  ma_sync_every_n_saves :: nat
  ma_save_dtype :: "py_value option"
  ma_async_save :: bool
  ma_keep_base_in_memory :: bool
  ma_s3_session_token :: "string option"

definition default_args :: manager_args where
  "default_args = \<lparr>ma_compression_level = 3, ma_max_full_snapshots = 5, ma_max_deltas_per_full = 10,
     ma_full_every_steps = 5000, ma_delta_max_ratio = f64_round (95 / 100), ma_world_size = 1, ma_rank = 0, ma_merge_stride = 0,
     ma_merge_max_chain = 10, ma_rollback_interval_steps = 10000, ma_max_rollback_snapshots = 3, ma_max_total_snapshots = None,
     ma_s3_bucket = None, ma_s3_region = ''us-east-1'', ma_s3_prefix = [], ma_s3_endpoint = None, ma_s3_access_key = None,
     ma_s3_secret_key = None, ma_s3_path_style = False, ma_sync_every_n_saves = 100, ma_save_dtype = None, ma_async_save = True,
     ma_keep_base_in_memory = True, ma_s3_session_token = None\<rparr>"

definition manager_config :: "manager_args \<Rightarrow> 'r coordinator_config py" where
  "manager_config a =
     py_bind (parse_save_dtype (ma_save_dtype a)) (\<lambda>policy.
       Inr \<lparr>cc_world_size = ma_world_size a, cc_rank = ma_rank a,
            cc_compression = (if ma_compression_level a = 0 then NoCompression else Zstd (ma_compression_level a)),
            cc_retention = \<lparr>rp_max_full_snapshots = ma_max_full_snapshots a, rp_max_deltas_per_full = ma_max_deltas_per_full a,
              rp_full_snapshot_every_steps = ma_full_every_steps a, rp_max_total_snapshots = ma_max_total_snapshots a\<rparr>,
            cc_lineage = \<lparr>lc_rollback_interval_steps = ma_rollback_interval_steps a, lc_max_rollback_snapshots = ma_max_rollback_snapshots a\<rparr>,
            cc_delta_max_ratio = ma_delta_max_ratio a,
            cc_merger = (if 0 < ma_merge_stride a then Some \<lparr>mc_stride = ma_merge_stride a, mc_max_chain_depth = ma_merge_max_chain a\<rparr> else None),
            cc_remote_storage = None, cc_remote_sync = None, cc_save_dtype = policy, cc_async_save = ma_async_save a,
            cc_keep_base_in_memory = ma_keep_base_in_memory a\<rparr>)"

text \<open>The bucket of a checkpoint store; keys that are not given come from the environment.\<close>

definition manager_bucket :: "(string \<Rightarrow> string option) \<Rightarrow> manager_args \<Rightarrow> string \<Rightarrow> s3_config py" where
  "manager_bucket var a bucket =
     py_bind (value_raised (resolve_with (ma_s3_access_key a) (ma_s3_secret_key a) (ma_s3_session_token a) var)) (\<lambda>keys.
       Inr (with_auto_path_style
         \<lparr>s3_bucket = bucket, s3_prefix = ma_s3_prefix a, s3_region = ma_s3_region a, s3_endpoint = ma_s3_endpoint a,
          s3_access_key = sc_access_key keys, s3_secret_key = sc_secret_key keys, s3_session_token = sc_session_token keys,
          s3_path_style = ma_s3_path_style a, s3_timeout_secs = 30, s3_single_put_limit = default_single_put_limit\<rparr>))"

text \<open>
  \<open>open_remote\<close> is \<^verbatim>\<open>S3Storage::new\<close> as a backend, \<open>dir\<close> the outcome of \<^verbatim>\<open>LocalStorage::new\<close>, which makes
  the directory of the store.
\<close>

definition manager_storage :: "(string \<Rightarrow> string option) \<Rightarrow> (s3_config \<Rightarrow> 'r backend result) \<Rightarrow> unit result \<Rightarrow> manager_args
    \<Rightarrow> 'r coordinator_config \<Rightarrow> 'r coordinator_config py" where
  "manager_storage var open_remote dir a cfg =
     (case ma_s3_bucket a of
        Some bucket \<Rightarrow>
          py_bind (manager_bucket var a bucket) (\<lambda>s3.
          py_bind (raised (open_remote s3)) (\<lambda>remote.
          py_bind (raised dir) (\<lambda>_.
            Inr (cfg\<lparr>cc_remote_storage := Some remote, cc_remote_sync := Some (ma_sync_every_n_saves a)\<rparr>))))
      | None \<Rightarrow> py_bind (raised dir) (\<lambda>_. Inr cfg))"

definition py_new :: "(string \<Rightarrow> string option) \<Rightarrow> (s3_config \<Rightarrow> 'r backend result) \<Rightarrow> unit result \<Rightarrow> 's backend \<Rightarrow> ext \<Rightarrow> 'r
    \<Rightarrow> manager_args \<Rightarrow> 's \<Rightarrow> ('r coordinator_config \<times> ('s, 'r) coordinator) py \<times> 's" where
  "py_new var open_remote dir B X remote a s =
     (case py_bind (manager_config a) (manager_storage var open_remote dir a) of
        Inl e \<Rightarrow> (Inl e, s)
      | Inr cfg \<Rightarrow> (case open_core B X cfg remote s of
          (r, s') \<Rightarrow> (py_bind (raised r) (\<lambda>c. Inr (cfg, new_coordinator cfg c)), s')))"

section \<open>The manager's methods\<close>

text \<open>A method is a coordinator's call: its errors are raised, its value is converted. \<open>None\<close> never returns.\<close>

type_synonym ('s, 'r, 'a) py_method = "('s, 'r) coordinator \<Rightarrow> ('a py \<times> ('s, 'r) coordinator) option"

definition answer :: "('a \<Rightarrow> 'b) \<Rightarrow> ('a result \<times> 'c) option \<Rightarrow> ('b py \<times> 'c) option" where
  "answer f = map_option (\<lambda>(r, cd). (py_bind (raised r) (\<lambda>x. Inr (f x)), cd))"

definition with_arg :: "'a py \<Rightarrow> ('a \<Rightarrow> ('s, 'r, 'b) py_method) \<Rightarrow> ('s, 'r, 'b) py_method" where
  "with_arg v f cd = (case v of Inl e \<Rightarrow> Some (Inl e, cd) | Inr x \<Rightarrow> f x cd)"

definition parse_snap_id :: "ext \<Rightarrow> string \<Rightarrow> uuid py" where
  "parse_snap_id X s = (case x_parse_uuid X s of None \<Rightarrow> Inl (ValueErr ''not a uuid'') | Some i \<Rightarrow> Inr i)"

definition py_save_tensors :: "'s backend \<Rightarrow> ext \<Rightarrow> 'r coordinator_config \<Rightarrow> ('s, 'r) save_env \<Rightarrow> (nat \<Rightarrow> 8 word) \<Rightarrow> nat \<Rightarrow> uuid
    \<Rightarrow> nat \<Rightarrow> (py_value \<times> py_value) list \<Rightarrow> (py_value \<times> py_value) list option \<Rightarrow> ('s, 'r, string) py_method" where
  "py_save_tensors B X cfg env mem waited snap_id step tensors md =
     with_arg (collect_tensors tensors) (\<lambda>ps. with_arg (extract_metadata md) (\<lambda>meta cd.
       answer (x_uuid_str X) (save B X cfg env waited snap_id step (materialize_tensors mem ps) meta cd)))"

definition py_create_snapshot :: "'s backend \<Rightarrow> ext \<Rightarrow> 'r coordinator_config \<Rightarrow> ('s, 'r) save_env \<Rightarrow> uuid \<Rightarrow> nat
    \<Rightarrow> (py_value \<times> py_value) list option \<Rightarrow> ('s, 'r, string) py_method" where
  "py_create_snapshot B X cfg env snap_id step md =
     with_arg (extract_metadata md) (\<lambda>meta cd. answer (x_uuid_str X) (cd_create_snapshot B X cfg env snap_id step meta cd))"

definition py_save_rank :: "'s backend \<Rightarrow> ext \<Rightarrow> 'r coordinator_config \<Rightarrow> ('s, 'r) save_env \<Rightarrow> (nat \<Rightarrow> 8 word) \<Rightarrow> string
    \<Rightarrow> (py_value \<times> py_value) list \<Rightarrow> ('s, 'r, unit) py_method" where
  "py_save_rank B X cfg env mem snap tensors =
     with_arg (parse_snap_id X snap) (\<lambda>i. with_arg (collect_tensors tensors) (\<lambda>ps cd.
       answer (\<lambda>_. ()) (cd_save_rank B X cfg env i (materialize_tensors mem ps) cd)))"

definition py_finalize_snapshot :: "'s backend \<Rightarrow> ext \<Rightarrow> 'r coordinator_config \<Rightarrow> ('s, 'r) save_env \<Rightarrow> string \<Rightarrow> ('s, 'r, unit) py_method" where
  "py_finalize_snapshot B X cfg env snap =
     with_arg (parse_snap_id X snap) (\<lambda>i cd. answer (\<lambda>_. ()) (cd_finalize_snapshot B X cfg env i cd))"

definition py_flush :: "'s backend \<Rightarrow> ext \<Rightarrow> 'r coordinator_config \<Rightarrow> ('s, 'r) save_env \<Rightarrow> ('s, 'r, unit) py_method" where
  "py_flush B X cfg env cd = answer (\<lambda>_. ()) (flush B X cfg env cd)"

definition py_load :: "'s backend \<Rightarrow> ext \<Rightarrow> 'r coordinator_config \<Rightarrow> ('s, 'r) save_env \<Rightarrow> (('s, 'r) core \<Rightarrow> ('s, 'r) core) \<Rightarrow> string
    \<Rightarrow> ('s, 'r, py_value) py_method" where
  "py_load B X cfg env meanwhile snap =
     with_arg (parse_snap_id X snap) (\<lambda>i cd. answer tensors_dict (cd_load B X cfg env meanwhile i cd))"

definition py_load_latest :: "'s backend \<Rightarrow> ext \<Rightarrow> 'r coordinator_config \<Rightarrow> ('s, 'r) save_env \<Rightarrow> (('s, 'r) core \<Rightarrow> ('s, 'r) core)
    \<Rightarrow> ('s, 'r, py_value) py_method" where
  "py_load_latest B X cfg env meanwhile cd =
     answer (\<lambda>(i, out). PyTuple [PyStr (x_uuid_str X i), tensors_dict out]) (cd_load_latest B X cfg env meanwhile cd)"

definition py_load_tensors :: "'s backend \<Rightarrow> ext \<Rightarrow> 'r coordinator_config \<Rightarrow> ('s, 'r) save_env \<Rightarrow> string \<Rightarrow> string list
    \<Rightarrow> ('s, 'r, py_value) py_method" where
  "py_load_tensors B X cfg env snap names =
     with_arg (parse_snap_id X snap) (\<lambda>i cd. answer tensors_dict (cd_load_tensors B X cfg env i names cd))"

definition py_describe :: "'s backend \<Rightarrow> ext \<Rightarrow> 'r coordinator_config \<Rightarrow> ('s, 'r) save_env \<Rightarrow> (timestamp \<Rightarrow> string) \<Rightarrow> string
    \<Rightarrow> ('s, 'r, py_value) py_method" where
  "py_describe B X cfg env date snap =
     with_arg (parse_snap_id X snap) (\<lambda>i cd. answer (description_dict X date) (cd_describe B X cfg env i cd))"

definition py_describe_latest :: "'s backend \<Rightarrow> ext \<Rightarrow> 'r coordinator_config \<Rightarrow> ('s, 'r) save_env \<Rightarrow> (timestamp \<Rightarrow> string)
    \<Rightarrow> ('s, 'r, py_value) py_method" where
  "py_describe_latest B X cfg env date cd = answer (description_dict X date) (cd_describe_latest B X cfg env cd)"

definition py_list_snapshots :: "'s backend \<Rightarrow> ext \<Rightarrow> 'r coordinator_config \<Rightarrow> ('s, 'r) save_env \<Rightarrow> ('s, 'r, py_value list) py_method" where
  "py_list_snapshots B X cfg env cd =
     map_option (\<lambda>(snaps, cd'). (Inr (map (info_dict X) snaps), cd')) (cd_list_snapshots B X cfg env cd)"

definition py_merge_now :: "bool \<Rightarrow> bool \<Rightarrow> 's backend \<Rightarrow> ext \<Rightarrow> 'r coordinator_config \<Rightarrow> ('s, 'r) save_env \<Rightarrow> 's merge_env list
    \<Rightarrow> ('s, 'r, unit) py_method" where
  "py_merge_now alive answers_ok B X cfg env envs cd = answer (\<lambda>_. ()) (cd_merge_now alive answers_ok B X cfg env envs cd)"

definition py_restore_from_remote :: "'s backend \<Rightarrow> ext \<Rightarrow> 'r coordinator_config \<Rightarrow> ('s, 'r) save_env \<Rightarrow> ('s, 'r, bool) py_method" where
  "py_restore_from_remote B X cfg env cd = answer (\<lambda>b. b) (cd_restore_from_remote B X cfg env cd)"

definition py_sync_now :: "bool \<Rightarrow> bool \<Rightarrow> 's backend \<Rightarrow> ext \<Rightarrow> 'r coordinator_config \<Rightarrow> ('s, 'r) save_env \<Rightarrow> ('s, 'r, unit) py_method" where
  "py_sync_now alive answers_ok B X cfg env cd = answer (\<lambda>_. ()) (cd_sync_now alive answers_ok B X cfg env cd)"

text \<open>The calls that do not wait for the background save.\<close>

definition py_sync_prefix :: "bool \<Rightarrow> string \<Rightarrow> ('s, 'r, unit) py_method" where
  "py_sync_prefix alive pre cd = (case core_sync_prefix alive pre (cd_core cd) of (r, c') \<Rightarrow> Some (raised r, cd\<lparr>cd_core := c'\<rparr>))"

definition py_pin :: "'s backend \<Rightarrow> ext \<Rightarrow> nat \<Rightarrow> ('s, 'r, bool) py_method" where
  "py_pin B X step cd = (case core_set_pinned B X step True (cd_core cd) of (r, c') \<Rightarrow> Some (raised r, cd\<lparr>cd_core := c'\<rparr>))"

definition py_unpin :: "'s backend \<Rightarrow> ext \<Rightarrow> nat \<Rightarrow> ('s, 'r, bool) py_method" where
  "py_unpin B X step cd = (case core_set_pinned B X step False (cd_core cd) of (r, c') \<Rightarrow> Some (raised r, cd\<lparr>cd_core := c'\<rparr>))"

definition py_pinned_steps :: "'s backend \<Rightarrow> ext \<Rightarrow> ('s, 'r, nat list) py_method" where
  "py_pinned_steps B X cd = (case core_pinned_steps B X (cd_core cd) of (steps, c') \<Rightarrow> Some (Inr steps, cd\<lparr>cd_core := c'\<rparr>))"

section \<open>A bucket by itself\<close>

definition bucket_config :: "(string \<Rightarrow> string option) \<Rightarrow> string \<Rightarrow> string \<Rightarrow> string option \<Rightarrow> string option \<Rightarrow> bool option
    \<Rightarrow> string option \<Rightarrow> string option \<Rightarrow> string option \<Rightarrow> nat \<Rightarrow> s3_config py" where
  "bucket_config var bucket pre endpoint region path_style access secret session timeout =
     py_bind (value_raised (resolve_with access secret session var)) (\<lambda>keys.
       let cfg = \<lparr>s3_bucket = bucket, s3_prefix = pre, s3_region = (case region of Some r \<Rightarrow> r | None \<Rightarrow> ''us-east-1''),
            s3_endpoint = endpoint, s3_access_key = sc_access_key keys, s3_secret_key = sc_secret_key keys,
            s3_session_token = sc_session_token keys, s3_path_style = (path_style = Some True), s3_timeout_secs = timeout,
            s3_single_put_limit = default_single_put_limit\<rparr>
       in Inr (if path_style = None then with_auto_path_style cfg else cfg))"

definition bucket_new :: "('u, 'b, 's) s3_world \<Rightarrow> s3_config py \<Rightarrow> 'b s3_storage py" where
  "bucket_new W cfg = py_bind cfg (\<lambda>c. value_raised (new_s3 W c))"

definition bucket_get :: "('u, 'b, 's) s3_world \<Rightarrow> 'b s3_storage \<Rightarrow> string \<Rightarrow> 's \<Rightarrow> bytes option py \<times> 's" where
  "bucket_get W st path s =
     (case s3_get W st path s of
        (Inr d, s') \<Rightarrow> (Inr (Some d), s')
      | (Inl (NotFound p), s') \<Rightarrow> (Inr None, s')
      | (Inl e, s') \<Rightarrow> (Inl (OSErr (error_text e)), s'))"

definition bucket_put :: "('u, 'b, 's) s3_world \<Rightarrow> 'b s3_storage \<Rightarrow> string \<Rightarrow> bytes \<Rightarrow> 's \<Rightarrow> unit py \<times> 's" where
  "bucket_put W st path data s = (case s3_put W st path data s of (r, s') \<Rightarrow> (os_raised r, s'))"

definition bucket_list :: "('u, 'b, 's) s3_world \<Rightarrow> 'b s3_storage \<Rightarrow> string \<Rightarrow> 's \<Rightarrow> (string list py \<times> 's) option" where
  "bucket_list W st pre s = map_option (\<lambda>(r, s'). (os_raised r, s')) (s3_list W st pre s)"

section \<open>What is read of a process's memory\<close>

lemma py_bind_Inr: "py_bind r f = Inr y \<longleftrightarrow> (\<exists>x. r = Inr x \<and> f x = Inr y)"
  by (simp add: py_bind_def split: sum.splits)

lemma map_py_Inr: "map_py f xs = Inr ys \<Longrightarrow> length ys = length xs \<and> (\<forall>k < length xs. f (xs ! k) = Inr (ys ! k))"
proof (induction xs arbitrary: ys)
  case (Cons x xs)
  then obtain y zs where "f x = Inr y" "map_py f xs = Inr zs" "ys = y # zs" by (auto simp: py_bind_Inr)
  with Cons.IH show ?case by (auto simp: less_Suc_eq_0_disj)
qed simp

lemma get_item_Inr: "get_item vs i = Inr v \<longleftrightarrow> i < length vs \<and> v = vs ! i"
  by (auto simp: get_item_def)

text \<open>An item that is taken.\<close>

lemma collected_item:
  assumes "collect_tensor (key, v) = Inr p"
  shows "key = PyStr (pn_name p) \<and> (case pn_bytes p of
      BorrowedMemory ptr len \<Rightarrow> \<exists>t n. v = PyTensor t \<and> tn_device t = ''cpu'' \<and> tn_contiguous t
        \<and> pn_shape p = tn_shape t \<and> pn_dtype p = plain_dtype (tn_dtype t) \<and> get_element_size (torch_prefix @ pn_dtype p) = Inr n
        \<and> ptr = tn_data_ptr t \<and> len = tn_numel t * n mod 2 ^ 64
    | BorrowedObject b \<Rightarrow> \<exists>sh rest. v = PyTuple (sh # PyStr (pn_dtype p) # PyBytes b # rest) \<and> extract_sizes sh = Inr (pn_shape p)
    | Owned b \<Rightarrow> \<exists>sh w rest. v = PyTuple (sh # PyStr (pn_dtype p) # w # rest) \<and> extract_sizes sh = Inr (pn_shape p)
        \<and> extract_bytes w = Inr b)"
proof -
  have key: "extract_string k = Inr name \<longleftrightarrow> k = PyStr name" for k name by (cases k) auto
  show ?thesis
  proof (cases v)
    case (PyTuple items)
    then obtain sh d w bs where i: "length items > 2" "extract_sizes (items ! 0) = Inr sh" "items ! 1 = PyStr d"
        "items ! 2 = w" "borrow_or_copy w = Inr bs" "key = PyStr (pn_name p)" "pn_shape p = sh" "pn_dtype p = d" "pn_bytes p = bs"
      using assms by (auto simp: collect_tensor_def py_bind_Inr get_item_Inr key)
    then obtain a rest where "items = a # PyStr d # w # rest" "extract_sizes a = Inr sh"
      by (cases items; cases "tl items"; cases "tl (tl items)") auto
    moreover have "(\<exists>b. pn_bytes p = BorrowedObject b \<and> w = PyBytes b) \<or> (\<exists>b. pn_bytes p = Owned b \<and> extract_bytes w = Inr b)"
      using i(5) unfolding i(9) by (cases w) (auto simp: borrow_or_copy_def py_bind_def split: sum.splits)
    ultimately show ?thesis using i(6,7,8) PyTuple by (elim disjE exE) auto
  next
    case (PyTensor t)
    with assms show ?thesis by (auto simp: collect_tensor_def py_bind_Inr key Let_def split: if_splits)
  qed (use assms in \<open>auto simp: collect_tensor_def py_bind_Inr\<close>)
qed

text \<open>
  C26. The raw read of the bindings stays inside what Python said it may read. When the collection of a
  dictionary succeeds, every item of it is there, under its own name and in its order, and memory
  is borrowed by address only from a tensor that is on the CPU and contiguous and has a dtype of
  known size, and then exactly its elements; of a tuple, \<^verbatim>\<open>bytes\<close>, which cannot change, are borrowed
  and everything else was copied before.
\<close>

theorem reads_host_memory:
  assumes "collect_tensors kvs = Inr ps" and "k < length kvs"
  shows "length ps = length kvs \<and> fst (kvs ! k) = PyStr (pn_name (ps ! k)) \<and> (case pn_bytes (ps ! k) of
      BorrowedMemory ptr len \<Rightarrow> \<exists>t n. snd (kvs ! k) = PyTensor t \<and> tn_device t = ''cpu'' \<and> tn_contiguous t
        \<and> pn_shape (ps ! k) = tn_shape t \<and> pn_dtype (ps ! k) = plain_dtype (tn_dtype t)
        \<and> get_element_size (torch_prefix @ pn_dtype (ps ! k)) = Inr n \<and> ptr = tn_data_ptr t \<and> len = tn_numel t * n mod 2 ^ 64
    | BorrowedObject b \<Rightarrow> \<exists>sh rest. snd (kvs ! k) = PyTuple (sh # PyStr (pn_dtype (ps ! k)) # PyBytes b # rest)
        \<and> extract_sizes sh = Inr (pn_shape (ps ! k))
    | Owned b \<Rightarrow> \<exists>sh w rest. snd (kvs ! k) = PyTuple (sh # PyStr (pn_dtype (ps ! k)) # w # rest)
        \<and> extract_sizes sh = Inr (pn_shape (ps ! k)) \<and> extract_bytes w = Inr b)"
proof -
  have "length ps = length kvs" "collect_tensor (kvs ! k) = Inr (ps ! k)"
    using map_py_Inr assms unfolding collect_tensors_def by blast+
  with collected_item [of "fst (kvs ! k)" "snd (kvs ! k)"] show ?thesis by simp
qed

definition sample_items :: "(py_value \<times> py_value) list" where
  "sample_items = [(PyStr ''w'', PyTensor \<lparr>tn_shape = [2], tn_dtype = ''torch.float32'', tn_device = ''cpu'', tn_contiguous = True,
     tn_numel = 2, tn_data_ptr = 64\<rparr>), (PyStr ''b'', PyTuple [PyList [PyInt 1], PyStr ''uint8'', PyBytes [7]])]"

definition sample_pending :: "pending_tensor list" where
  "sample_pending = [\<lparr>pn_name = ''w'', pn_shape = [2], pn_dtype = ''float32'', pn_bytes = BorrowedMemory 64 8\<rparr>,
     \<lparr>pn_name = ''b'', pn_shape = [1], pn_dtype = ''uint8'', pn_bytes = BorrowedObject [7]\<rparr>]"

lemma sample_collected: "collect_tensors sample_items = Inr sample_pending"
  by (simp add: collect_tensors_def sample_items_def sample_pending_def collect_tensor_def py_bind_def get_item_def borrow_or_copy_def
      plain_dtype_def torch_prefix_def get_element_size_def)

theorem reads_host_memory_witness:
  "\<exists>t n. snd (sample_items ! 0) = PyTensor t \<and> tn_device t = ''cpu'' \<and> tn_contiguous t \<and> 8 = tn_numel t * n mod 2 ^ 64"
  using reads_host_memory [OF sample_collected, of 0] by (auto simp: sample_items_def sample_pending_def)

section \<open>Types of what was read\<close>

lemma castable_size:
  assumes "is_castable_float d"
  shows "get_element_size (torch_prefix @ d) = Inr (item_size d)"
proof -
  have "get_element_size ''torch.float32'' = Inr 4" "get_element_size ''torch.float64'' = Inr 8"
    "get_element_size ''torch.float16'' = Inr 2" "get_element_size ''torch.bfloat16'' = Inr 2"
    by (simp_all add: get_element_size_def)
  moreover have "item_size ''float32'' = 4" "item_size ''float64'' = 8" "item_size ''float16'' = 2" "item_size ''bfloat16'' = 2"
    by (simp_all add: item_size_def fp8_format_for_def float_size_def)
  ultimately show ?thesis using assms unfolding is_castable_float_def torch_prefix_def by (elim disjE) simp_all
qed

lemma working_typed:
  assumes "is_castable_float (td_dtype td)" and "length (td_data td) = n * item_size (td_dtype td)"
  shows "\<exists>w d q. working_copy td policy = Inr (w, d, q) \<and> length w = n * item_size d \<and> (q = None \<longleftrightarrow> fp8_format_for d = None)
    \<and> (\<exists>restored. uncast_tensor w d (td_dtype td) q = Inr restored \<and> length restored = length (td_data td))"
proof (cases "for_tensor policy (td_name td) = DTypeNone")
  case True
  have "fp8_format_for (td_dtype td) = None" using assms(1) by (auto simp: is_castable_float_def fp8_format_for_def)
  then show ?thesis using True assms by (simp add: working_copy_def uncast_tensor_def)
next
  case False
  let ?target = "for_tensor policy (td_name td)"
  obtain w q where c: "cast_tensor (td_data td) (td_dtype td) ?target = Inr (w, stored_as (td_dtype td) ?target, q)"
      "length w = n * item_size (stored_as (td_dtype td) ?target)" "q = None \<longleftrightarrow> fp8_format_for (stored_as (td_dtype td) ?target) = None"
    using cast_items [OF assms] by blast
  moreover have "working_copy td policy = cast_tensor (td_data td) (td_dtype td) ?target"
    using False assms(1) by (simp add: working_copy_def Let_def)
  ultimately show ?thesis using uncast_of_cast [OF c(1)] by metis
qed

text \<open>
  C25. A float tensor that Python hands over is well typed, and saving it cannot fail on its type: the
  copy has its name and shape and the bytes of its \<^verbatim>\<open>numel\<close> elements from its address, and under every
  cast policy the working copy exists, is as many elements of the dtype that is recorded, has a
  scale exactly when that is float8, and casts back to as many bytes as were read.
\<close>

theorem direct_tensors_typed:
  assumes "collect_tensors kvs = Inr ps" and "k < length kvs" and "kvs ! k = (PyStr name, PyTensor t)"
    and "is_castable_float (plain_dtype (tn_dtype t))" and "tn_numel t * item_size (plain_dtype (tn_dtype t)) < 2 ^ 64"
  shows "\<exists>td. materialize_tensors mem ps ! k = td \<and> td_name td = name \<and> td_shape td = tn_shape t
    \<and> td_dtype td = plain_dtype (tn_dtype t)
    \<and> td_data td = map mem [tn_data_ptr t..<tn_data_ptr t + tn_numel t * item_size (td_dtype td)]
    \<and> (\<exists>w d q restored. working_copy td policy = Inr (w, d, q) \<and> length w = tn_numel t * item_size d
         \<and> (q = None \<longleftrightarrow> fp8_format_for d = None)
         \<and> uncast_tensor w d (td_dtype td) q = Inr restored \<and> length restored = length (td_data td))"
proof -
  have got: "length ps = length kvs" "collect_tensor (PyStr name, PyTensor t) = Inr (ps ! k)"
    using map_py_Inr assms(1-3) unfolding collect_tensors_def by metis+
  let ?d = "plain_dtype (tn_dtype t)"
  have p: "ps ! k = \<lparr>pn_name = name, pn_shape = tn_shape t, pn_dtype = ?d, pn_bytes = BorrowedMemory (tn_data_ptr t) (tn_numel t * item_size ?d)\<rparr>"
    using got(2) castable_size [OF assms(4)] assms(5) by (auto simp: collect_tensor_def py_bind_def Let_def split: if_splits)
  define td where "td = materialize_tensors mem ps ! k"
  have td: "td = \<lparr>td_name = name, td_shape = tn_shape t, td_dtype = ?d,
      td_data = map mem [tn_data_ptr t..<tn_data_ptr t + tn_numel t * item_size ?d]\<rparr>"
    using assms(2) got(1) p by (simp add: td_def materialize_tensors_def)
  have "\<exists>w d q. working_copy td policy = Inr (w, d, q) \<and> length w = tn_numel t * item_size d \<and> (q = None \<longleftrightarrow> fp8_format_for d = None)
    \<and> (\<exists>restored. uncast_tensor w d (td_dtype td) q = Inr restored \<and> length restored = length (td_data td))"
    by (rule working_typed) (use td assms(4) in simp_all)
  with td td_def show ?thesis by auto
qed

theorem direct_tensors_typed_witness:
  "\<exists>td w d q. materialize_tensors (\<lambda>_. 0) sample_pending ! 0 = td \<and> td_data td = [0, 0, 0, 0, 0, 0, 0, 0]
     \<and> working_copy td [([star], Float8E4M3)] = Inr (w, d, q) \<and> length w = 2 * item_size d"
proof -
  let ?t = "\<lparr>tn_shape = [2], tn_dtype = ''torch.float32'', tn_device = ''cpu'', tn_contiguous = True, tn_numel = 2, tn_data_ptr = 64\<rparr>"
  have "plain_dtype (tn_dtype ?t) = ''float32''" by (simp add: plain_dtype_def torch_prefix_def)
  moreover have "item_size ''float32'' = 4" by (simp add: item_size_def fp8_format_for_def float_size_def)
  ultimately show ?thesis
    using direct_tensors_typed [OF sample_collected, of 0 "''w''" ?t "\<lambda>_. 0" "[([star], Float8E4M3)]"]
    by (simp add: sample_items_def is_castable_float_def) blast
qed

section \<open>The cast policy asked for\<close>

text \<open>What the argument says of one tensor: the dtype itself, or the first pattern, in order, that matches.\<close>

fun asked_dtype :: "py_value option \<Rightarrow> string \<Rightarrow> dtype result" where
  "asked_dtype (Some (PyStr d)) name = parse_dtype d"
| "asked_dtype (Some (PyDict items)) name =
     (case find (\<lambda>(k, _). case k of PyStr p \<Rightarrow> glob_spec p name | _ \<Rightarrow> False) items of
        Some (_, PyStr d) \<Rightarrow> parse_dtype d | _ \<Rightarrow> Inr DTypeNone)"
| "asked_dtype v name = Inr DTypeNone"

lemma rules_asked:
  assumes "map_py dtype_rule items = Inr rules" and "policy_from_rules rules = Inr policy"
  shows "asked_dtype (Some (PyDict items)) name = Inr (for_tensor policy name)"
  using assms
proof (induction items arbitrary: rules policy)
  case Nil
  then show ?case by (simp add: policy_from_rules_def)
next
  case (Cons kv items)
  obtain rule rest where r: "dtype_rule kv = Inr rule" "map_py dtype_rule items = Inr rest" "rules = rule # rest"
    using Cons.prems(1) by (auto simp: py_bind_Inr)
  obtain p d where kv: "kv = (PyStr p, PyStr d)" "rule = (p, d)"
    using r(1) by (auto simp: dtype_rule_def split: prod.splits py_value.splits)
  obtain t others where t: "parse_dtype d = Inr t" "policy_from_rules rest = Inr others" "policy = (p, t) # others"
    using Cons.prems(2) r(3) kv(2) by (auto simp: policy_from_rules_def bind_res_Inr_iff split: if_splits)
  from Cons.IH [OF r(2) t(2)] show ?case
    using kv t(1,3) by (simp add: glob_match_spec)
qed

text \<open>
  C38. The policy does what its text says: when \<^verbatim>\<open>save_dtype\<close> is accepted, every tensor is cast to the
  dtype of the string, or of the first pattern of the mapping, in the order it was written, that
  matches the tensor's name, and is not cast when none does or nothing was given; nothing else is
  accepted, in particular no object that is not text.
\<close>

theorem save_dtype_in_order:
  "case parse_save_dtype v of
     Inr policy \<Rightarrow> asked_dtype v name = Inr (for_tensor policy name)
       \<and> (case v of None \<Rightarrow> True | Some PyNone \<Rightarrow> True | Some (PyStr s) \<Rightarrow> True
          | Some (PyDict items) \<Rightarrow> list_all (\<lambda>(k, d). (\<exists>p. k = PyStr p) \<and> (\<exists>s. d = PyStr s)) items | _ \<Rightarrow> False)
   | Inl e \<Rightarrow> (\<exists>msg. e = TypeErr msg) \<or> (\<exists>msg. e = RuntimeErr msg)"
proof (cases "\<exists>items. v = Some (PyDict items)")
  case True
  then obtain items where v: "v = Some (PyDict items)" by blast
  have rule: "dtype_rule kv = Inr r \<Longrightarrow> (\<exists>p s. kv = (PyStr p, PyStr s))" "dtype_rule kv = Inl e \<Longrightarrow> \<exists>msg. e = TypeErr msg" for kv r e
    by (auto simp: dtype_rule_def split: prod.splits py_value.splits)
  show ?thesis
  proof (cases "map_py dtype_rule items")
    case (Inl e)
    have "\<exists>msg. e = TypeErr msg" using Inl
      by (induction items) (auto simp: py_bind_def dest: rule(2) split: sum.splits)
    with v Inl show ?thesis by (simp add: parse_save_dtype_def py_bind_def)
  next
    case (Inr rules)
    have texts: "list_all (\<lambda>(k, d). (\<exists>p. k = PyStr p) \<and> (\<exists>s. d = PyStr s)) items" using Inr
      by (induction items arbitrary: rules) (auto simp: py_bind_Inr dest!: rule(1))
    show ?thesis
    proof (cases "policy_from_rules rules")
      case (Inl e)
      with v Inr show ?thesis by (simp add: parse_save_dtype_def py_bind_def raised_def)
    next
      case parsed: (Inr policy)
      with v Inr rules_asked [OF Inr parsed] texts show ?thesis
        by (simp add: parse_save_dtype_def py_bind_def raised_def del: asked_dtype.simps)
    qed
  qed
next
  case False
  then show ?thesis
    by (auto simp: parse_save_dtype_def raised_def policy_parse_def bind_res_Inr_iff for_tensor_uniform
        split: option.splits py_value.splits sum.splits)
qed

end
