(* ===== verification/GroupSave.thy ===== *)
theory GroupSave
  imports TrainingRun
begin

text \<open>
  Saving with many ranks: each writes its pack, and rank 0 closes the snapshot from the packs it finds.
  Nothing of it goes through a manifest more than one process writes.
\<close>

section \<open>Collecting the ranks\<close>

lemma read_shard_described:
  "read_descriptor B X s path = Some d \<Longrightarrow> pd_snapshot_id d = i \<Longrightarrow> read_shard B X s i path = Inr d"
  by (auto simp: read_descriptor_def read_shard_def serialization_def split: sum.splits option.splits prod.splits if_splits)

lemma map_res_map: "(\<And>k. k \<in> set ks \<Longrightarrow> f (p k) = Inr (d k)) \<Longrightarrow> map_res f (map p ks) = Inr (map d ks)"
  by (induction ks) auto

lemma map_of_described:
  assumes "\<And>k. k \<in> set ks \<Longrightarrow> re_rank (pd_rank (d k)) = k"
  shows "map_of (fold (\<lambda>d. AList.update (re_rank (pd_rank d)) (pd_rank d)) (map d ks) acc) k
    = (if k \<in> set ks then Some (pd_rank (d k)) else map_of acc k)"
  using assms by (induction ks arbitrary: acc) (auto simp: update_conv')

lemma described_distinct: "distinct (map fst (ranks_described ds))"
proof -
  have "distinct (map fst (fold (\<lambda>d. AList.update (re_rank (pd_rank d)) (pd_rank d)) ds acc))"
    if "distinct (map fst acc)" for acc
    using that by (induction ds arbitrary: acc) (simp_all add: distinct_update)
  then show ?thesis by (simp add: ranks_described_def)
qed

lemma update_from: "(k, v) \<in> set (AList.update a b al) \<Longrightarrow> (k, v) = (a, b) \<or> (k, v) \<in> set al"
  by (induction al) (auto split: if_splits)

lemma described_from:
  assumes "(k, re) \<in> set (ranks_described ds)"
  shows "\<exists>d \<in> set ds. pd_rank d = re \<and> re_rank re = k"
proof -
  have "(k, re) \<in> set acc \<or> (\<exists>d \<in> set ds. pd_rank d = re \<and> re_rank re = k)"
    if "(k, re) \<in> set (fold (\<lambda>d. AList.update (re_rank (pd_rank d)) (pd_rank d)) ds acc)" for acc
    using that by (induction ds arbitrary: acc) (auto dest: update_from)
  from this [of "[]"] show ?thesis using assms by (simp add: ranks_described_def)
qed

lemma map_res_from: "map_res f xs = Inr ys \<Longrightarrow> y \<in> set ys \<Longrightarrow> \<exists>x \<in> set xs. f x = Inr y"
  by (induction xs arbitrary: ys) (auto simp: bind_res_Inr_iff)

lemma read_shard_id: "read_shard B X s i path = Inr d \<Longrightarrow> pd_snapshot_id d = i"
  by (auto simp: read_shard_def bind_res_Inr_iff split: if_splits)

text \<open>A rank's save, its pack as it is \<open>now\<close>.\<close>

definition wrote_shard :: "'s backend \<Rightarrow> ('s \<Rightarrow> string \<Rightarrow> bytes option) \<Rightarrow> ext \<Rightarrow> 'r coordinator_config \<Rightarrow> uuid
    \<Rightarrow> snapshot option \<Rightarrow> snapshot_context \<Rightarrow> tensor_data list \<Rightarrow> (string \<Rightarrow> bytes option) \<Rightarrow> rank_entry \<Rightarrow> bool" where
  "wrote_shard B contents X cfg i base cx ts now re \<longleftrightarrow> distinct (map td_name ts)
     \<and> (\<exists>s ret s1 ret1. save_rank_tensors B X cfg i (snapshot_dir X i) base ts cx (s, ret) = (Inr re, (s1, ret1))
          \<and> now (pack_path X cfg i) = contents s1 (pack_path X cfg i))
     \<and> json_ok (x_descriptor X) (make_descriptor cfg i base cx re)
     \<and> (\<forall>c. now (pack_path X cfg i) = Some c \<longrightarrow> length c < 2 ^ 64)"

lemma pack_path_rank [simp]: "pack_path X cfg i = pack_path X cfg' i \<longleftrightarrow> cc_rank cfg = cc_rank cfg'"
  by (auto simp: pack_path_def rank_pack_path_def)

context reliable_backend
begin

lemma wrote_shard_read:
  assumes "wrote_shard B contents X cfg i base cx ts (contents t) re"
  shows "read_shard B X t i (pack_path X cfg i) = Inr (make_descriptor cfg i base cx re) \<and> re_rank re = cc_rank cfg"
proof -
  obtain s ret s1 ret1 where w: "save_rank_tensors B X cfg i (snapshot_dir X i) base ts cx (s, ret) = (Inr re, (s1, ret1))"
      "contents t (pack_path X cfg i) = contents s1 (pack_path X cfg i)"
    and small: "\<And>c. contents t (pack_path X cfg i) = Some c \<Longrightarrow> length c < 2 ^ 64"
    and json: "json_ok (x_descriptor X) (make_descriptor cfg i base cx re)"
    using assms by (auto simp: wrote_shard_def)
  have "pd_snapshot_id (make_descriptor cfg i base cx re) = i" by (simp add: make_descriptor_def)
  with saved_pack_described [OF w(1) json w(2) [unfolded pack_path_def] small [unfolded pack_path_def]] read_shard_described
  show ?thesis by (auto simp: pack_path_def)
qed

lemma shards_collected:
  assumes wrote: "\<And>k. k < w \<Longrightarrow> cc_rank (cfg k) = k \<and> wrote_shard B contents X (cfg k) i base cx (ts k) (contents t) (re k)"
    and files: "b_list B t (snapshot_dir X i) = Inr files" "distinct (filter (suffix ''.pack'') files)"
      "set (filter (suffix ''.pack'') files) = (\<lambda>k. pack_path X (cfg k) i) ` {..<w}"
  obtains shards where "collect_rank_shards B X t i = Inr shards" "length shards = w"
    "\<And>k. map_of shards k = (if k < w then Some (re k) else None)"
proof -
  define rank where "rank p = (THE k. k < w \<and> pack_path X (cfg k) i = p)" for p
  have rank: "rank (pack_path X (cfg k) i) = k" if "k < w" for k
    unfolding rank_def using wrote that by (intro the_equality) auto
  let ?packs = "filter (suffix ''.pack'') files"
  define ks where "ks = map rank ?packs"
  have ks: "?packs = map (\<lambda>k. pack_path X (cfg k) i) ks" "set ks = {..<w}"
  proof -
    have "pack_path X (cfg (rank p)) i = p" if "p \<in> set ?packs" for p
    proof -
      from that files(3) obtain k where "k < w" "p = pack_path X (cfg k) i" by blast
      with rank show ?thesis by simp
    qed
    then have "map (\<lambda>p. pack_path X (cfg (rank p)) i) ?packs = ?packs" by (intro map_idI)
    then show "?packs = map (\<lambda>k. pack_path X (cfg k) i) ks" by (simp add: ks_def comp_def)
    show "set ks = {..<w}" using rank unfolding ks_def list.set_map files(3) by (auto simp: image_image)
  qed
  define d where "d k = make_descriptor (cfg k) i base cx (re k)" for k
  have read: "read_shard B X t i (pack_path X (cfg k) i) = Inr (d k) \<and> re_rank (pd_rank (d k)) = k \<and> pd_rank (d k) = re k"
    if "k \<in> set ks" for k
  proof -
    have k: "cc_rank (cfg k) = k" "wrote_shard B contents X (cfg k) i base cx (ts k) (contents t) (re k)"
      using wrote that ks(2) by auto
    from wrote_shard_read [OF k(2)] k(1) show ?thesis by (simp add: d_def make_descriptor_def)
  qed
  have "map_res (read_shard B X t i) ?packs = Inr (map d ks)"
    unfolding ks(1) by (rule map_res_map) (use read in blast)
  then have "collect_rank_shards B X t i = Inr (ranks_described (map d ks))"
    using files(1) by (simp add: collect_rank_shards_def)
  moreover have shards: "map_of (ranks_described (map d ks)) k = (if k < w then Some (re k) else None)" for k
  proof -
    have "map_of (ranks_described (map d ks)) k = (if k \<in> set ks then Some (pd_rank (d k)) else map_of [] k)"
      unfolding ranks_described_def using read by (intro map_of_described) blast
    moreover have "k \<in> set ks \<longleftrightarrow> k < w" by (simp only: ks(2) lessThan_iff)
    ultimately show ?thesis using read [of k] by (cases "k < w") simp_all
  qed
  moreover have "length (ranks_described (map d ks)) = w"
  proof -
    have "fst ` set (ranks_described (map d ks)) = dom (map_of (ranks_described (map d ks)))" by (simp add: dom_map_of_conv_image_fst)
    also have "\<dots> = {..<w}" using shards by (auto simp: dom_def split: if_splits)
    finally show ?thesis using distinct_card [OF described_distinct, of "map d ks"] by simp
  qed
  ultimately show thesis using that by blast
qed

end

section \<open>Closing the snapshot\<close>

lemma close_found:
  assumes "find (\<lambda>sn. sn_id sn = i) sns = Some sn" and "n \<le> length shards"
  obtains sns' where "close_snapshot n shards i sns = Inr sns'"
    "find (\<lambda>sn. sn_id sn = i) sns' = Some (sn\<lparr>sn_ranks := shards, sn_finalized := True\<rparr>)"
proof -
  have "\<exists>sns'. close_snapshot n shards i sns = Inr sns'
      \<and> find (\<lambda>sn. sn_id sn = i) sns' = Some (sn\<lparr>sn_ranks := shards, sn_finalized := True\<rparr>)"
    using assms by (induction sns) (auto split: if_splits)
  then show thesis using that by blast
qed

lemma close_needs:
  assumes "close_snapshot n shards i sns = Inr sns'"
  shows "n \<le> length shards \<and> map sn_id sns' = map sn_id sns"
  using assms by (induction sns arbitrary: sns') (auto simp: bind_res_Inr_iff not_less split: if_splits)

lemma close_only:
  assumes "close_snapshot n shards i sns = Inr sns'" and "distinct (map sn_id sns)" and "sn \<in> set sns'"
  shows "if sn_id sn = i then sn_finalized sn \<and> sn_ranks sn = shards else sn \<in> set sns"
  using assms
proof (induction sns arbitrary: sns')
  case (Cons s sns)
  show ?case
  proof (cases "sn_id s = i")
    case True
    then have "sns' = s\<lparr>sn_ranks := shards, sn_finalized := True\<rparr> # sns" using Cons.prems(1) by (auto split: if_splits)
    then show ?thesis using Cons.prems(2,3) True by (auto simp: image_iff)
  next
    case False
    then obtain rest where "close_snapshot n shards i sns = Inr rest" "sns' = s # rest"
      using Cons.prems(1) by (auto simp: bind_res_Inr_iff)
    then show ?thesis using Cons False by (auto split: if_splits)
  qed
qed simp


section \<open>Finalising\<close>

text \<open>
  C10. A checkpoint of many ranks is only closed when it is whole: \<^verbatim>\<open>finalize_snapshot\<close> succeeds, or gets
  as far as retention, only if the packs of at least \<^verbatim>\<open>world_size\<close> different ranks describe themselves
  as part of that snapshot, and the snapshot then names exactly those. Otherwise it reports an error
  and leaves the store and the snapshots listed untouched.
\<close>

theorem finalize_needs_every_rank:
  assumes "reload_manifest B X st = (Inr (), st1)" and "se_meanwhile env = (\<lambda>st. st)"
    and "finalize_snapshot B X cfg env i st = (r, st')" and "distinct (map sn_id (mf_snapshots (co_manifest st1)))"
  shows "(\<exists>shards sns. collect_rank_shards B X (co_store st1) i = Inr shards \<and> cc_world_size cfg \<le> length shards
        \<and> (\<forall>(k, re) \<in> set shards. re_rank re = k
             \<and> (\<exists>path d. read_shard B X (co_store st1) i path = Inr d \<and> pd_snapshot_id d = i \<and> pd_rank d = re))
        \<and> distinct (map fst shards)
        \<and> (\<forall>sn \<in> set sns. if sn_id sn = i then sn_finalized sn \<and> sn_ranks sn = shards else sn \<in> set (mf_snapshots (co_manifest st1)))
        \<and> (r, st') = record_snapshots B X env [] ((co_manifest st1)\<lparr>mf_snapshots := sns\<rparr>) (lock_manifest st1))
    \<or> (\<not> is_ok r \<and> co_store st' = co_store st1 \<and> co_manifest st' = co_manifest st1)"
proof (cases "collect_rank_shards B X (co_store st1) i")
  case (Inl e)
  then show ?thesis using assms(1,3) by (auto simp: finalize_snapshot_def bind_io_def)
next
  case (Inr shards)
  obtain files ds where ds: "map_res (read_shard B X (co_store st1) i) (filter (suffix ''.pack'') files) = Inr ds"
      "shards = ranks_described ds"
    using Inr by (auto simp: collect_rank_shards_def bind_res_Inr_iff)
  have from_pack: "re_rank re = k \<and> (\<exists>path d. read_shard B X (co_store st1) i path = Inr d \<and> pd_snapshot_id d = i \<and> pd_rank d = re)"
    if kre: "(k, re) \<in> set shards" for k re
  proof -
    obtain d where d: "d \<in> set ds" "pd_rank d = re" "re_rank re = k" using described_from kre unfolding ds(2) by blast
    then obtain path where "read_shard B X (co_store st1) i path = Inr d" using map_res_from [OF ds(1)] by blast
    with d read_shard_id [OF this] show ?thesis by blast
  qed
  have locked: "co_store (lock_manifest st1) = co_store st1" "co_manifest (lock_manifest st1) = co_manifest st1"
    by (simp_all add: lock_manifest_def)
  show ?thesis
  proof (cases "close_snapshot (cc_world_size cfg) shards i (mf_snapshots (co_manifest st1))")
    case (Inl e)
    then show ?thesis using assms(1-3) Inr locked by (auto simp: finalize_snapshot_def bind_io_def Let_def)
  next
    case closed: (Inr sns)
    have "(r, st') = record_snapshots B X env [] ((co_manifest st1)\<lparr>mf_snapshots := sns\<rparr>) (lock_manifest st1)"
      using assms(1-3) Inr locked closed by (simp add: finalize_snapshot_def bind_io_def Let_def)
    moreover have "distinct (map fst shards)" using described_distinct ds(2) by simp
    moreover have "\<forall>sn \<in> set sns. if sn_id sn = i then sn_finalized sn \<and> sn_ranks sn = shards else sn \<in> set (mf_snapshots (co_manifest st1))"
      using close_only [OF closed assms(4)] by blast
    ultimately show ?thesis using Inr close_needs [OF closed] from_pack by blast
  qed
qed

section \<open>A group of one\<close>

definition group_fs :: local_fs where
  "group_fs = empty_fs\<lparr>fs_dirs := [''snapshots'', ''snapshots/a''],
     fs_files := [(''snapshots/a/rank_0.pack'', encode_header 43 2 @ one_blob @ [123, 125])]\<rparr>"

definition opened_one :: snapshot where
  "opened_one = \<lparr>sn_id = 1, sn_step = 1, sn_created_at = 0, sn_ranks = [], sn_base_snapshot_id = None, sn_metadata = [],
     sn_compression = Zstd 3, sn_finalized = False, sn_pinned = False\<rparr>"

lemma group_wrote:
  "wrote_shard (local_backend False 0) fs_contents orphan_ext run_config 1 None run_cx run_ts1 (fs_contents group_fs) one_rank"
proof -
  have path: "pack_path orphan_ext run_config 1 = ''snapshots/a/rank_0.pack''" by (simp add: pack_path_def)
  have "json_ok (x_descriptor orphan_ext) (make_descriptor run_config 1 None run_cx one_rank)"
    by (simp add: json_ok_def orphan_ext_def pack_ext_def one_json_def)
  moreover have "fs_contents group_fs ''snapshots/a/rank_0.pack'' = Some (encode_header 43 2 @ one_blob @ [123, 125])"
    by (simp add: fs_contents_def group_fs_def)
  moreover obtain s' ret' where "save_rank_tensors (local_backend False 0) orphan_ext run_config 1 (snapshot_dir orphan_ext 1)
      None run_ts1 run_cx (empty_fs, None) = (Inr one_rank, (s', ret'))"
      "fs_contents s' ''snapshots/a/rank_0.pack'' = Some (encode_header 43 2 @ one_blob @ [123, 125])"
    using orphan_saved by blast
  moreover have "length (encode_header 43 2 @ one_blob @ [123, 125]) < 2 ^ 64" by (simp add: one_blob_def header_len_def)
  moreover have "distinct (map td_name run_ts1)" by (simp add: run_ts1_def)
  ultimately show ?thesis unfolding wrote_shard_def path by (metis option.inject)
qed

lemma group_listed:
  "b_list (local_backend False 0) group_fs (snapshot_dir orphan_ext 1) = Inr [''snapshots/a/rank_0.pack'']"
  by (simp add: b_list_def local_backend_def local_list_sized_def group_fs_def fs_is_dir_def fs_is_file_def snapshot_dir_def
      orphan_ext_def pack_ext_def under_prefix_def is_partial_def partial_prefix_def file_name_def)


theorem finalize_needs_every_rank_witness:
  "\<not> is_ok (fst (finalize_snapshot (local_backend False 0) orphan_ext run_config quiet_env 1 first_core))
    \<and> co_store (snd (finalize_snapshot (local_backend False 0) orphan_ext run_config quiet_env 1 first_core)) = empty_fs"
proof -
  let ?B = "local_backend False 0"
  have "b_get ?B empty_fs manifest_path = Inl (NotFound manifest_path)"
    by (simp add: local_backend_def local_get_def empty_fs_def fs_is_dir_def manifest_path_def)
  then have "load ?B orphan_ext empty_fs previous = (Inr None, previous)" for previous
    by (simp add: load_def)
  moreover have flags: "\<not> co_stale first_core" "\<not> co_poisoned first_core" "sh_store (co_shared first_core) = empty_fs"
    by (simp_all add: first_core_def new_core_def Let_def)
  ultimately have reload: "reload_manifest ?B orphan_ext first_core = (Inr (), first_core)"
    by (simp add: reload_manifest_def lock_manifest_def with_store_def with_shared_def Let_def)
  have none: "collect_rank_shards ?B orphan_ext (co_store first_core) 1 = Inr []"
    by (simp add: collect_rank_shards_def first_core_def new_core_def Let_def b_list_def local_backend_def local_list_sized_def empty_fs_def
        fs_is_dir_def fs_is_file_def ranks_described_def snapshot_dir_def)
  obtain r st' where fin: "finalize_snapshot ?B orphan_ext run_config quiet_env 1 first_core = (r, st')" by fastforce
  have "cc_world_size run_config = 1" "co_store first_core = empty_fs" "distinct (map sn_id (mf_snapshots (co_manifest first_core)))"
    by (simp_all add: run_config_def default_config_def first_core_def new_core_def Let_def run_manifest_def)
  with finalize_needs_every_rank [OF reload _ fin] none fin show ?thesis by auto
qed

end
