(* ===== verification/LostDisk.thy ===== *)
theory LostDisk
  imports TrainingRun
begin

text \<open>
  A machine that lost its disk: what a bucket holds of a run, what a restore onto an empty store brings
  down, and what a load fetches later. The runs of \<^verbatim>\<open>TrainingRun\<close> and the copies of \<^verbatim>\<open>RemoteSync\<close>
  meet here, in \<^verbatim>\<open>Core::restore_from_remote\<close>.
\<close>

section \<open>A disk and its bucket\<close>

locale disk_and_bucket = two_stores F fc fpad T tc tpad + disk: reliable_backend T tc tpad
  for F :: "'f backend" and fc :: "'f \<Rightarrow> string \<Rightarrow> bytes option" and fpad :: "bytes \<Rightarrow> bytes"
    and T :: "'t backend" and tc :: "'t \<Rightarrow> string \<Rightarrow> bytes option" and tpad :: "bytes \<Rightarrow> bytes"
begin

text \<open>A store that has nothing but what the bucket has.\<close>

definition drawn :: "'f \<Rightarrow> 't \<Rightarrow> bool" where
  "drawn rs s \<longleftrightarrow> (\<forall>f. tc s f = None \<or> tc s f = fc rs f)"

lemma drawn_here: "drawn rs s \<Longrightarrow> tc s f \<noteq> None \<Longrightarrow> tc s f = fc rs f"
  by (metis drawn_def)

lemma copied_drawn:
  assumes "copy_absent (b_get F rs) T pre files s = (r, s')" and "drawn rs s"
  shows "drawn rs s' \<and> (tc s f \<noteq> None \<longrightarrow> tc s' f = tc s f)"
proof -
  have *: "tc s' f = tc s f \<or> tc s' f = fc rs f" for f
    using copy_absent_effect [OF assms(1), of f] src.get_iff [of rs f] by auto
  then have "drawn rs s'" using assms(2) unfolding drawn_def by metis
  moreover have "tc s f \<noteq> None \<longrightarrow> tc s' f = tc s f" using * assms(2) unfolding drawn_def by metis
  ultimately show ?thesis by simp
qed

lemma copied_there:
  assumes "copy_absent (b_get F rs) T pre files s = (Inr u, s')" and "drawn rs s" and "f \<in> set files" and "fc rs f \<noteq> None"
  shows "tc s' f = fc rs f"
proof -
  obtain d where "b_get F rs f = Inr d" using assms(4) src.get_complete by blast
  then have "f \<in> dom (tc s')" using copy_absent_done [OF assms(1,3)] by blast
  moreover have "drawn rs s'" using copied_drawn [OF assms(1,2)] by blast
  ultimately show ?thesis by (intro drawn_here) auto
qed

lemma manifest_brought:
  assumes "restore_manifest F rs T s = (Inr b, s1)" and "tc s = (\<lambda>_. None)" and "fc rs manifest_path \<noteq> None"
  shows "b \<and> drawn rs s1 \<and> tc s1 manifest_path = fc rs manifest_path"
proof -
  obtain u where sync: "sync_prefix F rs T manifest_path s = (Inr u, s1)"
      and b: "b = (case b_exists T s1 manifest_path of Inr there \<Rightarrow> there | Inl _ \<Rightarrow> False)"
    using assms(1) by (auto simp: restore_manifest_def bind_io_Inr_iff)
  have there: "tc s1 manifest_path = fc rs manifest_path" using sync_manifest [OF sync] assms(3) by simp
  then have "b" using assms(3) disk.exists_complete b by fastforce
  moreover have "drawn rs s1" using sync_manifest [OF sync] assms(2) by (auto simp: drawn_def)
  ultimately show ?thesis using there by simp
qed

text \<open>Nothing is left out of a manifest whose files are all in the bucket.\<close>

lemma keep_whole_all:
  assumes "\<And>sn f. sn \<in> set (mf_snapshots m) \<Longrightarrow> f \<in> set (files_of sn None) \<Longrightarrow> f \<in> set keys" and "chained (mf_snapshots m)"
  shows "keep_whole T s keys (mf_snapshots m) = mf_snapshots m"
proof -
  have "filter (snapshot_is_reachable T s keys) (mf_snapshots m) = mf_snapshots m"
    using assms(1) by (simp add: filter_id_conv snapshot_is_reachable_def list_all_iff)
  moreover have "case sn_base_snapshot_id sn of None \<Rightarrow> True | Some b \<Rightarrow> b \<in> set (map sn_id (mf_snapshots m))"
    if "sn \<in> set (mf_snapshots m)" for sn
    using chained_base [OF assms(2) that] by (force split: option.splits)
  ultimately show ?thesis by (simp add: keep_whole_def filter_id_conv Let_def)
qed

lemma restored:
  assumes go: "core_restore T X cfg st = (Inr b, st1)" and R: "cc_remote_storage cfg = Some F"
    and keys: "b_list_sized F (co_remote st) [] = Inr ks" and empty: "tc (co_store st) = (\<lambda>_. None)"
    and there: "fc (co_remote st) manifest_path \<noteq> None"
    and on: "\<And>s. tc s manifest_path = fc (co_remote st) manifest_path
      \<Longrightarrow> (\<And>f. f \<in> fst ` set ks \<Longrightarrow> ranks_listed f \<Longrightarrow> tc s f = fc (co_remote st) f) \<Longrightarrow> load_manifest T X s cfg = Inr m"
    and whole: "\<And>sn f. sn \<in> set (mf_snapshots m) \<Longrightarrow> f \<in> set (files_of sn None) \<Longrightarrow> f \<in> fst ` set ks"
    and ch: "chained (mf_snapshots m)"
  shows "b = (mf_snapshots m \<noteq> []) \<and> co_manifest st1 = m \<and> co_remote st1 = co_remote st \<and> \<not> co_poisoned st1
    \<and> drawn (co_remote st) (co_store st1)
    \<and> (\<forall>f \<in> fst ` set ks. wanted_key (Some (wanted_dirs X m)) f \<longrightarrow> tc (co_store st1) f = fc (co_remote st) f)"
proof -
  let ?rs = "co_remote st" and ?get = "b_get F (co_remote st)" and ?keys = "map fst ks"
  have inb: "fc ?rs f \<noteq> None" if "f \<in> fst ` set ks" for f using src.list_sound [OF keys] that by blast
  obtain r1 s1 where r1: "restore_manifest F ?rs T (co_store st) = (r1, s1)" by fastforce
  with go R obtain b1 where "r1 = Inr b1" by (cases r1) (auto simp: core_restore_def)
  with manifest_brought [OF _ empty there] r1 have m1: "r1 = Inr True" "drawn ?rs s1" "tc s1 manifest_path = fc ?rs manifest_path"
    by blast+
  obtain r2 s2 where c2: "copy_absent ?get T [] (filter ranks_listed ?keys) s1 = (r2, s2)" by fastforce
  have keys': "b_list F ?rs [] = Inr ?keys" using keys by (simp add: b_list_def)
  obtain u2 where u2: "r2 = Inr u2" using go R r1 m1(1) keys' c2 by (cases r2) (auto simp: core_restore_def)
  have d2: "drawn ?rs s2" "tc s2 manifest_path = fc ?rs manifest_path"
    using copied_drawn [OF c2 m1(2)] m1(3) there by auto
  have "load_manifest T X s2 cfg = Inr m"
  proof (rule on [OF d2(2)])
    fix f assume "f \<in> fst ` set ks" "ranks_listed f"
    then have "f \<in> set (filter ranks_listed ?keys)" "fc ?rs f \<noteq> None" using inb by simp_all
    then show "tc s2 f = fc ?rs f" by (rule copied_there [OF c2 [unfolded u2] m1(2)])
  qed
  moreover have "keep_whole T s2 ?keys (mf_snapshots m) = mf_snapshots m"
    using whole ch by (intro keep_whole_all) auto
  moreover obtain r4 s4 where c4: "copy_absent ?get T [] (filter (wanted_key (if co_merger st = None then Some (wanted_dirs X m) else None)) ?keys) s2
      = (r4, s4)" by fastforce
  moreover obtain u4 where u4: "r4 = Inr u4"
    using go R r1 m1(1) keys' c2 u2 calculation by (cases r4) (auto simp: core_restore_def Let_def)
  ultimately have fin: "b = (mf_snapshots m \<noteq> [])" "st1 = with_store s4 m (lock_manifest st)"
    using go R r1 m1(1) keys' c2 u2 by (auto simp: core_restore_def Let_def)
  have "tc s4 f = fc ?rs f" if "f \<in> fst ` set ks" "wanted_key (Some (wanted_dirs X m)) f" for f
  proof (rule copied_there [OF c4 [unfolded u4] d2(1)])
    have "wanted_key None f" using that(2) by (simp add: wanted_key_def)
    with that show "f \<in> set (filter (wanted_key (if co_merger st = None then Some (wanted_dirs X m) else None)) ?keys)" by simp
  qed (use inb that in blast)
  with fin copied_drawn [OF c4 d2(1)] show ?thesis
    by (simp add: with_store_def with_shared_def lock_manifest_def)
qed

text \<open>A load of a snapshot whose files are in the bucket: it fails where a copy fails, and nowhere else.\<close>

lemma fetched_load:
  assumes R: "cc_remote_storage cfg = Some F" and ok: "\<not> co_poisoned st" and drawn: "drawn (co_remote st) (co_store st)"
    and sn: "find_snapshot (co_manifest st) i = Some sn"
  defines "fs \<equiv> concat (map (\<lambda>sn. files_of sn (Some (cc_rank cfg))) (with_base (co_manifest st) sn))"
  assumes inb: "\<And>f. f \<in> set fs \<Longrightarrow> fc (co_remote st) f \<noteq> None"
    and files: "\<And>f. f \<in> set fs \<Longrightarrow> b_exists T (co_store st) f = Inr True \<Longrightarrow> tc (co_store st) f \<noteq> None"
  shows "(\<exists>f e. f \<in> set fs \<and> tc (co_store st) f = None \<and> fst (core_load T X cfg (\<lambda>st. st) i st) = Inl e
        \<and> fst (copy_files (b_get F (co_remote st)) T (absent_files T (co_store st) (cc_rank cfg) (with_base (co_manifest st) sn))
            (0, 0) (co_store st)) = Inl e)
    \<or> (\<exists>s'. fst (core_load T X cfg (\<lambda>st. st) i st) = load_in_pool T X s' (cc_rank cfg) (co_manifest st) i
        \<and> (\<forall>f \<in> set fs. tc s' f = fc (co_remote st) f))"
proof -
  let ?absent = "absent_files T (co_store st) (cc_rank cfg) (with_base (co_manifest st) sn)"
  have absent: "set ?absent = {f \<in> set fs. tc (co_store st) f = None}"
    using files disk.exists_complete unfolding absent_files_def fs_def by fastforce
  obtain r s' where copy: "copy_files (b_get F (co_remote st)) T ?absent (0, 0) (co_store st) = (r, s')" by fastforce
  note simps = core_load_def bind_io_def pin_and_fetch_def fetch_absent_def pin_ids_def unpin_ids_def with_shared_def
    with_store_def lock_manifest_def Let_def
  show ?thesis
  proof (cases "?absent = []")
    case True
    then have "fst (core_load T X cfg (\<lambda>st. st) i st) = load_in_pool T X (co_store st) (cc_rank cfg) (co_manifest st) i"
      using R ok sn by (simp add: simps)
    moreover have "\<forall>f \<in> set fs. tc (co_store st) f = fc (co_remote st) f"
      using True absent drawn by (auto intro: drawn_here)
    ultimately show ?thesis by blast
  next
    case False
    show ?thesis
    proof (cases r)
      case (Inl e)
      obtain f where "f \<in> set fs" "tc (co_store st) f = None" using False absent by (cases ?absent) auto
      moreover have "fst (core_load T X cfg (\<lambda>st. st) i st) = Inl e" using False R ok sn copy Inl by (simp add: simps)
      ultimately show ?thesis using copy Inl by auto
    next
      case (Inr u)
      have "fst (core_load T X cfg (\<lambda>st. st) i st) = load_in_pool T X s' (cc_rank cfg) (co_manifest st) i"
        using False R ok sn copy Inr by (simp add: simps)
      moreover have "tc s' f = fc (co_remote st) f" if f: "f \<in> set fs" for f
      proof (cases "f \<in> set ?absent")
        case True
        moreover obtain d where "fc (co_remote st) f = Some d" using inb f by blast
        ultimately show ?thesis using copy_files_done [OF copy [unfolded Inr]] src.get_complete by simp
      next
        case False
        then have "tc s' f = tc (co_store st) f" using copy_files_effect [OF copy, of f] by auto
        with False f absent drawn show ?thesis by (auto intro: drawn_here)
      qed
      ultimately show ?thesis by blast
    qed
  qed
qed

end

interpretation local_disks: disk_and_bucket "local_backend f1 p1" fs_contents "pad_to_page p1"
    "local_backend f2 p2" fs_contents "pad_to_page p2"
  by unfold_locales

section \<open>Names a walk meets\<close>

lemma file_name_last: "CHR ''/'' \<notin> set ys \<Longrightarrow> file_name (xs @ CHR ''/'' # ys) = ys"
proof -
  assume "CHR ''/'' \<notin> set ys"
  then have "takeWhile (\<lambda>c. c \<noteq> CHR ''/'') (rev ys @ CHR ''/'' # rev xs) = rev ys"
    by (subst takeWhile_append2) auto
  then show ?thesis by (simp add: file_name_def)
qed

lemma digits_no_slash: "CHR ''/'' \<notin> set (nat_str n)"
proof (induction n rule: nat_str.induct)
  case (1 n)
  have slash: "CHR ''/'' \<noteq> dec_digit k" if "k < 10" for k
  proof
    assume "CHR ''/'' = dec_digit k"
    then have "(of_char (CHR ''/'') :: nat) = 48 + k" using dec_digit_value [OF that] by metis
    then show False by simp
  qed
  then show ?case using 1 by (subst nat_str.simps) (auto simp: slash)
qed

lemma pack_listed: "\<not> is_partial (file_name (pack_path X cfg i))"
proof -
  have "pack_path X cfg i = snapshot_dir X i @ CHR ''/'' # (''rank_'' @ nat_str (cc_rank cfg) @ ''.pack'')"
    by (simp add: pack_path_def rank_pack_path_def)
  then have "file_name (pack_path X cfg i) = ''rank_'' @ nat_str (cc_rank cfg) @ ''.pack''"
    using digits_no_slash by (simp add: file_name_last)
  then show ?thesis by (simp add: is_partial_def partial_prefix_def)
qed

lemma ranks_name_listed: "\<not> is_partial (file_name (ranks_path X i))" "ranks_listed (ranks_path X i)"
proof -
  have "file_name ((''snapshots/'' @ x_uuid_str X i) @ CHR ''/'' # ''ranks.json'') = ''ranks.json''"
    by (rule file_name_last) simp
  then have "file_name (ranks_path X i) = ''ranks.json''" by (simp add: ranks_path_def ranks_file_def)
  then show "\<not> is_partial (file_name (ranks_path X i))" by (simp add: is_partial_def partial_prefix_def)
  show "ranks_listed (ranks_path X i)" by (simp add: ranks_listed_def ranks_path_def snapshots_prefix_def suffix_def)
qed

lemma manifest_listed: "\<not> is_partial (file_name manifest_path)"
  by (simp add: manifest_path_def file_name_def is_partial_def partial_prefix_def)

section \<open>A run that starts again\<close>

context reliable_backend
begin

lemma kept_files_of:
  assumes "kept B contents X cfg now ret sns H sn"
  shows "files_of sn None = [pack_path X cfg (sn_id sn)]" "files_of sn (Some (cc_rank cfg)) = [pack_path X cfg (sn_id sn)]"
proof -
  obtain re where "sn_ranks sn = [(cc_rank cfg, re)]"
    using assms by (auto simp: kept_def full_kept_def delta_kept_def names_rank_def split: option.splits)
  moreover have "snapshot_files sn = [pack_path X cfg (sn_id sn)]" using assms by (rule kept_files)
  ultimately show "files_of sn None = [pack_path X cfg (sn_id sn)]" "files_of sn (Some (cc_rank cfg)) = [pack_path X cfg (sn_id sn)]"
    by (simp_all add: files_of_def snapshot_files_def rank_files_def)
qed

end

lemma pack_wanted:
  assumes "newest_finalized m = Some sn" and "i \<in> set (read_ids sn)"
  shows "wanted_key (Some (wanted_dirs X m)) (pack_path X cfg i)"
proof -
  have "prefix (snapshot_dir X i @ ''/'') (pack_path X cfg i)" by (simp add: pack_path_def rank_pack_path_def)
  with assms show ?thesis by (auto simp: wanted_key_def wanted_dirs_def list_ex_iff)
qed

context disk_and_bucket
begin

lemma restored_loads:
  assumes run: "run T X cfg st H" and on: "manifest_on_disk T X (co_store st) (co_manifest st)"
    and R: "cc_remote_storage cfg = Some F" and keys: "b_list_sized F (co_remote st0) [] = Inr ks"
    and bucket: "\<And>f. tc (co_store st) f \<noteq> None \<Longrightarrow> \<not> is_partial (file_name f)
      \<Longrightarrow> f \<in> fst ` set ks \<and> fc (co_remote st0) f = tc (co_store st) f"
    and empty: "tc (co_store st0) = (\<lambda>_. None)" and go: "core_restore T X cfg st0 = (Inr b, st1)"
    and nodir: "\<And>i. b_exists T (co_store st1) (pack_path X cfg i) = Inr True \<Longrightarrow> tc (co_store st1) (pack_path X cfg i) \<noteq> None"
    and sn: "sn \<in> set (mf_snapshots (co_manifest st))" and zs: "zstd_sound X (cc_compression cfg)"
    and coll: "hashes_apart X (\<Union>(_, ts) \<in> set H. stored_bytes (cc_save_dtype cfg) ` set ts)"
  shows "b \<and> mf_snapshots (co_manifest st1) = mf_snapshots (co_manifest st)
    \<and> (case fst (core_load T X cfg (\<lambda>st. st) (sn_id sn) st1) of
         Inr out \<Rightarrow> \<exists>ts. map_of H (sn_id sn) = Some ts \<and> gives_back (cc_save_dtype cfg) X ts out
       | Inl e \<Rightarrow> newest_finalized (co_manifest st1) \<noteq> Some sn
           \<and> fst (copy_files (b_get F (co_remote st1)) T (absent_files T (co_store st1) (cc_rank cfg) (with_base (co_manifest st1) sn))
                (0, 0) (co_store st1)) = Inl e)"
proof -
  let ?old = "co_store st" and ?rs = "co_remote st0"
  define m where "m = (co_manifest st)\<lparr>mf_format_version := format_version,
    mf_ranks_written := mf_ranks_written (co_manifest st) \<inter> sn_id ` set (mf_snapshots (co_manifest st))\<rparr>"
  have sns: "mf_snapshots m = mf_snapshots (co_manifest st)" by (simp add: m_def)
  have inv: "run_inv T tc X cfg st H" using disk.run_invariant [OF run] by simp
  then have ch: "chained (mf_snapshots m)" and kept: "\<And>sn. sn \<in> set (mf_snapshots m)
      \<Longrightarrow> kept T tc X cfg (tc ?old) (co_retained st) (mf_snapshots m) H sn"
    by (simp_all add: run_inv_def sns)
  have packs: "pack_path X cfg (sn_id sn) \<in> fst ` set ks \<and> fc ?rs (pack_path X cfg (sn_id sn)) = tc ?old (pack_path X cfg (sn_id sn))
      \<and> tc ?old (pack_path X cfg (sn_id sn)) \<noteq> None" if "sn \<in> set (mf_snapshots m)" for sn
    using disk.kept_present [OF kept [OF that]] bucket pack_listed by blast
  have there: "tc ?old manifest_path \<noteq> None"
    using on dst.get_sound by (fastforce simp: manifest_on_disk_def split: sum.splits)
  then have index: "fc ?rs manifest_path = tc ?old manifest_path" using bucket manifest_listed by blast
  have "b = (mf_snapshots m \<noteq> []) \<and> co_manifest st1 = m \<and> co_remote st1 = ?rs \<and> \<not> co_poisoned st1 \<and> drawn ?rs (co_store st1)
    \<and> (\<forall>f \<in> fst ` set ks. wanted_key (Some (wanted_dirs X m)) f \<longrightarrow> tc (co_store st1) f = fc ?rs f)"
  proof (rule restored [OF go R keys empty])
    fix s assume s: "tc s manifest_path = fc ?rs manifest_path" "\<And>f. f \<in> fst ` set ks \<Longrightarrow> ranks_listed f \<Longrightarrow> tc s f = fc ?rs f"
    have "manifest_on_disk T X s (co_manifest st)"
    proof (rule disk.on_disk_copied [OF on])
      fix i assume "tc ?old (ranks_path X i) \<noteq> None"
      with bucket ranks_name_listed s(2) show "tc s (ranks_path X i) = tc ?old (ranks_path X i)" by metis
    qed (use s(1) index in simp)
    then show "load_manifest T X s cfg = Inr m" by (simp add: load_manifest_def disk.on_disk_load m_def)
  next
    show "f \<in> fst ` set ks" if "sn \<in> set (mf_snapshots m)" "f \<in> set (files_of sn None)" for sn f
      using disk.kept_files_of [OF kept [OF that(1)]] packs [OF that(1)] that(2) by simp
  qed (use there index ch in simp_all)
  then have st1: "b = (mf_snapshots m \<noteq> [])" "co_manifest st1 = m" "co_remote st1 = ?rs" "\<not> co_poisoned st1" "drawn ?rs (co_store st1)"
      "\<And>f. f \<in> fst ` set ks \<Longrightarrow> wanted_key (Some (wanted_dirs X m)) f \<Longrightarrow> tc (co_store st1) f = fc ?rs f" by blast+
  let ?fs = "concat (map (\<lambda>sn. files_of sn (Some (cc_rank cfg))) (with_base m sn))"
  have snm: "sn \<in> set (mf_snapshots m)" using sn sns by simp
  have find: "find_snapshot m (sn_id f) = Some f" if "f \<in> set (mf_snapshots m)" for f
    unfolding find_snapshot_def using ch that by (intro find_distinct) (simp_all add: chained_def)
  have fs: "?fs = map (pack_path X cfg) (read_ids sn) \<and> set (read_ids sn) \<subseteq> sn_id ` set (mf_snapshots m)"
  proof (cases "sn_base_snapshot_id sn")
    case None
    then show ?thesis using snm disk.kept_files_of(2) [OF kept [OF snm]] by (simp add: with_base_def base_of_def read_ids_def)
  next
    case (Some i)
    then obtain f where f: "f \<in> set (mf_snapshots m)" "sn_id f = i" using chained_base [OF ch snm] by blast
    then have "base_of m sn = Some f" using Some find [OF f(1)] by (simp add: base_of_def)
    then show ?thesis using Some f snm disk.kept_files_of(2) [OF kept [OF snm]] disk.kept_files_of(2) [OF kept [OF f(1)]]
      by (auto simp: with_base_def read_ids_def)
  qed
  have here: "fc ?rs f = tc ?old f \<and> fc ?rs f \<noteq> None \<and> f \<in> fst ` set ks \<and> (\<exists>i. f = pack_path X cfg i)" if "f \<in> set ?fs" for f
    using that fs packs by auto
  have load: "(\<exists>f e. f \<in> set ?fs \<and> tc (co_store st1) f = None \<and> fst (core_load T X cfg (\<lambda>st. st) (sn_id sn) st1) = Inl e
      \<and> fst (copy_files (b_get F ?rs) T (absent_files T (co_store st1) (cc_rank cfg) (with_base m sn)) (0, 0) (co_store st1)) = Inl e)
    \<or> (\<exists>s'. fst (core_load T X cfg (\<lambda>st. st) (sn_id sn) st1) = load_in_pool T X s' (cc_rank cfg) m (sn_id sn)
        \<and> (\<forall>f \<in> set ?fs. tc s' f = fc ?rs f))"
    unfolding st1(2,3) [symmetric]
    by (rule fetched_load [OF R st1(4)]) (use st1(2,3,5) find [OF snm] here nodir in \<open>force\<close>)+
  have "b \<and> mf_snapshots (co_manifest st1) = mf_snapshots (co_manifest st)" using st1(1,2) snm sns by auto
  moreover from load have "case fst (core_load T X cfg (\<lambda>st. st) (sn_id sn) st1) of
      Inr out \<Rightarrow> \<exists>ts. map_of H (sn_id sn) = Some ts \<and> gives_back (cc_save_dtype cfg) X ts out
    | Inl e \<Rightarrow> newest_finalized m \<noteq> Some sn
        \<and> fst (copy_files (b_get F ?rs) T (absent_files T (co_store st1) (cc_rank cfg) (with_base m sn)) (0, 0) (co_store st1)) = Inl e"
  proof (elim disjE exE conjE)
    fix f e assume f: "f \<in> set ?fs" "tc (co_store st1) f = None" and err: "fst (core_load T X cfg (\<lambda>st. st) (sn_id sn) st1) = Inl e"
      "fst (copy_files (b_get F ?rs) T (absent_files T (co_store st1) (cc_rank cfg) (with_base m sn)) (0, 0) (co_store st1)) = Inl e"
    have "newest_finalized m \<noteq> Some sn"
    proof
      assume newest: "newest_finalized m = Some sn"
      with f(1) fs pack_wanted have "wanted_key (Some (wanted_dirs X m)) f" by auto
      with st1(6) here [OF f(1)] f(2) show False by metis
    qed
    with err show ?thesis by simp
  next
    fix s' assume l: "fst (core_load T X cfg (\<lambda>st. st) (sn_id sn) st1) = load_in_pool T X s' (cc_rank cfg) m (sn_id sn)"
      and s': "\<forall>f \<in> set ?fs. tc s' f = fc ?rs f"
    have now: "tc s' (pack_path X cfg i) = tc ?old (pack_path X cfg i)" if "i \<in> set (read_ids sn)" for i
    proof -
      have "pack_path X cfg i \<in> set ?fs" using fs that by simp
      with s' here show ?thesis by metis
    qed
    have "kept T tc X cfg (tc s') (co_retained st) (mf_snapshots m) H sn"
      by (rule kept_now [OF kept [OF snm]]) (use now in \<open>simp_all add: read_ids_def\<close>)
    from disk.kept_loads_back [OF ch snm this zs coll] l show ?thesis by auto
  qed
  ultimately show ?thesis by (simp only: st1(2,3))
qed

end


section \<open>One save, a sync, a new machine\<close>

definition one_snapshot :: snapshot where
  "one_snapshot = saved_snapshot run_config 1 None run_cx one_rank"

definition one_manifest :: manifest where
  "one_manifest = run_manifest [one_snapshot]"

definition resume_ext :: ext where
  "resume_ext = pack_ext (index_out orphan_ext (after_ranks one_manifest)) (ranks_out one_snapshot)"

definition resume_config :: "local_fs coordinator_config" where
  "resume_config = run_config\<lparr>cc_remote_storage := Some (local_backend False 0)\<rparr>"

definition pack_disk :: local_fs where
  "pack_disk = empty_fs\<lparr>fs_dirs := [''snapshots'', ''snapshots/a''],
     fs_files := [(''snapshots/a/rank_0.pack'', encode_header 43 2 @ one_blob @ [123, 125])]\<rparr>"

definition run_disk :: local_fs where
  "run_disk = pack_disk\<lparr>fs_files := fs_files pack_disk @ [(''snapshots/a/ranks.json'', [123, 125]), (manifest_path, [123, 125])]\<rparr>"

lemmas run_write = write_parts_def Let_def missing_dirs.simps existing_ancestor_def fs_is_dir_def
      fs_is_file_def empty_fs_def parent_path_def rename_over_def pad_to_page_def page_padding_def

lemma pack_written: "write_parts False 0 ''snapshots/a/rank_0.pack'' [encode_header 43 2, one_blob, [123, 125]] empty_fs = (Inr (), pack_disk)"
  by (simp add: run_write pack_disk_def)

lemma ranks_written: "write_parts False 0 ''snapshots/a/ranks.json'' [x] pack_disk = (Inr (), pack_disk\<lparr>fs_files := fs_files pack_disk @ [(''snapshots/a/ranks.json'', x)]\<rparr>)"
  by (simp add: run_write pack_disk_def)

lemma retained_one: "retained one_manifest = ([], [one_snapshot])"
  by (simp add: one_manifest_def one_snapshot_def saved_snapshot_def retained_def run_manifest_def run_cx_def default_manifest_def default_retention_def
      cap_fulls.simps cap_total.simps full_count_def effective_total_cap_def Let_def)

lemma run_retains: "apply_retention (local_backend False 0) resume_ext (pack_disk, one_manifest) = (Inr [], (run_disk, after_ranks one_manifest))"
proof -
  let ?B = "local_backend False 0"
  have pins: "sync_pins ?B resume_ext pack_disk one_manifest = Inr one_manifest"
    by (simp add: sync_pins_def read_pins_def local_backend_def local_get_def pack_disk_def empty_fs_def fs_is_dir_def pins_file_def)
  have pers: "persist ?B resume_ext (pack_disk, one_manifest) = (Inr (), (run_disk, after_ranks one_manifest))"
  proof -
    have "unwritten_ids one_manifest = [1]"
      by (simp add: unwritten_ids_def out_of_line_def one_manifest_def run_manifest_def one_snapshot_def saved_snapshot_def default_manifest_def)
    then have "filter (\<lambda>sn. sn_id sn \<in> set (unwritten_ids one_manifest)) (mf_snapshots one_manifest) = [one_snapshot]"
      by (simp add: one_manifest_def run_manifest_def one_snapshot_def saved_snapshot_def)
    moreover have "write_ranks ?B resume_ext one_snapshot pack_disk
        = (Inr (), pack_disk\<lparr>fs_files := fs_files pack_disk @ [(''snapshots/a/ranks.json'', [123, 125])]\<rparr>)"
      using ranks_written [of "[123, 125]"] by (simp add: write_ranks_def resume_ext_def pack_ext_def one_json_def serialization_def local_backend_def ranks_path_def
        one_snapshot_def saved_snapshot_def ranks_file_def bind_io_def lift_io_def)
    ultimately show ?thesis
      by (simp add: persist_def bind_io_def Let_def resume_ext_def pack_ext_def one_json_def serialization_def local_backend_def run_disk_def
        run_write pack_disk_def manifest_path_def)
  qed
  have same: "one_manifest\<lparr>mf_snapshots := [one_snapshot]\<rparr> = one_manifest" by (simp add: one_manifest_def run_manifest_def)
  show ?thesis by (simp add: apply_retention_def pins retained_one pers same)
qed

lemma run_synced: "sync_store (local_backend False 0) run_disk run_disk (local_backend False 0) empty_fs = (Inr (), run_disk)"
  by (simp add: run_sync run_disk_def pack_disk_def run_write)


definition resume_core :: "local_fs \<Rightarrow> (local_fs, local_fs) core" where
  "resume_core bucket = new_core resume_config empty_fs (run_manifest []) bucket"

lemma run_saves: "\<exists>st. save_sync_in_pool (local_backend False 0) resume_ext resume_config quiet_env 1 1 run_ts1 [] (resume_core empty_fs) = (Inr (), st)
     \<and> co_store st = run_disk \<and> co_manifest st = after_ranks one_manifest"
proof -
  let ?B = "local_backend False 0"
  obtain ret1 where full: "save_rank_tensors ?B resume_ext resume_config 1 (snapshot_dir resume_ext 1)
      None run_ts1 run_cx (empty_fs, None) = (Inr one_rank, (pack_disk, ret1))"
    using pack_saved [of "index_out orphan_ext (after_ranks one_manifest)" "ranks_out one_snapshot" "Some ?B"] pack_written
    unfolding resume_ext_def resume_config_def by auto
  have core: "co_store (resume_core empty_fs) = empty_fs" "co_manifest (resume_core empty_fs) = run_manifest []"
      "co_retained (resume_core empty_fs) = None" "\<not> co_poisoned (resume_core empty_fs)" "\<not> co_stale (resume_core empty_fs)"
    by (simp_all add: resume_core_def new_core_def Let_def)
  have base: "choose_base (run_manifest []) reg 1 = None" for reg
    by (simp add: choose_base_def should_force_full_def run_manifest_def)
  obtain st2 where w: "write_rank ?B resume_ext resume_config 1 None run_ts1 run_cx (pin_ids [] (resume_core empty_fs)) = (Inr one_rank, st2)"
      and st2: "co_store st2 = pack_disk" "co_manifest st2 = run_manifest []" "\<not> co_poisoned st2"
    using full core by (auto simp: write_rank_def pin_ids_def with_store_def with_shared_def check_dtype_patterns_def)
  have new: "push_snapshot (saved_snapshot resume_config 1 None run_cx one_rank) (run_manifest []) = one_manifest"
    by (simp add: push_snapshot_def one_manifest_def run_manifest_def one_snapshot_def saved_snapshot_def resume_config_def)
  have "save_sync_in_pool ?B resume_ext resume_config quiet_env 1 1 run_ts1 [] (resume_core empty_fs)
      = record_snapshots ?B resume_ext quiet_env (base_ids None)
          (push_snapshot (saved_snapshot resume_config 1 None
            \<lparr>cx_step = 1, cx_created_at = se_now (quiet_env :: (local_fs, local_fs) save_env), cx_metadata = []\<rparr> one_rank) (co_manifest st2)) st2"
    by (rule save_sync_runs)
      (simp_all only: core base st2 quiet_env_simps base_ids_def option.case w [unfolded run_cx_def] not_False_eq_True)
  then have "save_sync_in_pool ?B resume_ext resume_config quiet_env 1 1 run_ts1 [] (resume_core empty_fs)
      = record_snapshots ?B resume_ext quiet_env [] one_manifest st2"
    unfolding quiet_env_simps st2(2) run_cx_def [symmetric] new base_ids_def option.case .
  then show ?thesis using run_retains st2
    by (simp add: record_snapshots_def unlink_snapshots_def unpin_ids_def with_store_def with_shared_def notify_threads_def)
qed

lemma resume_paths: "x_uuid_str resume_ext = x_uuid_str orphan_ext"
  by (simp add: resume_ext_def orphan_ext_def pack_ext_def)

lemma on_resume_disk:
  assumes "fs_contents s manifest_path = Some [123, 125]" and "fs_contents s ''snapshots/a/ranks.json'' = Some [123, 125]"
  shows "manifest_on_disk (local_backend False 0) resume_ext s (after_ranks one_manifest)"
proof -
  have get: "b_get (local_backend False 0) s p = Inr d" if "fs_contents s p = Some d" for p d
    using that by (rule local_disk.get_complete)
  have zeros: "strip_zeros [123, 125] = [123, 125]" by (simp add: strip_zeros_def)
  have "index_out resume_ext m = index_out orphan_ext m" for m
    by (simp add: index_out_def head_out_def ranks_path_def resume_paths)
  then have "serialization (js_from_slice (x_index resume_ext) [123, 125]) = Inr (index_out resume_ext (after_ranks one_manifest))"
    by (simp add: resume_ext_def pack_ext_def one_json_def serialization_def)
  moreover have "ranks_stored (local_backend False 0) resume_ext s (after_ranks one_manifest)"
    using get [OF assms(2)] zeros
    by (simp add: ranks_stored_def read_ranks_def ranks_path_def resume_paths ranks_file_def one_manifest_def run_manifest_def
      one_snapshot_def saved_snapshot_def orphan_ext_def pack_ext_def)
      (simp add: resume_ext_def pack_ext_def one_json_def ranks_out_def one_snapshot_def saved_snapshot_def)
  ultimately show ?thesis using get [OF assms(1)] zeros by (simp add: manifest_on_disk_def)
qed

definition part_disk :: local_fs where
  "part_disk = empty_fs\<lparr>fs_dirs := [''snapshots'', ''snapshots/a''],
     fs_files := [(manifest_path, [123, 125]), (''snapshots/a/ranks.json'', [123, 125])]\<rparr>"

lemma run_restored: "\<exists>st1. core_restore (local_backend False 0) resume_ext resume_config (resume_core run_disk) = (Inr True, st1)
     \<and> fs_dirs (co_store st1) = [''snapshots'', ''snapshots/a'']"
proof -
  let ?B = "local_backend False 0"
  have m: "restore_manifest ?B run_disk ?B empty_fs = (Inr True, empty_fs\<lparr>fs_files := [(manifest_path, [123, 125])]\<rparr>)"
    by (simp add: restore_manifest_def run_sync run_write run_disk_def pack_disk_def)
  have keys: "b_list ?B run_disk [] = Inr [''snapshots/a/rank_0.pack'', ''snapshots/a/ranks.json'', manifest_path]"
    by (simp add: run_sync run_disk_def pack_disk_def)
  have ranks: "filter ranks_listed [''snapshots/a/rank_0.pack'', ''snapshots/a/ranks.json'', manifest_path] = [''snapshots/a/ranks.json'']"
    by (simp add: ranks_listed_def snapshots_prefix_def ranks_file_def manifest_path_def suffix_to_prefix)
  have first: "\<exists>n. copy_absent (b_get ?B run_disk) ?B [] [''snapshots/a/ranks.json''] (empty_fs\<lparr>fs_files := [(manifest_path, [123, 125])]\<rparr>)
      = (Inr n, part_disk)"
    by (simp add: run_sync run_write run_disk_def pack_disk_def part_disk_def)
  define m where "m = (after_ranks one_manifest)\<lparr>mf_format_version := format_version,
    mf_ranks_written := mf_ranks_written (after_ranks one_manifest) \<inter> sn_id ` set (mf_snapshots (after_ranks one_manifest))\<rparr>"
  have "manifest_on_disk ?B resume_ext part_disk (after_ranks one_manifest)"
    by (rule on_resume_disk) (simp_all add: part_disk_def fs_contents_def manifest_path_def)
  then have load: "load_manifest ?B resume_ext part_disk resume_config = Inr m"
    by (simp add: load_manifest_def local_disk.on_disk_load m_def)
  have sns: "mf_snapshots m = [one_snapshot]" by (simp add: m_def one_manifest_def run_manifest_def)
  have whole: "keep_whole ?B part_disk [''snapshots/a/rank_0.pack'', ''snapshots/a/ranks.json'', manifest_path] [one_snapshot] = [one_snapshot]"
    by (simp add: keep_whole_def snapshot_is_reachable_def files_of_def one_snapshot_def saved_snapshot_def one_rank_def make_rank_entry_def
      List.map_filter_simps entry_for_def Let_def)
  have "newest_finalized m = Some one_snapshot"
    unfolding newest_finalized_def sns by (simp add: one_snapshot_def saved_snapshot_def)
  then have dirs: "wanted_dirs resume_ext m = [''snapshots/a/'']"
    by (simp add: wanted_dirs_def read_ids_def one_snapshot_def saved_snapshot_def snapshot_dir_def resume_paths)
      (simp add: orphan_ext_def pack_ext_def)
  have wanted: "wanted_key (Some (wanted_dirs resume_ext m)) ''snapshots/a/rank_0.pack''"
      "wanted_key (Some (wanted_dirs resume_ext m)) ''snapshots/a/ranks.json''"
      "\<not> wanted_key (Some (wanted_dirs resume_ext m)) manifest_path"
    by (simp_all add: wanted_key_def dirs snapshots_prefix_def manifest_path_def)
  have second: "\<exists>n. copy_absent (b_get ?B run_disk) ?B [] [''snapshots/a/rank_0.pack'', ''snapshots/a/ranks.json''] part_disk
      = (Inr n, part_disk\<lparr>fs_files := fs_files part_disk @ [(''snapshots/a/rank_0.pack'', encode_header 43 2 @ one_blob @ [123, 125])]\<rparr>)"
    by (simp add: run_sync run_write run_disk_def pack_disk_def part_disk_def)
  have core: "co_remote (resume_core run_disk) = run_disk" "co_store (resume_core run_disk) = empty_fs" "co_merger (resume_core run_disk) = None"
    "cc_remote_storage resume_config = Some ?B"
    by (simp_all add: resume_core_def new_core_def resume_config_def Let_def run_config_def default_config_def)
  obtain n1 n2 where copies: "copy_absent (b_get ?B run_disk) ?B [] [''snapshots/a/ranks.json''] (empty_fs\<lparr>fs_files := [(manifest_path, [123, 125])]\<rparr>)
      = (Inr n1, part_disk)"
    "copy_absent (b_get ?B run_disk) ?B [] [''snapshots/a/rank_0.pack'', ''snapshots/a/ranks.json''] part_disk
      = (Inr n2, part_disk\<lparr>fs_files := fs_files part_disk @ [(''snapshots/a/rank_0.pack'', encode_header 43 2 @ one_blob @ [123, 125])]\<rparr>)"
    using first second by blast
  have same: "m\<lparr>mf_snapshots := [one_snapshot]\<rparr> = m" using sns by simp
  show ?thesis
    unfolding core_restore_def core Let_def m keys copies(1) ranks prod.case sum.case option.case bool.case load sns whole same
    by (simp add: copies(2) wanted sns) (simp add: with_store_def with_shared_def part_disk_def)
qed


end
