(* ===== verification/S3Service.thy ===== *)
theory S3Service
  imports S3
begin

text \<open>
  The S3 client against a service: what the service documents of single requests, as conditions on a
  view of its objects and of the parts of uploads, and what follows for the operations of the trait.
  An error never says that nothing happened: an answer may be lost after the service has acted.
\<close>

section \<open>What the client sends\<close>

definition addressed :: "('u, 'b, 's) s3_world \<Rightarrow> 'b s3_storage \<Rightarrow> http_method \<Rightarrow> string \<Rightarrow> (string \<times> string) list \<Rightarrow> 'u \<Rightarrow> bool" where
  "addressed W st m key query u \<longleftrightarrow> (\<exists>url ts. sx_object_url W (st_bucket st) key = Inr url
     \<and> u = sx_sign W ts m url (st_credentials st) (sx_region W (st_bucket st)) signed_for_secs (sort query))"

lemma attempts_rule:
  assumes "P s"
    and "\<And>s x s'. P s \<Longrightarrow> once s = (Inr x, s') \<Longrightarrow> Q x s'"
    and "\<And>s e s'. P s \<Longrightarrow> once s = (Inl e, s') \<Longrightarrow> R e s' \<and> (\<forall>n. P (sx_sleep W n s'))"
  shows "case attempts_from W once k b s of (Inr x, s') \<Rightarrow> Q x s' | (Inl e, s') \<Rightarrow> R e s'"
  using assms
proof (induction W once k b s rule: attempts_from.induct)
  case (1 W once k b s)
  obtain r s' where t: "once s = (r, s')" by fastforce
  show ?case
  proof (cases r)
    case (Inl e)
    note err = t [unfolded Inl]
    show ?thesis
    proof (cases "k < max_attempts \<and> is_retryable e")
      case True
      have "case attempts_from W once (Suc k) (2 * b) (sx_sleep W b s') of (Inr x, s') \<Rightarrow> Q x s' | (Inl e, s') \<Rightarrow> R e s'"
        using 1 err True by simp
      moreover have "attempts_from W once k b s = attempts_from W once (Suc k) (2 * b) (sx_sleep W b s')"
        using err True by (subst attempts_from.simps) simp
      ultimately show ?thesis by simp
    next
      case False
      then have "attempts_from W once k b s = (Inl e, s')" using err by (subst attempts_from.simps) auto
      then show ?thesis using 1(4) [OF 1(2) err] by simp
    qed
  next
    case (Inr x)
    then have "attempts_from W once k b s = (Inr x, s')" using t by (subst attempts_from.simps) simp
    then show ?thesis using 1(3) [OF 1(2)] t Inr by simp
  qed
qed

lemma attempt_cases:
  assumes "attempt_request W st m key body query s = (r, s')" and "key \<noteq> []"
  obtains (unsent) "s' = s" "r = Inl (StorageErr ''S3 key is not a path'')"
  | (sent) u hr where "addressed W st m key query u" "sx_send W m u [] body s = (hr, s')"
      "r = (case hr of Inl e \<Rightarrow> Inl (status_error key e) | Inr resp \<Rightarrow> Inr resp)"
proof (cases "sx_object_url W (st_bucket st) key")
  case (Inl e)
  then show thesis using assms unsent by (auto simp: attempt_request_def signed_url_def)
next
  case (Inr url)
  let ?u = "sx_sign W (sx_now W s) m url (st_credentials st) (sx_region W (st_bucket st)) signed_for_secs (sort query)"
  obtain hr s'' where send: "sx_send W m ?u [] body s = (hr, s'')" by fastforce
  have "addressed W st m key query ?u" using Inr by (auto simp: addressed_def)
  moreover have "s'' = s'" "r = (case hr of Inl e \<Rightarrow> Inl (status_error key e) | Inr resp \<Rightarrow> Inr resp)"
    using assms Inr send by (auto simp: attempt_request_def signed_url_def split: sum.splits)
  ultimately show thesis using sent send by blast
qed

text \<open>A rule for a request with its retries: \<open>P\<close> holds whenever it is sent.\<close>

lemma request_rule:
  assumes "do_request W st m key body query s = (r, s')" and "key \<noteq> []" and "P s"
    and "\<And>s u hr s'. P s \<Longrightarrow> addressed W st m key query u \<Longrightarrow> sx_send W m u [] body s = (hr, s')
      \<Longrightarrow> case hr of Inr resp \<Rightarrow> Q resp s' | Inl e \<Rightarrow> R (status_error key e) s' \<and> P s'"
    and "\<And>s. P s \<Longrightarrow> R (StorageErr ''S3 key is not a path'') s"
    and "\<And>s n. P s \<Longrightarrow> P (sx_sleep W n s)"
  shows "case r of Inr x \<Rightarrow> Q x s' | Inl e \<Rightarrow> R e s'"
proof -
  have "case attempts_from W (attempt_request W st m key body query) 1 200 s of (Inr x, s') \<Rightarrow> Q x s' | (Inl e, s') \<Rightarrow> R e s'"
  proof (rule attempts_rule [where P = P])
    show "P s" by (rule assms(3))
  next
    fix s x s'
    assume "P s" and t: "attempt_request W st m key body query s = (Inr x, s')"
    from t assms(2) show "Q x s'"
    proof (cases rule: attempt_cases)
      case (sent u hr)
      then show ?thesis using assms(4) [OF \<open>P s\<close> sent(1,2)] by (auto split: sum.splits)
    qed simp
  next
    fix s e s'
    assume "P s" and t: "attempt_request W st m key body query s = (Inl e, s')"
    from t assms(2) show "R e s' \<and> (\<forall>n. P (sx_sleep W n s'))"
    proof (cases rule: attempt_cases)
      case unsent
      then show ?thesis using assms(5,6) \<open>P s\<close> by simp
    next
      case (sent u hr)
      then show ?thesis using assms(4) [OF \<open>P s\<close> sent(1,2)] assms(6) by (auto split: sum.splits)
    qed
  qed
  then show ?thesis using assms(1) by (simp add: do_request_def split: prod.splits)
qed

section \<open>What the service documents\<close>

text \<open>An answer's body may break off; what arrives is the beginning of it.\<close>

definition delivers :: "response \<Rightarrow> bytes \<Rightarrow> bool" where
  "delivers resp body \<longleftrightarrow> (case rs_reader resp of (data, None) \<Rightarrow> data = body | (data, Some _) \<Rightarrow> Sublist.prefix data body)"

text \<open>206 is the range that was asked for, any other success the whole object.\<close>

definition answers :: "(string \<times> string) list \<Rightarrow> bytes \<Rightarrow> response \<Rightarrow> bool" where
  "answers headers d resp \<longleftrightarrow>
     (if rs_status resp = 206
      then headers \<noteq> [] \<and> (\<forall>off len. 0 < len \<and> headers = [(''Range'', range_text off len)] \<longrightarrow> delivers resp (take len (drop off d)))
      else delivers resp d)"

text \<open>A success says it happened; a failure that it may have.\<close>

definition changed_at :: "('s \<Rightarrow> string \<Rightarrow> bytes option) \<Rightarrow> 's \<Rightarrow> string \<Rightarrow> bytes option \<Rightarrow> 'e + 'a \<Rightarrow> 's \<Rightarrow> bool" where
  "changed_at objects s key v r s' \<longleftrightarrow>
     (case r of Inr _ \<Rightarrow> objects s' = (objects s)(key := v) | Inl _ \<Rightarrow> objects s' \<in> {objects s, (objects s)(key := v)})"

definition answered :: "bytes option \<Rightarrow> (bytes \<Rightarrow> response \<Rightarrow> bool) \<Rightarrow> http_error + response \<Rightarrow> bool" where
  "answered v good r \<longleftrightarrow>
     (case r of
        Inr resp \<Rightarrow> (\<exists>d. v = Some d \<and> good d resp)
      | Inl (Status code _) \<Rightarrow> code = 404 \<longrightarrow> v = None
      | Inl (Transport _) \<Rightarrow> True)"

definition stores_objects :: "('u, 'b, 's) s3_world \<Rightarrow> 'b s3_storage \<Rightarrow> ('s \<Rightarrow> string \<Rightarrow> bytes option) \<Rightarrow> bool" where
  "stores_objects W st objects \<longleftrightarrow>
     (\<forall>n s. objects (sx_sleep W n s) = objects s)
   \<and> (\<forall>key u d s r s'. addressed W st Put key [] u \<longrightarrow> sx_send W Put u [] (Some d) s = (r, s') \<longrightarrow> changed_at objects s key (Some d) r s')
   \<and> (\<forall>key u headers s r s'. addressed W st Get key [] u \<longrightarrow> sx_send W Get u headers None s = (r, s') \<longrightarrow>
        objects s' = objects s \<and> answered (objects s key) (answers headers) r)
   \<and> (\<forall>key u s r s'. addressed W st Head key [] u \<longrightarrow> sx_send W Head u [] None s = (r, s') \<longrightarrow>
        objects s' = objects s \<and> answered (objects s key) (\<lambda>d resp. True) r)
   \<and> (\<forall>key u s r s'. addressed W st Delete key [] u \<longrightarrow> sx_send W Delete u [] None s = (r, s') \<longrightarrow> changed_at objects s key None r s')"

text \<open>
  Uploads: \<open>parts s i\<close> is what was uploaded under the id \<open>i\<close>, the number of a part with its tag and its
  bytes. A completion that lists exactly these makes them the object.
\<close>

definition completion_text :: "(nat \<times> string \<times> bytes) list \<Rightarrow> string" where
  "completion_text ps = ''<CompleteMultipartUpload>'' @ concat (map (\<lambda>(n, tag, d). part_text n tag) ps) @ ''</CompleteMultipartUpload>''"

definition assembled :: "(nat \<times> string \<times> bytes) list \<Rightarrow> bytes" where
  "assembled ps = concat (map (snd \<circ> snd) ps)"

definition assembles_parts :: "('u, 'b, 's) s3_world \<Rightarrow> 'b s3_storage \<Rightarrow> ('s \<Rightarrow> string \<Rightarrow> bytes option)
    \<Rightarrow> ('s \<Rightarrow> string \<Rightarrow> (nat \<times> string \<times> bytes) list) \<Rightarrow> bool" where
  "assembles_parts W st objects parts \<longleftrightarrow>
     (\<forall>n s. objects (sx_sleep W n s) = objects s \<and> parts (sx_sleep W n s) = parts s)
   \<and> (\<forall>key u s r s'. addressed W st Post key [(''uploads'', [])] u \<longrightarrow> sx_send W Post u [] None s = (r, s') \<longrightarrow>
        objects s' = objects s \<and> (\<forall>resp body i. r = Inr resp \<longrightarrow> rs_text resp = Inr body \<longrightarrow>
          extract_xml_value body ''UploadId'' = Some i \<longrightarrow> parts s' i = []))
   \<and> (\<forall>key u n i d s r s'. addressed W st Put key [(''partNumber'', nat_str n), (''uploadId'', i)] u \<longrightarrow>
        sx_send W Put u [] (Some d) s = (r, s') \<longrightarrow>
        objects s' = objects s \<and> (case r of
            Inr resp \<Rightarrow> (\<forall>tag. rs_header resp ''ETag'' = Some tag \<longrightarrow> parts s' i = AList.update n (tag, d) (parts s i))
          | Inl _ \<Rightarrow> parts s' i = parts s i \<or> (\<exists>tag. parts s' i = AList.update n (tag, d) (parts s i))))
   \<and> (\<forall>key u i b s r s'. addressed W st Post key [(''uploadId'', i)] u \<longrightarrow> sx_send W Post u [] (Some b) s = (r, s') \<longrightarrow>
        parts s' i = parts s i \<and> (b = text_bytes (completion_text (parts s i)) \<longrightarrow>
          objects s' \<in> {objects s, (objects s)(key \<mapsto> assembled (parts s i))} \<and>
          (\<forall>resp body. r = Inr resp \<longrightarrow> rs_text resp = Inr body \<longrightarrow> \<not> contains_text body ''<Error>'' \<longrightarrow>
            objects s' = (objects s)(key \<mapsto> assembled (parts s i)))))
   \<and> (\<forall>key u i s r s'. addressed W st Delete key [(''uploadId'', i)] u \<longrightarrow> sx_send W Delete u [] None s = (r, s') \<longrightarrow>
        objects s' = objects s)"

section \<open>Objects\<close>

lemma stores_objectsD:
  assumes "stores_objects W st objects"
  shows "objects (sx_sleep W n s) = objects s"
    and "addressed W st Put key [] u \<Longrightarrow> sx_send W Put u [] (Some d) s = (r, s') \<Longrightarrow> changed_at objects s key (Some d) r s'"
    and "addressed W st Get key [] u \<Longrightarrow> sx_send W Get u headers None s = (r, s') \<Longrightarrow>
        objects s' = objects s \<and> answered (objects s key) (answers headers) r"
    and "addressed W st Head key [] u \<Longrightarrow> sx_send W Head u [] None s = (r, s') \<Longrightarrow>
        objects s' = objects s \<and> answered (objects s key) (\<lambda>d resp. True) r"
    and "addressed W st Delete key [] u \<Longrightarrow> sx_send W Delete u [] None s = (r, s') \<Longrightarrow> changed_at objects s key None r s'"
proof -
  note laws = assms [unfolded stores_objects_def]
  show "objects (sx_sleep W n s) = objects s" by (rule laws [THEN conjunct1, rule_format])
  note laws = laws [THEN conjunct2]
  show "changed_at objects s key (Some d) r s'" if "addressed W st Put key [] u" "sx_send W Put u [] (Some d) s = (r, s')"
    by (rule laws [THEN conjunct1, rule_format, OF that])
  note laws = laws [THEN conjunct2]
  show "objects s' = objects s \<and> answered (objects s key) (answers headers) r"
    if "addressed W st Get key [] u" "sx_send W Get u headers None s = (r, s')"
    by (rule laws [THEN conjunct1, THEN spec, THEN spec, THEN spec, THEN spec, THEN spec, THEN spec, THEN mp, THEN mp, OF that])
  note laws = laws [THEN conjunct2]
  show "objects s' = objects s \<and> answered (objects s key) (\<lambda>d resp. True) r"
    if "addressed W st Head key [] u" "sx_send W Head u [] None s = (r, s')"
    by (rule laws [THEN conjunct1, THEN spec, THEN spec, THEN spec, THEN spec, THEN spec, THEN mp, THEN mp, OF that])
  note laws = laws [THEN conjunct2]
  show "changed_at objects s key None r s'" if "addressed W st Delete key [] u" "sx_send W Delete u [] None s = (r, s')"
    by (rule laws [rule_format, OF that])
qed

text \<open>Changing an object in one request, tried as often as it takes.\<close>

lemma change_request:
  assumes "do_request W st m key body [] s = (r, s')" and "key \<noteq> []" and "stores_objects W st objects"
    and "\<And>u t hr t'. addressed W st m key [] u \<Longrightarrow> sx_send W m u [] body t = (hr, t') \<Longrightarrow> changed_at objects t key v hr t'"
  shows "changed_at objects s key v r s'"
  unfolding changed_at_def using assms(1,2)
proof (rule request_rule [where P = "\<lambda>t. objects t \<in> {objects s, (objects s)(key := v)}"])
  fix t u hr t'
  assume t: "objects t \<in> {objects s, (objects s)(key := v)}" and "addressed W st m key [] u" "sx_send W m u [] body t = (hr, t')"
  then have "changed_at objects t key v hr t'" using assms(4) by blast
  with t show "case hr of Inr resp \<Rightarrow> objects t' = (objects s)(key := v)
    | Inl e \<Rightarrow> objects t' \<in> {objects s, (objects s)(key := v)} \<and> objects t' \<in> {objects s, (objects s)(key := v)}"
    by (cases hr) (auto simp: changed_at_def)
qed (auto simp: stores_objectsD(1) [OF assms(3)])

lemma status_error_NotFound: "status_error key e = NotFound k \<longleftrightarrow> k = key \<and> (\<exists>body. e = Status 404 body)"
  by (cases e) auto

text \<open>Reading changes nothing; an answer is the object's, and only an absent object is not found.\<close>

lemma read_request:
  assumes "stores_objects W st objects" and "key \<noteq> []" and "m = Get \<or> m = Head" and "do_request W st m key None [] s = (r, s')"
  shows "objects s' = objects s \<and> (case r of
      Inr resp \<Rightarrow> (\<exists>d. objects s key = Some d \<and> (m = Get \<longrightarrow> answers [] d resp))
    | Inl e \<Rightarrow> (\<exists>k. e = NotFound k) \<longrightarrow> objects s key = None)"
proof -
  let ?Q = "\<lambda>resp t. objects t = objects s \<and> (\<exists>d. objects s key = Some d \<and> (m = Get \<longrightarrow> answers [] d resp))"
  let ?R = "\<lambda>e t. objects t = objects s \<and> ((\<exists>k. e = NotFound k) \<longrightarrow> objects s key = None)"
  have "case r of Inr resp \<Rightarrow> ?Q resp s' | Inl e \<Rightarrow> ?R e s'"
    using assms(4,2)
  proof (rule request_rule [where P = "\<lambda>t. objects t = objects s"])
    fix t u hr t'
    assume t: "objects t = objects s" and u: "addressed W st m key [] u" and send: "sx_send W m u [] None t = (hr, t')"
    from assms(3) show "case hr of Inr resp \<Rightarrow> ?Q resp t' | Inl e \<Rightarrow> ?R (status_error key e) t' \<and> objects t' = objects s"
    proof
      assume m: "m = Get"
      show ?thesis using stores_objectsD(3) [OF assms(1) u [unfolded m] send [unfolded m]] t m
        by (cases hr) (auto simp: status_error_NotFound answered_def)
    next
      assume m: "m = Head"
      show ?thesis using stores_objectsD(4) [OF assms(1) u [unfolded m] send [unfolded m]] t m
        by (cases hr) (auto simp: status_error_NotFound answered_def)
    qed
  qed (auto simp: stores_objectsD(1) [OF assms(1)])
  then show ?thesis by (cases r) auto
qed

lemma key_not_empty [simp]: "rel_path \<noteq> [] \<Longrightarrow> object_key cfg rel_path \<noteq> []"
  by (simp add: object_key_def)

lemma object_key_inj [simp]: "object_key cfg p = object_key cfg q \<longleftrightarrow> p = q"
  by (simp add: object_key_def)

lemma get_object:
  assumes "stores_objects W st objects" and "rel_path \<noteq> []" and "s3_get W st rel_path s = (r, s')"
  shows "objects s' = objects s \<and> (case r of
      Inr d \<Rightarrow> objects s (object_key (st_config st) rel_path) = Some d
    | Inl e \<Rightarrow> (\<exists>k. e = NotFound k) \<longrightarrow> objects s (object_key (st_config st) rel_path) = None)"
proof -
  obtain q where q: "do_request W st Get (object_key (st_config st) rel_path) None [] s = (q, s')" "r = bind_res (under_path rel_path q) read_body"
    using assms(3) by (auto simp: s3_get_def split: prod.splits)
  note read = read_request [OF assms(1) key_not_empty [OF assms(2)] disjI1 [OF refl] q(1)]
  show ?thesis
  proof (cases q)
    case (Inl e)
    then show ?thesis using read q(2) by (cases e) (auto simp: under_path_def)
  next
    case (Inr resp)
    then obtain d where d: "objects s (object_key (st_config st) rel_path) = Some d" "answers [] d resp" "objects s' = objects s"
      using read by auto
    have "delivers resp d" using d(2) by (auto simp: answers_def split: if_splits)
    then show ?thesis using d(1,3) q(2) Inr by (auto simp: under_path_def read_body_def delivers_def split: option.splits prod.splits)
  qed
qed

text \<open>An answer to a ranged read is never somebody else's bytes.\<close>

lemma delivers_take:
  assumes "delivers resp body" and "range_body off len resp = Inr d"
  shows "d = take len body"
proof (cases "len \<le> length (fst (rs_reader resp))")
  case True
  then show ?thesis using assms
    by (auto simp: range_body_def delivers_def Sublist.prefix_def split: option.splits prod.splits if_splits)
next
  case False
  then show ?thesis using assms
    by (auto simp: range_body_def read_body_def delivers_def split: option.splits prod.splits if_splits)
qed

lemma range_body_sound:
  assumes "answers [(''Range'', range_text off len)] c resp" and "0 < len" and "range_body off len resp = Inr d"
  shows "d = take len (drop off c)"
proof (cases "rs_status resp = 206")
  case True
  then have "delivers resp (take len (drop off c))" using assms(1,2) by (auto simp: answers_def)
  from delivers_take [OF this assms(3)] show ?thesis by simp
next
  case False
  then have "delivers resp c" "off = 0" using assms(1,3) by (auto simp: answers_def range_body_def split: if_splits)
  with delivers_take assms(3) show ?thesis by fastforce
qed

lemma range_from_sound:
  assumes "stores_objects W st objects" and "0 < len" and "range_from W st key off len k b s = (r, s')"
  shows "objects s' = objects s \<and> (case r of
      Inr d \<Rightarrow> \<exists>c. objects s key = Some c \<and> d = take len (drop off c)
    | Inl e \<Rightarrow> (\<exists>q. e = NotFound q) \<longrightarrow> objects s key = None)"
  using assms
proof (induction W st key off len k b s rule: range_from.induct)
  case (1 W st key off len k b s)
  note laws = 1(2) and call = 1(4)
  show ?case
  proof (cases "sx_object_url W (st_bucket st) key")
    case (Inl e)
    then show ?thesis using call by (subst (asm) range_from.simps) (auto simp: signed_url_def)
  next
    case (Inr url)
    define u where "u = sx_sign W (sx_now W s) Get url (st_credentials st) (sx_region W (st_bucket st)) signed_for_secs (sort [])"
    have url: "signed_url W st Get key [] s = Inr u" using Inr by (simp add: signed_url_def u_def)
    have u: "addressed W st Get key [] u" using Inr unfolding addressed_def u_def by blast
    obtain hr t where send: "sx_send W Get u [(''Range'', range_text off len)] None s = (hr, t)" by fastforce
    note law = stores_objectsD(3) [OF laws u send]
    show ?thesis
    proof (cases hr)
      case resp: (Inr resp)
      then have "r = range_body off len resp" "s' = t" using call url send by (subst (asm) range_from.simps, simp)+
      with law resp show ?thesis using range_body_sound [OF _ 1(3)]
        by (fastforce simp: answered_def range_body_def read_body_def split: sum.splits if_splits option.splits prod.splits)
    next
      case err: (Inl e)
      show ?thesis
      proof (cases "k < max_attempts \<and> is_retryable (status_error key e)")
        case True
        then have again: "range_from W st key off len (Suc k) (2 * b) (sx_sleep W b t) = (r, s')"
          using call url send err by (subst (asm) range_from.simps) simp
        have same: "objects (sx_sleep W b t) = objects s" using law stores_objectsD(1) [OF laws] by simp
        from 1(1) [OF url send [symmetric] err True laws 1(3) again] show ?thesis
          unfolding same .
      next
        case False
        then have "r = Inl (status_error key e)" "s' = t"
          using call url send err by (subst (asm) range_from.simps, auto)+
        with law err show ?thesis by (auto simp: answered_def status_error_NotFound)
      qed
    qed
  qed
qed

lemma get_range_object:
  assumes "stores_objects W st objects" and "rel_path \<noteq> []" and "0 < len" and "s3_get_range W st rel_path off len s = (r, s')"
  shows "objects s' = objects s \<and> (case r of
      Inr d \<Rightarrow> \<exists>c. objects s (object_key (st_config st) rel_path) = Some c \<and> d = take len (drop off c)
    | Inl e \<Rightarrow> (\<exists>k. e = NotFound k) \<longrightarrow> objects s (object_key (st_config st) rel_path) = None)"
proof -
  obtain q where q: "range_from W st (object_key (st_config st) rel_path) off len 1 200 s = (q, s')" "r = under_path rel_path q"
    using assms(3,4) by (auto simp: s3_get_range_def ranged_get_def split: prod.splits)
  note sound = range_from_sound [OF assms(1,3) q(1)]
  show ?thesis
  proof (cases q)
    case (Inl e)
    then show ?thesis using sound q(2) by (cases e) (auto simp: under_path_def)
  next
    case (Inr d)
    then show ?thesis using sound q(2) by (auto simp: under_path_def)
  qed
qed

lemma exists_object:
  assumes "stores_objects W st objects" and "rel_path \<noteq> []" and "s3_exists W st rel_path s = (Inr b, s')"
  shows "b \<longleftrightarrow> objects s (object_key (st_config st) rel_path) \<noteq> None"
proof -
  obtain q where q: "do_request W st Head (object_key (st_config st) rel_path) None [] s = (q, s')"
      "(case q of Inr _ \<Rightarrow> Inr True | Inl (NotFound _) \<Rightarrow> Inr False | Inl e \<Rightarrow> Inl e) = (Inr b :: bool result)"
    using assms(3) by (auto simp: s3_exists_def split: prod.splits sum.splits moonclip_error.splits)
  note read = read_request [OF assms(1) key_not_empty [OF assms(2)] disjI2 [OF refl] q(1)]
  show ?thesis
  proof (cases q)
    case (Inl e)
    then show ?thesis using q(2) read by (cases e) auto
  next
    case (Inr resp)
    then show ?thesis using q(2) read by auto
  qed
qed

section \<open>Uploads in parts\<close>

lemma assembles_partsD:
  assumes "assembles_parts W st objects parts"
  shows "objects (sx_sleep W n s) = objects s \<and> parts (sx_sleep W n s) = parts s"
    and "addressed W st Post key [(''uploads'', [])] u \<Longrightarrow> sx_send W Post u [] None s = (r, s') \<Longrightarrow>
        objects s' = objects s \<and> (\<forall>resp body i. r = Inr resp \<longrightarrow> rs_text resp = Inr body \<longrightarrow>
          extract_xml_value body ''UploadId'' = Some i \<longrightarrow> parts s' i = [])"
    and "addressed W st Put key [(''partNumber'', nat_str n), (''uploadId'', i)] u \<Longrightarrow>
        sx_send W Put u [] (Some d) s = (r, s') \<Longrightarrow>
        objects s' = objects s \<and> (case r of
            Inr resp \<Rightarrow> (\<forall>tag. rs_header resp ''ETag'' = Some tag \<longrightarrow> parts s' i = AList.update n (tag, d) (parts s i))
          | Inl _ \<Rightarrow> parts s' i = parts s i \<or> (\<exists>tag. parts s' i = AList.update n (tag, d) (parts s i)))"
    and "addressed W st Post key [(''uploadId'', i)] u \<Longrightarrow> sx_send W Post u [] (Some b) s = (r, s') \<Longrightarrow>
        parts s' i = parts s i \<and> (b = text_bytes (completion_text (parts s i)) \<longrightarrow>
          objects s' \<in> {objects s, (objects s)(key \<mapsto> assembled (parts s i))} \<and>
          (\<forall>resp body. r = Inr resp \<longrightarrow> rs_text resp = Inr body \<longrightarrow> \<not> contains_text body ''<Error>'' \<longrightarrow>
            objects s' = (objects s)(key \<mapsto> assembled (parts s i))))"
    and "addressed W st Delete key [(''uploadId'', i)] u \<Longrightarrow> sx_send W Delete u [] None s = (r, s') \<Longrightarrow> objects s' = objects s"
proof -
  note laws = assms [unfolded assembles_parts_def]
  show "objects (sx_sleep W n s) = objects s \<and> parts (sx_sleep W n s) = parts s" by (rule laws [THEN conjunct1, THEN spec, THEN spec])
  note laws = laws [THEN conjunct2]
  show "objects s' = objects s \<and> (\<forall>resp body i. r = Inr resp \<longrightarrow> rs_text resp = Inr body \<longrightarrow>
          extract_xml_value body ''UploadId'' = Some i \<longrightarrow> parts s' i = [])"
    if "addressed W st Post key [(''uploads'', [])] u" "sx_send W Post u [] None s = (r, s')"
    by (rule laws [THEN conjunct1, THEN spec, THEN spec, THEN spec, THEN spec, THEN spec, THEN mp, THEN mp, OF that])
  note laws = laws [THEN conjunct2]
  show "objects s' = objects s \<and> (case r of
            Inr resp \<Rightarrow> (\<forall>tag. rs_header resp ''ETag'' = Some tag \<longrightarrow> parts s' i = AList.update n (tag, d) (parts s i))
          | Inl _ \<Rightarrow> parts s' i = parts s i \<or> (\<exists>tag. parts s' i = AList.update n (tag, d) (parts s i)))"
    if "addressed W st Put key [(''partNumber'', nat_str n), (''uploadId'', i)] u" "sx_send W Put u [] (Some d) s = (r, s')"
    by (rule laws [THEN conjunct1, THEN spec, THEN spec, THEN spec, THEN spec, THEN spec, THEN spec, THEN spec, THEN spec, THEN mp, THEN mp, OF that])
  note laws = laws [THEN conjunct2]
  show "parts s' i = parts s i \<and> (b = text_bytes (completion_text (parts s i)) \<longrightarrow>
          objects s' \<in> {objects s, (objects s)(key \<mapsto> assembled (parts s i))} \<and>
          (\<forall>resp body. r = Inr resp \<longrightarrow> rs_text resp = Inr body \<longrightarrow> \<not> contains_text body ''<Error>'' \<longrightarrow>
            objects s' = (objects s)(key \<mapsto> assembled (parts s i))))"
    if "addressed W st Post key [(''uploadId'', i)] u" "sx_send W Post u [] (Some b) s = (r, s')"
    by (rule laws [THEN conjunct1, THEN spec, THEN spec, THEN spec, THEN spec, THEN spec, THEN spec, THEN spec, THEN mp, THEN mp, OF that])
  note laws = laws [THEN conjunct2]
  show "objects s' = objects s" if "addressed W st Delete key [(''uploadId'', i)] u" "sx_send W Delete u [] None s = (r, s')"
    by (rule laws [THEN spec, THEN spec, THEN spec, THEN spec, THEN spec, THEN spec, THEN mp, THEN mp, OF that])
qed

lemma update_append:
  "n \<notin> fst ` set ps \<Longrightarrow> AList.update n v ps = ps @ [(n, v)]"
  "n \<notin> fst ` set ps \<Longrightarrow> AList.update n v (ps @ [(n, v')]) = ps @ [(n, v)]"
  by (induction ps) auto

lemma part_request:
  assumes "assembles_parts W st objects parts" and "key \<noteq> []" and "n \<notin> fst ` set (parts s i)"
    and "do_request W st Put key (Some d) [(''partNumber'', nat_str n), (''uploadId'', i)] s = (r, s')"
  shows "objects s' = objects s \<and> (\<forall>resp tag. r = Inr resp \<longrightarrow> rs_header resp ''ETag'' = Some tag \<longrightarrow> parts s' i = parts s i @ [(n, tag, d)])"
proof -
  let ?P = "\<lambda>t. objects t = objects s \<and> (parts t i = parts s i \<or> (\<exists>tag. parts t i = parts s i @ [(n, tag, d)]))"
  let ?Q = "\<lambda>resp t. objects t = objects s \<and> (\<forall>tag. rs_header resp ''ETag'' = Some tag \<longrightarrow> parts t i = parts s i @ [(n, tag, d)])"
  note update = update_append [OF assms(3)]
  have "case r of Inr resp \<Rightarrow> ?Q resp s' | Inl e \<Rightarrow> objects s' = objects s"
    using assms(4,2)
  proof (rule request_rule [where P = ?P])
    fix t u hr t'
    assume t: "?P t" and u: "addressed W st Put key [(''partNumber'', nat_str n), (''uploadId'', i)] u"
      and send: "sx_send W Put u [] (Some d) t = (hr, t')"
    note law = assembles_partsD(3) [OF assms(1) u send]
    have upd: "AList.update n (tag, d) (parts t i) = parts s i @ [(n, tag, d)]" for tag
      using t by (auto simp: update)
    show "case hr of Inr resp \<Rightarrow> ?Q resp t' | Inl e \<Rightarrow> objects t' = objects s \<and> ?P t'"
      using law t unfolding upd by (cases hr) auto
  qed (auto simp: assembles_partsD(1) [OF assms(1)])
  then show ?thesis by (cases r) auto
qed

abbreviation begin_text :: "(nat \<times> string \<times> bytes) list \<Rightarrow> string" where
  "begin_text ps \<equiv> ''<CompleteMultipartUpload>'' @ concat (map (\<lambda>(n, tag, d). part_text n tag) ps)"

lemma send_parts_uploads:
  assumes "assembles_parts W st objects parts" and "key \<noteq> []"
    and "\<forall>n \<in> fst ` set (parts s i). n < number"
    and "send_parts W st key i number ds (begin_text (parts s i)) s = (r, s')"
  shows "objects s' = objects s \<and> (\<forall>xml. r = Inr xml \<longrightarrow> xml = begin_text (parts s' i) \<and> assembled (parts s' i) = assembled (parts s i) @ concat ds)"
  using assms(3,4)
proof (induction ds arbitrary: number s)
  case Nil
  then show ?case by auto
next
  case (Cons d ds)
  obtain q t where q: "do_request W st Put key (Some d) [(''partNumber'', nat_str number), (''uploadId'', i)] s = (q, t)" by fastforce
  have fresh: "number \<notin> fst ` set (parts s i)" using Cons.prems(1) by blast
  note part = part_request [OF assms(1,2) fresh q]
  show ?case
  proof (cases "\<exists>resp tag. q = Inr resp \<and> rs_header resp ''ETag'' = Some tag")
    case False
    then have "s' = t" "\<nexists>xml. r = Inr xml" using Cons.prems(2) q by (auto split: sum.splits option.splits)
    then show ?thesis using part by simp
  next
    case True
    then obtain resp tag where resp: "q = Inr resp" "rs_header resp ''ETag'' = Some tag" by blast
    then have t: "parts t i = parts s i @ [(number, tag, d)]" "objects t = objects s" using part by auto
    have "send_parts W st key i (Suc number) ds (begin_text (parts t i)) t = (r, s')"
      using Cons.prems(2) q resp t(1) by simp
    moreover have "\<forall>n \<in> fst ` set (parts t i). n < Suc number" using Cons.prems(1) t(1) by auto
    ultimately show ?thesis using Cons.IH [of t "Suc number"] t by (auto simp: assembled_def)
  qed
qed

lemma complete_request:
  assumes "assembles_parts W st objects parts" and "key \<noteq> []"
    and "do_request W st Post key (Some (text_bytes (completion_text (parts s i)))) [(''uploadId'', i)] s = (r, s')"
  shows "objects s' \<in> {objects s, (objects s)(key \<mapsto> assembled (parts s i))}
    \<and> (\<forall>resp body. r = Inr resp \<longrightarrow> rs_text resp = Inr body \<longrightarrow> \<not> contains_text body ''<Error>'' \<longrightarrow>
          objects s' = (objects s)(key \<mapsto> assembled (parts s i)))"
proof -
  let ?O = "(objects s)(key \<mapsto> assembled (parts s i))"
  let ?P = "\<lambda>t. objects t \<in> {objects s, ?O} \<and> parts t i = parts s i"
  let ?Q = "\<lambda>resp t. objects t \<in> {objects s, ?O}
    \<and> (\<forall>body. rs_text resp = Inr body \<longrightarrow> \<not> contains_text body ''<Error>'' \<longrightarrow> objects t = ?O)"
  have "case r of Inr resp \<Rightarrow> ?Q resp s' | Inl e \<Rightarrow> objects s' \<in> {objects s, ?O}"
    using assms(3,2)
  proof (rule request_rule [where P = ?P])
    fix t u hr t'
    assume t: "?P t" and u: "addressed W st Post key [(''uploadId'', i)] u"
      and send: "sx_send W Post u [] (Some (text_bytes (completion_text (parts s i)))) t = (hr, t')"
    note law = assembles_partsD(4) [OF assms(1) u send]
    have "(objects t)(key \<mapsto> assembled (parts s i)) = ?O" using t by auto
    then show "case hr of Inr resp \<Rightarrow> ?Q resp t' | Inl e \<Rightarrow> objects t' \<in> {objects s, ?O} \<and> ?P t'"
      using law t by (cases hr) auto
  qed (auto simp: assembles_partsD(1) [OF assms(1)])
  then show ?thesis by (cases r) auto
qed

lemma upload_parts_object:
  assumes "assembles_parts W st objects parts" and "key \<noteq> []" and "parts s i = []" and "upload_parts W st key data i s = (r, s')"
  shows "changed_at objects s key (Some data) r s'"
proof -
  let ?n = "part_size_for (length data)"
  have pos: "0 < ?n" by (simp add: part_size_for_def min_part_size_def)
  obtain q t where q: "send_parts W st key i 1 (chunks ?n data) (begin_text (parts s i)) s = (q, t)" by fastforce
  have sent: "objects t = objects s \<and> (\<forall>xml. q = Inr xml \<longrightarrow> xml = begin_text (parts t i) \<and> assembled (parts t i) = data)"
    using send_parts_uploads [OF assms(1,2) _ q] assms(3) pos by (simp add: assembled_def)
  show ?thesis
  proof (cases q)
    case (Inl e)
    then have "r = Inl e" "s' = t" using q assms(3,4) by (auto simp: upload_parts_def bind_io_def)
    then show ?thesis using sent by (simp add: changed_at_def)
  next
    case (Inr xml)
    obtain p t' where p: "do_request W st Post key (Some (text_bytes (completion_text (parts t i)))) [(''uploadId'', i)] t = (p, t')"
      by fastforce
    have xml: "xml @ ''</CompleteMultipartUpload>'' = completion_text (parts t i)" using sent Inr by (simp add: completion_text_def)
    have "upload_parts W st key data i s = (case p of Inl e \<Rightarrow> (Inl e, t') | Inr resp \<Rightarrow>
        (case rs_text resp of Inl e \<Rightarrow> Inl (StorageErr ''S3 multipart complete'')
         | Inr body \<Rightarrow> if contains_text body ''<Error>'' then Inl (StorageErr ''S3 refused to complete the multipart upload'') else Inr (), t'))"
      using q Inr p xml assms(3) by (simp add: upload_parts_def bind_io_def lift_io_def split: sum.splits)
    moreover note complete_request [OF assms(1,2) p]
    ultimately show ?thesis using assms(4) sent Inr
      by (auto simp: changed_at_def split: sum.splits if_splits)
  qed
qed

lemma object_kept_request:
  assumes "do_request W st m key body query s = (r, s')" and "key \<noteq> []" and "assembles_parts W st objects parts"
    and "\<And>u t hr t'. addressed W st m key query u \<Longrightarrow> sx_send W m u [] body t = (hr, t') \<Longrightarrow> objects t' = objects t"
  shows "objects s' = objects s"
proof -
  have "case r of Inr resp \<Rightarrow> objects s' = objects s | Inl e \<Rightarrow> objects s' = objects s"
    using assms(1,2)
  proof (rule request_rule [where P = "\<lambda>t. objects t = objects s"])
    fix t u hr t'
    assume t: "objects t = objects s" and "addressed W st m key query u" "sx_send W m u [] body t = (hr, t')"
    then have "objects t' = objects t" using assms(4) by blast
    with t show "case hr of Inr resp \<Rightarrow> objects t' = objects s | Inl e \<Rightarrow> objects t' = objects s \<and> objects t' = objects s"
      by (cases hr) simp_all
  qed (auto simp: assembles_partsD(1) [OF assms(3)])
  then show ?thesis by (cases r) simp_all
qed

lemma put_multipart_object:
  assumes "assembles_parts W st objects parts" and "rel_path \<noteq> []" and "put_multipart W st rel_path data s = (r, s')"
  shows "changed_at objects s (object_key (st_config st) rel_path) (Some data) r s'"
proof -
  let ?key = "object_key (st_config st) rel_path"
  have key: "?key \<noteq> []" using assms(2) by simp
  obtain q t where q: "do_request W st Post ?key None [(''uploads'', [])] s = (q, t)" by fastforce
  have "case q of Inr resp \<Rightarrow> objects t = objects s \<and> (\<forall>body i. rs_text resp = Inr body \<longrightarrow>
          extract_xml_value body ''UploadId'' = Some i \<longrightarrow> parts t i = []) | Inl e \<Rightarrow> objects t = objects s"
    using q key
  proof (rule request_rule [where P = "\<lambda>t. objects t = objects s"])
    fix v u hr t'
    assume v: "objects v = objects s" and "addressed W st Post ?key [(''uploads'', [])] u" "sx_send W Post u [] None v = (hr, t')"
    from assembles_partsD(2) [OF assms(1) this(2,3)] v
    show "case hr of Inr resp \<Rightarrow> objects t' = objects s \<and> (\<forall>body i. rs_text resp = Inr body \<longrightarrow>
          extract_xml_value body ''UploadId'' = Some i \<longrightarrow> parts t' i = []) | Inl e \<Rightarrow> objects t' = objects s \<and> objects t' = objects s"
      by (cases hr) auto
  qed (auto simp: assembles_partsD(1) [OF assms(1)])
  then have created: "objects t = objects s" "\<And>resp body i. q = Inr resp \<Longrightarrow> rs_text resp = Inr body
      \<Longrightarrow> extract_xml_value body ''UploadId'' = Some i \<Longrightarrow> parts t i = []"
    by (cases q; auto)+
  show ?thesis
  proof (cases "\<exists>resp body i. q = Inr resp \<and> rs_text resp = Inr body \<and> extract_xml_value body ''UploadId'' = Some i")
    case False
    then have "s' = t" "\<not> is_ok r"
      using assms(3) q by (auto simp: put_multipart_def bind_io_def lift_io_def Let_def ok_or_def split: sum.splits option.splits)
    then show ?thesis using created(1) by (cases r) (auto simp: changed_at_def)
  next
    case True
    then obtain resp body i where i: "q = Inr resp" "rs_text resp = Inr body" "extract_xml_value body ''UploadId'' = Some i" by blast
    obtain p v where p: "upload_parts W st ?key data i t = (p, v)" by fastforce
    obtain a w where a: "do_request W st Delete ?key None [(''uploadId'', i)] v = (a, w)" by fastforce
    have kept: "objects w = objects v" using a key assms(1) assembles_partsD(5) [OF assms(1)] by (rule object_kept_request)
    have "put_multipart W st rel_path data s = (case p of Inr _ \<Rightarrow> (Inr (), v) | Inl e \<Rightarrow> (Inl e, w))"
      using q i p a by (cases p) (simp_all add: put_multipart_def bind_io_def lift_io_def Let_def)
    moreover have "changed_at objects s ?key (Some data) p v"
      using upload_parts_object [OF assms(1) key created(2) [OF i] p] created(1) by (cases p) (auto simp: changed_at_def)
    ultimately show ?thesis using assms(3) kept by (cases p) (auto simp: changed_at_def)
  qed
qed

lemma s3_put_object:
  assumes "stores_objects W st objects" and "assembles_parts W st objects parts" and "rel_path \<noteq> []"
    and "s3_put W st rel_path data s = (r, s')"
  shows "changed_at objects s (object_key (st_config st) rel_path) (Some data) r s'"
proof (cases "s3_single_put_limit (st_config st) < length data")
  case True
  then show ?thesis using put_multipart_object [OF assms(2,3)] assms(4) by (simp add: s3_put_def)
next
  case False
  obtain q t where q: "do_request W st Put (object_key (st_config st) rel_path) (Some data) [] s = (q, t)" by fastforce
  have "changed_at objects s (object_key (st_config st) rel_path) (Some data) q t"
    using q key_not_empty [OF assms(3)] assms(1) stores_objectsD(2) [OF assms(1)] by (rule change_request)
  then show ?thesis using assms(4) False q by (auto simp: s3_put_def bind_io_def ret_io_def changed_at_def split: sum.splits)
qed

text \<open>
  C12. What is written to S3 is what is read from it, however large: when \<^verbatim>\<open>put\<close> reports success - in one
  request or in parts, whatever was retried on the way - exactly that object changed, and a read of
  it either gives the bytes written or fails, but never says it is not there. When \<^verbatim>\<open>put\<close> reports an
  error, no other object changed, and this one is as before or whole.
\<close>

theorem s3_put_get:
  assumes "stores_objects W st objects" and "assembles_parts W st objects parts" and "rel_path \<noteq> []"
    and "s3_put W st rel_path data s = (r, s1)" and "s3_get W st rel_path s1 = (q, s2)"
  shows "(if is_ok r then objects s1 = (objects s)(object_key (st_config st) rel_path \<mapsto> data)
      \<and> (case q of Inr d \<Rightarrow> d = data | Inl e \<Rightarrow> \<forall>k. e \<noteq> NotFound k)
    else objects s1 \<in> {objects s, (objects s)(object_key (st_config st) rel_path \<mapsto> data)})"
  using s3_put_object [OF assms(1-4)] get_object [OF assms(1,3,5)]
  by (cases r; cases q) (auto simp: changed_at_def)

text \<open>
  C13. A ranged read of S3 gives the bytes of that range or an error - never other bytes, whether the
  service honours the range, ignores it, or breaks off - and says that an object is missing only when
  it is; so do \<^verbatim>\<open>exists\<close> and \<^verbatim>\<open>get\<close>.
\<close>

theorem s3_reads_exact:
  assumes "stores_objects W st objects" and "rel_path \<noteq> []" and "0 < len"
  shows "(case fst (s3_get_range W st rel_path off len s) of
      Inr d \<Rightarrow> \<exists>c. objects s (object_key (st_config st) rel_path) = Some c \<and> d = take len (drop off c)
    | Inl (NotFound k) \<Rightarrow> k = rel_path \<and> objects s (object_key (st_config st) rel_path) = None
    | Inl e \<Rightarrow> True)
    \<and> (case fst (s3_exists W st rel_path s) of Inr b \<Rightarrow> b \<longleftrightarrow> objects s (object_key (st_config st) rel_path) \<noteq> None | Inl e \<Rightarrow> True)
    \<and> (case fst (s3_get W st rel_path s) of
      Inr d \<Rightarrow> objects s (object_key (st_config st) rel_path) = Some d
    | Inl (NotFound k) \<Rightarrow> k = rel_path \<and> objects s (object_key (st_config st) rel_path) = None
    | Inl e \<Rightarrow> True)"
proof -
  obtain r1 s1 r2 s2 r3 s3 where calls: "s3_get_range W st rel_path off len s = (r1, s1)" "s3_exists W st rel_path s = (r2, s2)"
    "s3_get W st rel_path s = (r3, s3)" by fastforce
  have path: "k = rel_path" if "r1 = Inl (NotFound k)" for k
    using that calls(1) by (auto simp: s3_get_range_def under_path_def split: prod.splits sum.splits moonclip_error.splits)
  have path': "k = rel_path" if "r3 = Inl (NotFound k)" for k
    using that calls(3) by (auto simp: s3_get_def under_path_def read_body_def split: prod.splits sum.splits moonclip_error.splits option.splits)
  show ?thesis
    using get_range_object [OF assms calls(1)] get_object [OF assms(1,2) calls(3)] exists_object [OF assms(1,2)] calls path path'
    by (cases r1; cases r2; cases r3) (auto split: moonclip_error.splits)
qed

section \<open>A service in memory\<close>

text \<open>It keeps all of the conditions, so they can be met; it answers a ranged read with the whole object.\<close>

record memory_s3 =
  ms_objects :: "(string \<times> bytes) list"
  ms_parts :: "(string \<times> (nat \<times> string \<times> bytes) list) list"

definition memory_parts :: "memory_s3 \<Rightarrow> string \<Rightarrow> (nat \<times> string \<times> bytes) list" where
  "memory_parts s i = (case map_of (ms_parts s) i of Some ps \<Rightarrow> ps | None \<Rightarrow> [])"

definition reply :: "bytes \<Rightarrow> string \<Rightarrow> string option \<Rightarrow> http_error + response" where
  "reply data body tag = Inr \<lparr>rs_status = 200, rs_header = (\<lambda>name. if name = ''ETag'' then tag else None),
     rs_reader = (data, None), rs_text = Inr body\<rparr>"

definition read_number :: "string \<Rightarrow> nat" where
  "read_number s = foldl (\<lambda>a c. 10 * a + (of_char c - 48)) 0 s"

fun serve_object :: "http_method \<Rightarrow> string \<Rightarrow> bytes option \<Rightarrow> memory_s3 \<Rightarrow> (http_error + response) \<times> memory_s3" where
  "serve_object Put key (Some d) s = (reply [] [] (Some ''e''), s\<lparr>ms_objects := AList.update key d (ms_objects s)\<rparr>)"
| "serve_object Delete key None s = (reply [] [] None, s\<lparr>ms_objects := AList.delete key (ms_objects s)\<rparr>)"
| "serve_object m key body s = (case map_of (ms_objects s) key of
      Some d \<Rightarrow> (reply d [] None, s) | None \<Rightarrow> (Inl (Status 404 []), s))"

fun serve_upload :: "http_method \<Rightarrow> string \<Rightarrow> string \<Rightarrow> bytes option \<Rightarrow> memory_s3 \<Rightarrow> (http_error + response) \<times> memory_s3" where
  "serve_upload Post key i (Some b) s =
     (if b = text_bytes (completion_text (memory_parts s i))
      then (reply [] [] None, s\<lparr>ms_objects := AList.update key (assembled (memory_parts s i)) (ms_objects s)\<rparr>)
      else (Inl (Status 400 []), s))"
| "serve_upload m key i body s = (reply [] [] None, s)"

definition memory_send :: "http_method \<Rightarrow> string \<times> (string \<times> string) list \<Rightarrow> (string \<times> string) list \<Rightarrow> bytes option
    \<Rightarrow> memory_s3 \<Rightarrow> (http_error + response) \<times> memory_s3" where
  "memory_send m u headers body s =
     (case snd u of
        [] \<Rightarrow> serve_object m (fst u) body s
      | [(name, v)] \<Rightarrow>
          if name = ''uploads'' then (reply [] (element_xml ''UploadId'' (fst u)) None, s\<lparr>ms_parts := AList.update (fst u) [] (ms_parts s)\<rparr>)
          else serve_upload m (fst u) v body s
      | (_, n) # (_, i) # _ \<Rightarrow>
          (reply [] [] (Some ''e''), s\<lparr>ms_parts := AList.update i (AList.update (read_number n) (''e'', the body) (memory_parts s i)) (ms_parts s)\<rparr>))"

definition memory_world :: "(string \<times> (string \<times> string) list, unit, memory_s3) s3_world" where
  "memory_world = \<lparr>sx_parse_url = (\<lambda>e. Inr (e, [])), sx_new_bucket = (\<lambda>u style name region. Inr ()),
     sx_object_url = (\<lambda>b key. Inr (key, [])), sx_region = (\<lambda>b. []), sx_sign = (\<lambda>ts m u cr region secs query. (fst u, query)),
     sx_host = (\<lambda>u. None), sx_port = (\<lambda>u. None), sx_path = fst, sx_set_query = (\<lambda>q u. u), sx_stamp = nat_str,
     sx_sha256 = (\<lambda>d. d), sx_hmac = (\<lambda>k d. d), sx_now = (\<lambda>s. 0), sx_sleep = (\<lambda>n s. s), sx_send = memory_send\<rparr>"

definition memory_storage :: "unit s3_storage" where
  "memory_storage = \<lparr>st_config = \<lparr>s3_bucket = ''b'', s3_prefix = ''runs'', s3_region = [], s3_endpoint = None, s3_access_key = ''a'',
       s3_secret_key = ''s'', s3_session_token = None, s3_path_style = True, s3_timeout_secs = 30, s3_single_put_limit = 2\<rparr>,
     st_bucket = (), st_credentials = \<lparr>sc_access_key = ''a'', sc_secret_key = ''s'', sc_session_token = None\<rparr>\<rparr>"

definition memory_objects :: "memory_s3 \<Rightarrow> string \<Rightarrow> bytes option" where
  "memory_objects s = map_of (ms_objects s)"

lemma memory_addressed: "addressed memory_world st m key query u \<longleftrightarrow> u = (key, sort query)"
  by (simp add: addressed_def memory_world_def)

lemma memory_send_object [simp]: "memory_send m (key, []) headers body s = serve_object m key body s"
  by (simp add: memory_send_def)

lemma memory_stores: "stores_objects memory_world memory_storage memory_objects"
  unfolding stores_objects_def memory_addressed
  by (auto simp: memory_world_def memory_objects_def reply_def changed_at_def answered_def answers_def delivers_def
      update_conv' delete_conv' split: option.splits)

lemma part_params_sorted: "sort [(''partNumber'', n), (''uploadId'', i)] = [(''partNumber'', n), (''uploadId'', i)]"
  by (simp add: less_eq_prod_def less_char_def)

lemma memory_upload_id: "extract_xml_value (element_xml ''UploadId'' key) ''UploadId'' = Some key"
  using read_element [of "''UploadId''" key "[]"] by (simp add: tag_name_def)

lemma memory_assembles: "assembles_parts memory_world memory_storage memory_objects memory_parts"
  unfolding assembles_parts_def memory_addressed part_params_sorted
  by (auto simp: memory_world_def memory_send_def memory_objects_def memory_parts_def reply_def
      read_number_def nat_str_value memory_upload_id update_conv' split: option.splits if_splits)

theorem s3_put_get_witness:
  "\<forall>data s. case s3_put memory_world memory_storage ''a.pack'' data s of (r, s1) \<Rightarrow>
     case s3_get memory_world memory_storage ''a.pack'' s1 of (q, s2) \<Rightarrow>
       is_ok r \<longrightarrow> memory_objects s1 ''runs/a.pack'' = Some data \<and> (is_ok q \<longrightarrow> q = Inr data)"
proof (intro allI)
  fix data s
  obtain r s1 q s2 where calls: "s3_put memory_world memory_storage ''a.pack'' data s = (r, s1)"
    "s3_get memory_world memory_storage ''a.pack'' s1 = (q, s2)" by fastforce
  have "object_key (st_config memory_storage) ''a.pack'' = ''runs/a.pack''"
    by (simp add: memory_storage_def object_key_def normalized_prefix_def trim_slashes_def)
  with s3_put_get [OF memory_stores memory_assembles _ calls] calls
  show "case s3_put memory_world memory_storage ''a.pack'' data s of (r, s1) \<Rightarrow>
     case s3_get memory_world memory_storage ''a.pack'' s1 of (q, s2) \<Rightarrow>
       is_ok r \<longrightarrow> memory_objects s1 ''runs/a.pack'' = Some data \<and> (is_ok q \<longrightarrow> q = Inr data)"
    by (cases q) auto
qed

theorem s3_reads_exact_witness:
  "case fst (s3_get_range memory_world memory_storage ''a'' 0 2 \<lparr>ms_objects = [(''runs/a'', [1, 2, 3])], ms_parts = []\<rparr>) of
     Inr d \<Rightarrow> d = [1, 2] | Inl e \<Rightarrow> \<forall>k. e \<noteq> NotFound k"
proof -
  have "object_key (st_config memory_storage) ''a'' = ''runs/a''"
    by (simp add: memory_storage_def object_key_def normalized_prefix_def trim_slashes_def)
  with s3_reads_exact [OF memory_stores, where rel_path = "''a''" and len = 2 and off = 0 and s = "\<lparr>ms_objects = [(''runs/a'', [1, 2, 3])], ms_parts = []\<rparr>"]
  show ?thesis by (auto simp: memory_objects_def eval_nat_numeral split: sum.splits moonclip_error.splits)
qed

theorem request_attempts_witness:
  "\<exists>n < 3. do_request memory_world memory_storage Get ''runs/a'' None [] \<lparr>ms_objects = [(''runs/a'', [1, 2, 3])], ms_parts = []\<rparr>
     = attempt_request memory_world memory_storage Get ''runs/a'' None []
         (before_attempt memory_world (attempt_request memory_world memory_storage Get ''runs/a'' None [])
            \<lparr>ms_objects = [(''runs/a'', [1, 2, 3])], ms_parts = []\<rparr> n)"
  using request_attempts [of memory_world memory_storage Get "''runs/a''" None "[]" "\<lparr>ms_objects = [(''runs/a'', [1, 2, 3])], ms_parts = []\<rparr>"]
  by blast

section \<open>Listings\<close>

text \<open>
  A listing the service gives in \<open>n\<close> pages: the one for \<open>token i\<close> has the objects \<open>page i\<close>, under their paths in
  the store, and the token of the next. It stays what it is while \<open>good\<close> holds.
\<close>

definition lists_pages :: "('u, 'b, 's) s3_world \<Rightarrow> 'b s3_storage \<Rightarrow> string \<Rightarrow> nat \<Rightarrow> (nat \<Rightarrow> string option)
    \<Rightarrow> (nat \<Rightarrow> (string \<times> nat option \<times> string) list) \<Rightarrow> ('s \<Rightarrow> bool) \<Rightarrow> bool" where
  "lists_pages W st full n token page good \<longleftrightarrow> token 0 = None
     \<and> (\<forall>i s. i < n \<longrightarrow> good s \<longrightarrow> (\<exists>resp s'. do_request W st Get [] None (list_params full (token i)) s = (Inr resp, s') \<and> good s'
          \<and> rs_text resp = Inr (page_xml (map (\<lambda>(rel, k, modified). (object_key (st_config st) rel, k, modified)) (page i))
               (if Suc i < n then token (Suc i) else None))))
     \<and> (\<forall>i. Suc i < n \<longrightarrow> token (Suc i) \<noteq> None)
     \<and> (\<forall>i rel k modified. i < n \<longrightarrow> (rel, Some k, modified) \<in> set (page i) \<longrightarrow> k < 2 ^ 64)"

definition page_entries :: "(string \<times> nat option \<times> string) list \<Rightarrow> (string \<times> nat option) list" where
  "page_entries objs = map (\<lambda>(rel, k, _). (rel, k)) objs"

lemma strip_object_key [simp]: "strip_base (normalized_prefix cfg) (object_key cfg rel) = rel"
  by (simp add: strip_base_def object_key_def)

lemma list_from_pages:
  assumes "lists_pages W st full n token page good" and "i < n" and "good s"
  shows "\<exists>s'. list_from W st full (token i) found s = Some (Inr (found @ concat (map (page_entries \<circ> page) [i..<n])), s') \<and> good s'"
  using assms(2,3)
proof (induction "n - i" arbitrary: i found s)
  case 0
  then show ?case by simp
next
  case (Suc m)
  let ?objs = "map (\<lambda>(rel, k, modified). (object_key (st_config st) rel, k, modified)) (page i)"
  let ?next = "if Suc i < n then token (Suc i) else None"
  from assms(1) obtain resp t where t: "do_request W st Get [] None (list_params full (token i)) s = (Inr resp, t)" "good t"
      "rs_text resp = Inr (page_xml ?objs ?next)"
    using Suc.prems unfolding lists_pages_def by blast
  have sizes: "k < 2 ^ 64" if "(key, Some k, modified) \<in> set ?objs" for key k modified
  proof -
    from that obtain rel where "(rel, Some k, modified) \<in> set (page i)" by auto
    then show ?thesis using assms(1) Suc.prems(1) unfolding lists_pages_def by blast
  qed
  have "listed_objects (page_xml ?objs ?next) = map (\<lambda>(key, k, _). (key, k)) ?objs"
    by (rule read_page [THEN conjunct1]) (rule sizes)
  then have entries: "map (\<lambda>(key, k). (strip_base (normalized_prefix (st_config st)) key, k)) (listed_objects (page_xml ?objs ?next))
      = page_entries (page i)"
    by (simp add: page_entries_def split_def comp_def)
  have split: "[i..<n] = i # [Suc i..<n]" using Suc.prems(1) by (rule upt_conv_Cons)
  show ?case
  proof (cases "Suc i < n")
    case True
    then obtain tok where tok: "token (Suc i) = Some tok" using assms(1) unfolding lists_pages_def by auto
    then have "list_from W st full (token i) found s = list_from W st full (token (Suc i)) (found @ page_entries (page i)) t"
      using t True entries truncated_text [of ?objs ?next] token_text [of ?objs tok]
      by (subst list_from.simps) (simp add: Let_def)
    then show ?thesis using Suc.hyps(1) [of "Suc i" t "found @ page_entries (page i)"] Suc.hyps(2) True t(2) by (auto simp: split)
  next
    case False
    then have "list_from W st full (token i) found s = Some (Inr (found @ page_entries (page i)), t)"
      using t entries truncated_text [of ?objs ?next] by (subst list_from.simps) (simp add: Let_def)
    moreover have one: "[i..<n] = [i]" using split False by simp
    ultimately show ?thesis using t(2) unfolding one by simp
  qed
qed


text \<open>A bucket listed in two pages.\<close>

definition two_pages :: "nat \<Rightarrow> (string \<times> nat option \<times> string) list" where
  "two_pages i = (if i = 0 then [(''manifest.json'', Some 7, ''x'')] else [(''a&b.pack'', None, ''y'')])"

definition listing_text :: "(string \<times> string) list \<Rightarrow> string" where
  "listing_text query = (if map_of query ''continuation-token'' = None
     then page_xml [(''runs/manifest.json'', Some 7, ''x'')] (Some ''t'') else page_xml [(''runs/a&b.pack'', None, ''y'')] None)"

definition paged_world :: "(string \<times> (string \<times> string) list, unit, memory_s3) s3_world" where
  "paged_world = memory_world\<lparr>sx_send := (\<lambda>m u headers body s.
     (Inr \<lparr>rs_status = 200, rs_header = (\<lambda>name. None), rs_reader = ([], None), rs_text = Inr (listing_text (snd u))\<rparr>, s))\<rparr>"

lemma paged_lists:
  "lists_pages paged_world memory_storage (object_key (st_config memory_storage) []) 2 (\<lambda>i. if i = 0 then None else Some ''t'') two_pages (\<lambda>s. True)"
proof -
  have answer: "do_request paged_world memory_storage Get [] None query s
      = (Inr \<lparr>rs_status = 200, rs_header = (\<lambda>name. None), rs_reader = ([], None), rs_text = Inr (listing_text (sort query))\<rparr>, s)" for query s
    by (simp add: do_request_def attempts_from.simps attempt_request_def signed_url_def memory_storage_def paged_world_def memory_world_def)
  have tokens: "map_of (sort (list_params p None)) ''continuation-token'' = None"
      "map_of (sort (list_params p (Some t))) ''continuation-token'' = Some t" for p t
    by (simp_all add: list_params_def less_eq_prod_def less_char_def)
  have key: "object_key (st_config memory_storage) rel = ''runs/'' @ rel" for rel
    by (simp add: memory_storage_def object_key_def normalized_prefix_def trim_slashes_def)
  show ?thesis
    unfolding lists_pages_def answer
    by (auto simp: less_2_cases_iff tokens key listing_text_def two_pages_def split: if_splits)
qed


end
