(* ===== verification/Pool.thy ===== *)
theory Pool
  imports S3Text
begin

text \<open>
  The size of the thread pool of \<^verbatim>\<open>src/src/pool.rs\<close>: an environment variable that names it, or the
  cores of the machine shared out between the processes on it. The pool itself is rayon's.
\<close>

definition threads_var :: string where
  "threads_var = ''MOONCLIP_THREADS''"

definition local_world_var :: string where
  "local_world_var = ''LOCAL_WORLD_SIZE''"

definition desired_threads :: "nat \<Rightarrow> nat option \<Rightarrow> nat option \<Rightarrow> nat" where
  "desired_threads cores local_world_size explicit =
     (case explicit of
        Some threads \<Rightarrow> max threads 1
      | None \<Rightarrow>
          let share = max (case local_world_size of Some k \<Rightarrow> k | None \<Rightarrow> 1) 1
          in max (max cores 1 div share) 1)"

text \<open>\<^verbatim>\<open>usize\<close> has 64 bits; a variable that is set to something else is complained of and ignored.\<close>

definition positive_env :: "(string \<Rightarrow> string option) \<Rightarrow> string \<Rightarrow> nat option" where
  "positive_env var name =
     Option.bind (var name) (\<lambda>raw.
       let trimmed = trim_text raw in
       if trimmed = [] then None
       else case parse_uint 64 trimmed of
              None \<Rightarrow> None
            | Some n \<Rightarrow> if n = 0 then None else Some n)"

definition pool_threads :: "(string \<Rightarrow> string option) \<Rightarrow> nat option \<Rightarrow> nat" where
  "pool_threads var parallelism =
     desired_threads (case parallelism of Some n \<Rightarrow> n | None \<Rightarrow> 1) (positive_env var local_world_var) (positive_env var threads_var)"

lemma positive_env_positive: "positive_env var name = Some n \<Longrightarrow> 0 < n"
  by (auto simp: positive_env_def Let_def bind_eq_Some_conv split: if_splits option.splits)

lemma positive_env_number: "0 < n \<Longrightarrow> n < 2 ^ 64 \<Longrightarrow> var name = Some (nat_str n) \<Longrightarrow> positive_env var name = Some n"
  using nat_str_digits [of n] trim_text_digits [of "nat_str n"] by (simp add: positive_env_def parse_nat_str)

text \<open>
  The pool is never empty, and never more than its share: a number set in the environment is the
  number of threads; without one, the processes of a node that have a core each use no more threads
  together than the node has cores.
\<close>

theorem pool_share:
  "1 \<le> pool_threads var parallelism
    \<and> (\<forall>n. positive_env var threads_var = Some n \<longrightarrow> pool_threads var parallelism = n)
    \<and> (\<forall>k cores. positive_env var threads_var = None \<longrightarrow> positive_env var local_world_var = Some k \<longrightarrow>
         parallelism = Some cores \<longrightarrow> k \<le> cores \<longrightarrow> k * pool_threads var parallelism \<le> cores)"
proof (intro conjI allI impI)
  show "1 \<le> pool_threads var parallelism"
    by (simp add: pool_threads_def desired_threads_def Let_def split: option.splits)
  show "pool_threads var parallelism = n" if "positive_env var threads_var = Some n" for n
    using that positive_env_positive [OF that] by (simp add: pool_threads_def desired_threads_def)
  fix k cores
  assume k: "positive_env var threads_var = None" "positive_env var local_world_var = Some k" "parallelism = Some cores" "k \<le> cores"
  have "0 < k" using positive_env_positive [OF k(2)] .
  then have "0 < cores div k" using k(4) by (simp add: div_greater_zero_iff)
  then show "k * pool_threads var parallelism \<le> cores"
    using k \<open>0 < k\<close> by (simp add: pool_threads_def desired_threads_def max_def)
qed

theorem pool_share_witness:
  "pool_threads (\<lambda>name. if name = local_world_var then Some (nat_str 8) else None) (Some 128) = 16"
proof -
  let ?var = "\<lambda>name. if name = local_world_var then Some (nat_str 8) else None"
  have k: "positive_env ?var local_world_var = Some 8" by (rule positive_env_number) simp_all
  have t: "positive_env ?var threads_var = None" by (simp add: positive_env_def threads_var_def local_world_var_def)
  have "8 * pool_threads ?var (Some 128) \<le> 128" using pool_share [of ?var "Some 128"] k t by simp
  moreover have "pool_threads ?var (Some 128) = 16" using k t by (simp add: pool_threads_def desired_threads_def)
  ultimately show ?thesis by simp
qed

end
